(* ===== verification/Prelude.thy ===== *)
theory Prelude
  imports Main "HOL-Library.Word"
begin

text \<open>
  Shared vocabulary of the development: the Go integer and byte types, the
  collections of rewrite and introduction rules the component proofs draw on,
  and the facts about tables (lists of rows with a key) that the SQLite model,
  the connection manager, the replay cache and the node cache all use.

  A Go \<^verbatim>\<open>string\<close> and a Go \<^verbatim>\<open>[]byte\<close> are both sequences of bytes; the HOL type
  \<^typ>\<open>string\<close> (a list of 8-bit characters) is used for both, and a \<^verbatim>\<open>[]byte\<close> that
  may be \<^verbatim>\<open>nil\<close> is a \<^typ>\<open>string option\<close>.
\<close>

section \<open>Types\<close>

type_synonym bytes = string
type_synonym uint32 = "32 word"
type_synonym uint64 = "64 word"

text \<open>Go's \<^verbatim>\<open>len\<close> of a byte slice that may be \<^verbatim>\<open>nil\<close>.\<close>

definition blen :: "bytes option \<Rightarrow> nat" where
  "blen b = (case b of None \<Rightarrow> 0 | Some x \<Rightarrow> length x)"

lemma blen_simps [simp]: "blen None = 0" "blen (Some x) = length x"
  by (simp_all add: blen_def)

lemma blen_0_iff: "blen b = 0 \<longleftrightarrow> b = None \<or> b = Some []"
  by (cases b) auto

section \<open>Collections of rules\<close>

named_theorems inv_intro \<open>facts that an operation keeps an invariant\<close>
named_theorems frame \<open>facts that an operation leaves a field alone\<close>

section \<open>Keyed tables\<close>

text \<open>
  A table is a list of rows and a key function; the key is unique when the keys
  of the rows are distinct. These are the operations of the SQL statements and
  of the Go maps of the program, and the laws that connect them.
\<close>

definition tab_find :: "('r \<Rightarrow> 'k) \<Rightarrow> 'k \<Rightarrow> 'r list \<Rightarrow> 'r option" where
  "tab_find key k rs = List.find (\<lambda>r. key r = k) rs"

definition tab_unique :: "('r \<Rightarrow> 'k) \<Rightarrow> 'r list \<Rightarrow> bool" where
  "tab_unique key rs \<longleftrightarrow> distinct (map key rs)"

lemma tab_find_Nil [simp]: "tab_find key k [] = None"
  by (simp add: tab_find_def)

lemma tab_find_Cons [simp]:
  "tab_find key k (r # rs) = (if key r = k then Some r else tab_find key k rs)"
  by (simp add: tab_find_def)

lemma tab_unique_Nil [simp]: "tab_unique key []"
  by (simp add: tab_unique_def)

lemma tab_unique_Cons [simp]:
  "tab_unique key (r # rs) \<longleftrightarrow> key r \<notin> key ` set rs \<and> tab_unique key rs"
  by (simp add: tab_unique_def)

lemma tab_find_SomeD: "tab_find key k rs = Some r \<Longrightarrow> r \<in> set rs \<and> key r = k"
  by (induction rs) (auto split: if_splits)

lemma tab_find_None_iff: "tab_find key k rs = None \<longleftrightarrow> k \<notin> key ` set rs"
  by (induction rs) auto

lemma tab_find_unique:
  "tab_unique key rs \<Longrightarrow> r \<in> set rs \<Longrightarrow> tab_find key (key r) rs = Some r"
  by (induction rs) (auto simp: rev_image_eqI)

lemma tab_find_iff:
  "tab_unique key rs \<Longrightarrow> tab_find key k rs = Some r \<longleftrightarrow> r \<in> set rs \<and> key r = k"
  by (auto dest: tab_find_SomeD intro: tab_find_unique)

lemma tab_find_append:
  "tab_find key k (rs @ qs) = (case tab_find key k rs of None \<Rightarrow> tab_find key k qs | Some r \<Rightarrow> Some r)"
  by (induction rs) auto

lemma tab_unique_append:
  "tab_unique key (rs @ qs) \<longleftrightarrow>
     tab_unique key rs \<and> tab_unique key qs \<and> key ` set rs \<inter> key ` set qs = {}"
  by (induction rs) auto

lemma tab_unique_filter: "tab_unique key rs \<Longrightarrow> tab_unique key (filter P rs)"
  by (induction rs) auto

lemma tab_find_filter:
  "tab_unique key rs \<Longrightarrow>
   tab_find key k (filter P rs) =
     (case tab_find key k rs of None \<Rightarrow> None | Some r \<Rightarrow> if P r then Some r else None)"
proof (induction rs)
  case (Cons r rs)
  then have "key r = k \<Longrightarrow> tab_find key k rs = None"
    by (auto simp: tab_find_None_iff)
  with Cons show ?case by auto
qed simp

lemma tab_unique_map:
  "(\<And>r. r \<in> set rs \<Longrightarrow> key (f r) = key r) \<Longrightarrow> tab_unique key (map f rs) = tab_unique key rs"
  by (induction rs) (auto simp: image_image)

lemma tab_find_map:
  "(\<And>r. r \<in> set rs \<Longrightarrow> key (f r) = key r) \<Longrightarrow>
   tab_find key k (map f rs) = map_option f (tab_find key k rs)"
  by (induction rs) auto

text \<open>How many rows an \<^verbatim>\<open>UPDATE ... WHERE\<close> on the key and a further condition touches.\<close>

lemma tab_affected_le_1:
  "tab_unique key rs \<Longrightarrow> length (filter (\<lambda>r. key r = k \<and> P r) rs) \<le> 1"
proof (induction rs)
  case (Cons r rs)
  then show ?case
    by (cases "key r = k") (auto simp: filter_empty_conv image_iff)
qed simp

lemma tab_affected_iff:
  assumes "tab_unique key rs"
  shows "length (filter (\<lambda>r. key r = k \<and> P r) rs) = 1 \<longleftrightarrow>
    (\<exists>r. tab_find key k rs = Some r \<and> P r)"
proof -
  have "(\<exists>r. tab_find key k rs = Some r \<and> P r) \<longleftrightarrow>
      length (filter (\<lambda>r. key r = k \<and> P r) rs) \<noteq> 0"
    using assms by (auto simp: filter_empty_conv tab_find_iff)
  moreover have "n \<le> 1 \<Longrightarrow> n = 1 \<longleftrightarrow> n \<noteq> 0" for n :: nat
    by (cases n) auto
  ultimately show ?thesis
    using tab_affected_le_1 [OF assms, of k P] by blast
qed

end
