(* ===== verification/Ledger.thy ===== *)
theory Ledger
  imports Prelude
begin

text \<open>
  The durable command ledger, \<^verbatim>\<open>src/internal/ledger/ledger.go\<close>.

  The SQLite database is a table of rows (one per command, keyed by the caller's
  UID and the command ID) with its \<^verbatim>\<open>user_version\<close> and the names of its columns;
  every SQL statement of the source is a function on the list of rows. The ledger
  object adds the admission gate \<^verbatim>\<open>blocked\<close>. Each method takes a \<open>db_env\<close>: the
  clock readings of the call and what the database reports at each of its fallible
  steps, so a theorem about a method holds under every pattern of failures. A failed
  commit leaves the transaction either rolled back or applied, because an error
  return does not tell the caller which.
\<close>

section \<open>Constants, errors and statuses\<close>

definition SchemaVersion :: int where
  "SchemaVersion = 3"

text \<open>\<^verbatim>\<open>Retention = 30 * 24 * time.Hour\<close>, in seconds as stored in \<^verbatim>\<open>expires_at\<close>.\<close>

definition Retention :: int where
  "Retention = 30 * 24 * 3600"

datatype ledger_error =
    ErrUnsupportedSchema
  | ErrIntegrityCheck
  | ErrPersistenceFailed
  | ErrAdmissionBlocked
  | ErrCommandIDConflict
  | ErrInvalidTransition
  | ErrCommandNotFound
  | ErrContextDone \<comment> \<open>a wrapped \<^verbatim>\<open>context.Canceled\<close> or \<^verbatim>\<open>context.DeadlineExceeded\<close>\<close>
  | ErrStorage \<comment> \<open>any other wrapped I/O or SQL error\<close>

datatype status =
    StatusAuthorizationPending
  | StatusAuthorizationUncertain
  | StatusAuthorizationFailed
  | StatusAccepted
  | StatusRunning
  | StatusSucceeded
  | StatusFailed
  | StatusDenied
  | StatusUnknown

section \<open>Claims, records, rows\<close>

record claim =
  cCallerUID :: uint32
  cCommandID :: string
  cRequestFingerprint :: bytes
  cRequestPayload :: bytes
  cRequestingUsername :: string
  cRequestingGID :: uint32
  cRequestMessageID :: string
  cServiceUID :: uint32
  cServiceUsername :: string
  cResource :: string
  cCommand :: string
  cOperationID :: string
  cRequiredCapability :: string
  cTargetNode :: string

record lrecord =
  rCallerUID :: uint32
  rCommandID :: string
  rRequestFingerprint :: bytes
  rRequestPayload :: bytes
  rRequestingUsername :: string
  rRequestingGID :: uint32
  rRequestMessageID :: string
  rServiceUID :: uint32
  rServiceUsername :: string
  rResource :: string
  rCommand :: string
  rOperationID :: string
  rRequiredCapability :: string
  rTargetNode :: string
  rStatus :: status
  rAdminLevel :: string
  rAuthorizationMetadata :: "bytes option"
  rExecutionUID :: "uint32 option"
  rExecutionUsername :: string
  rExecutionBoundary :: string
  rResultPayload :: "bytes option"
  rErrorPayload :: "bytes option"
  rCreatedAt :: int
  rUpdatedAt :: int
  rExpiresAt :: int

record transition_data =
  tAdminLevel :: string
  tAuthorizationMetadata :: "bytes option"
  tExecutionUID :: "uint32 option"
  tExecutionUsername :: string
  tExecutionBoundary :: string
  tResultPayload :: "bytes option"
  tErrorPayload :: "bytes option"

definition no_data :: transition_data where
  "no_data = \<lparr>tAdminLevel = [], tAuthorizationMetadata = None, tExecutionUID = None,
     tExecutionUsername = [], tExecutionBoundary = [], tResultPayload = None, tErrorPayload = None\<rparr>"

text \<open>A row of the table \<^verbatim>\<open>commands\<close>; a nullable column is an option.\<close>

record row =
  caller_uid :: uint32
  command_id :: string
  request_fingerprint :: bytes
  request_payload :: bytes
  requesting_username :: string
  resource :: string
  row_command :: string
  operation_id :: string
  required_capability :: string
  target_node :: string
  status :: status
  admin_level :: "string option"
  authorization_metadata :: "bytes option"
  execution_uid :: "uint32 option"
  execution_username :: "string option"
  execution_boundary :: "string option"
  result_payload :: "bytes option"
  error_payload :: "bytes option"
  created_at :: int
  updated_at :: int
  expires_at :: int
  requesting_gid :: uint32
  request_message_id :: string
  service_uid :: uint32
  service_username :: string

definition row_key :: "row \<Rightarrow> uint32 \<times> string" where
  "row_key r = (caller_uid r, command_id r)"

text \<open>The \<^verbatim>\<open>CHECK\<close> constraints of the table (the unsigned and enumerated columns satisfy theirs by type).\<close>

definition row_check :: "row \<Rightarrow> bool" where
  "row_check r \<longleftrightarrow>
     0 < length (command_id r) \<and> 0 < length (requesting_username r) \<and>
     resource r = ''node'' \<and> row_command r = ''update'' \<and>
     operation_id r \<in> {''node.drain'', ''node.resume''} \<and>
     required_capability r \<in> {''nodes.drain'', ''nodes.resume''} \<and>
     0 < length (target_node r)"

record db =
  user_version :: int
  columns :: "string list" \<comment> \<open>of the table \<^verbatim>\<open>commands\<close>; none while the table does not exist\<close>
  rows :: "row list"

record ledger =
  ldb :: db
  lpath :: string
  has_db :: bool \<comment> \<open>\<^verbatim>\<open>l.db\<close> is not nil\<close>
  blocked :: bool

section \<open>What the environment decides\<close>

datatype db_point =
    PBegin | PDelete | PInsert | PRows | PSelect | PUpdate | PCheckpoint | PCount

datatype commit_outcome = Committed | CommitRolledBack | CommitAppliedWithError

datatype query_outcome = QueryOk | QueryContextDone | QueryFailed

record db_env =
  env_now :: int \<comment> \<open>\<^verbatim>\<open>time.Now().UTC().Unix()\<close>\<close>
  env_later :: int \<comment> \<open>the clock at the second reading of the same call\<close>
  env_fault :: "db_point \<Rightarrow> bool"
  env_commit :: commit_outcome
  env_query :: query_outcome \<comment> \<open>of the \<^verbatim>\<open>SELECT\<close> in \<^verbatim>\<open>Lookup\<close>\<close>
  env_integrity :: "string list option" \<comment> \<open>rows of \<^verbatim>\<open>PRAGMA integrity_check\<close>, None on a query error\<close>
  env_busy :: int \<comment> \<open>first column of \<^verbatim>\<open>PRAGMA wal_checkpoint(FULL)\<close>\<close>

section \<open>The SQL statements\<close>

definition sql_select :: "uint32 \<Rightarrow> string \<Rightarrow> row list \<Rightarrow> row option" where
  "sql_select uid cid rs = tab_find row_key (uid, cid) rs"

text \<open>\<^verbatim>\<open>DELETE FROM commands WHERE expires_at <= ?\<close>\<close>

definition sql_delete_expired :: "int \<Rightarrow> row list \<Rightarrow> row list" where
  "sql_delete_expired now rs = filter (\<lambda>r. \<not> expires_at r \<le> now) rs"

text \<open>
  \<^verbatim>\<open>INSERT ... ON CONFLICT (caller_uid, command_id) DO NOTHING\<close>: the new rows and the
  number of rows inserted, None when a constraint refuses the row.
\<close>

definition sql_insert :: "row \<Rightarrow> row list \<Rightarrow> (row list \<times> nat) option" where
  "sql_insert r rs =
     (if \<not> row_check r then None
      else if row_key r \<in> set (map row_key rs) then Some (rs, 0)
      else Some (rs @ [r], 1))"

text \<open>\<^verbatim>\<open>UPDATE ... WHERE\<close>: the new rows and the number of rows touched.\<close>

definition sql_update :: "(row \<Rightarrow> bool) \<Rightarrow> (row \<Rightarrow> row) \<Rightarrow> row list \<Rightarrow> row list \<times> nat" where
  "sql_update P f rs = (map (\<lambda>r. if P r then f r else r) rs, length (filter P rs))"

text \<open>\<^verbatim>\<open>COALESCE(NULLIF(?, ''), column)\<close> and \<^verbatim>\<open>COALESCE(?, column)\<close>.\<close>

definition coalesce_text :: "string \<Rightarrow> string option \<Rightarrow> string option" where
  "coalesce_text v old = (if v = [] then old else Some v)"

definition coalesce :: "'a option \<Rightarrow> 'a option \<Rightarrow> 'a option" where
  "coalesce v old = (case v of None \<Rightarrow> old | Some x \<Rightarrow> Some x)"

section \<open>Guards\<close>

definition validateClaim :: "claim \<Rightarrow> ledger_error option" where
  "validateClaim c =
     (if cCommandID c = [] \<or> cRequestingUsername c = [] \<or> cRequestMessageID c = [] \<or>
         cServiceUsername c = [] \<or> length (cRequestFingerprint c) = 0 \<or>
         length (cRequestPayload c) = 0 \<or> cTargetNode c = []
      then Some ErrInvalidTransition
      else if cResource c \<noteq> ''node'' \<or> cCommand c \<noteq> ''update''
      then Some ErrInvalidTransition
      else if (cOperationID c \<noteq> ''node.drain'' \<or> cRequiredCapability c \<noteq> ''nodes.drain'') \<and>
              (cOperationID c \<noteq> ''node.resume'' \<or> cRequiredCapability c \<noteq> ''nodes.resume'')
      then Some ErrInvalidTransition
      else None)"

fun allowedTransition :: "status \<Rightarrow> status \<Rightarrow> bool" where
  "allowedTransition StatusAuthorizationPending nxt \<longleftrightarrow>
     nxt = StatusAccepted \<or> nxt = StatusDenied \<or> nxt = StatusAuthorizationFailed \<or>
     nxt = StatusAuthorizationUncertain"
| "allowedTransition StatusAccepted nxt \<longleftrightarrow>
     nxt = StatusRunning \<or> nxt = StatusAuthorizationUncertain"
| "allowedTransition StatusRunning nxt \<longleftrightarrow>
     nxt = StatusSucceeded \<or> nxt = StatusFailed \<or> nxt = StatusUnknown"
| "allowedTransition _ _ \<longleftrightarrow> False"

text \<open>The metadata guards at the head of \<^verbatim>\<open>Transition\<close>.\<close>

definition transition_guard :: "status \<Rightarrow> status \<Rightarrow> transition_data \<Rightarrow> bool" where
  "transition_guard expected nxt d \<longleftrightarrow>
     allowedTransition expected nxt \<and>
     \<not> (nxt = StatusAccepted \<and> (tAdminLevel d \<noteq> ''admin'' \<or> blen (tAuthorizationMetadata d) = 0)) \<and>
     \<not> (nxt = StatusRunning \<and>
        (tExecutionUID d = None \<or> tExecutionUsername d = [] \<or> tExecutionBoundary d = [])) \<and>
     \<not> ((nxt = StatusDenied \<or> nxt = StatusAuthorizationFailed) \<and> blen (tErrorPayload d) = 0)"

section \<open>Rows in and out\<close>

definition row_of_claim :: "int \<Rightarrow> claim \<Rightarrow> row" where
  "row_of_claim now c =
     \<lparr>caller_uid = cCallerUID c, command_id = cCommandID c,
      request_fingerprint = cRequestFingerprint c, request_payload = cRequestPayload c,
      requesting_username = cRequestingUsername c,
      resource = cResource c, row_command = cCommand c, operation_id = cOperationID c,
      required_capability = cRequiredCapability c, target_node = cTargetNode c,
      status = StatusAuthorizationPending,
      admin_level = None, authorization_metadata = None, execution_uid = None,
      execution_username = None, execution_boundary = None,
      result_payload = None, error_payload = None,
      created_at = now, updated_at = now, expires_at = now + Retention,
      requesting_gid = cRequestingGID c, request_message_id = cRequestMessageID c,
      service_uid = cServiceUID c, service_username = cServiceUsername c\<rparr>"

text \<open>\<^verbatim>\<open>sql.NullString.String\<close> is empty for \<^verbatim>\<open>NULL\<close>.\<close>

definition null_string :: "string option \<Rightarrow> string" where
  "null_string v = (case v of None \<Rightarrow> [] | Some s \<Rightarrow> s)"

definition scanRecord :: "row \<Rightarrow> lrecord" where
  "scanRecord r =
     \<lparr>rCallerUID = caller_uid r, rCommandID = command_id r,
      rRequestFingerprint = request_fingerprint r, rRequestPayload = request_payload r,
      rRequestingUsername = requesting_username r, rRequestingGID = requesting_gid r,
      rRequestMessageID = request_message_id r,
      rServiceUID = service_uid r, rServiceUsername = service_username r,
      rResource = resource r, rCommand = row_command r, rOperationID = operation_id r,
      rRequiredCapability = required_capability r, rTargetNode = target_node r,
      rStatus = status r, rAdminLevel = null_string (admin_level r),
      rAuthorizationMetadata = authorization_metadata r,
      rExecutionUID = execution_uid r,
      rExecutionUsername = null_string (execution_username r),
      rExecutionBoundary = null_string (execution_boundary r),
      rResultPayload = result_payload r, rErrorPayload = error_payload r,
      rCreatedAt = created_at r, rUpdatedAt = updated_at r, rExpiresAt = expires_at r\<rparr>"

definition selectRecord :: "uint32 \<Rightarrow> string \<Rightarrow> row list \<Rightarrow> lrecord option" where
  "selectRecord uid cid rs = map_option scanRecord (sql_select uid cid rs)"

definition transition_row :: "int \<Rightarrow> status \<Rightarrow> transition_data \<Rightarrow> row \<Rightarrow> row" where
  "transition_row now nxt d r =
     r\<lparr>status := nxt, updated_at := now,
       admin_level := coalesce_text (tAdminLevel d) (admin_level r),
       authorization_metadata := coalesce (tAuthorizationMetadata d) (authorization_metadata r),
       execution_uid := coalesce (tExecutionUID d) (execution_uid r),
       execution_username := coalesce_text (tExecutionUsername d) (execution_username r),
       execution_boundary := coalesce_text (tExecutionBoundary d) (execution_boundary r),
       result_payload := coalesce (tResultPayload d) (result_payload r),
       error_payload := coalesce (tErrorPayload d) (error_payload r)\<rparr>"

section \<open>The gate\<close>

definition isBlocked :: "ledger \<Rightarrow> bool" where
  "isBlocked l = blocked l"

text \<open>\<^verbatim>\<open>AdmissionBlocked\<close> answers true for a nil ledger.\<close>

definition AdmissionBlocked :: "ledger option \<Rightarrow> bool" where
  "AdmissionBlocked l = (case l of None \<Rightarrow> True | Some l' \<Rightarrow> blocked l')"

text \<open>\<^verbatim>\<open>blockPersistence\<close> closes the gate and wraps \<^verbatim>\<open>ErrPersistenceFailed\<close>.\<close>

definition blockPersistence :: "ledger \<Rightarrow> ledger \<times> ledger_error" where
  "blockPersistence l = (l\<lparr>blocked := True\<rparr>, ErrPersistenceFailed)"

definition set_rows :: "row list \<Rightarrow> ledger \<Rightarrow> ledger" where
  "set_rows rs l = l\<lparr>ldb := (ldb l)\<lparr>rows := rs\<rparr>\<rparr>"

abbreviation ledger_rows :: "ledger \<Rightarrow> row list" where
  "ledger_rows l \<equiv> rows (ldb l)"

text \<open>
  \<^verbatim>\<open>commit\<close> of a transaction that would leave the rows \<open>rs\<close>: the rows that are durable
  afterwards and whether the call reported success.
\<close>

definition commit :: "db_env \<Rightarrow> row list \<Rightarrow> ledger \<Rightarrow> ledger \<times> bool" where
  "commit e rs l =
     (case env_commit e of
        Committed \<Rightarrow> (set_rows rs l, True)
      | CommitRolledBack \<Rightarrow> (l, False)
      | CommitAppliedWithError \<Rightarrow> (set_rows rs l, False))"

section \<open>The operations\<close>

definition Lookup :: "db_env \<Rightarrow> uint32 \<Rightarrow> string \<Rightarrow> ledger \<Rightarrow> ledger \<times> (ledger_error + lrecord option)" where
  "Lookup e uid cid l =
     (if \<not> has_db l then (l, Inl ErrPersistenceFailed)
      else case env_query e of
        QueryContextDone \<Rightarrow> (l, Inl ErrContextDone)
      | QueryFailed \<Rightarrow> (case blockPersistence l of (l', err) \<Rightarrow> (l', Inl err))
      | QueryOk \<Rightarrow>
          (case sql_select uid cid (ledger_rows l) of
             None \<Rightarrow> (l, Inr None)
           | Some r \<Rightarrow> if env_now e < expires_at r then (l, Inr (Some (scanRecord r)))
                       else (l, Inr None)))"

definition ReserveAuthorization ::
  "db_env \<Rightarrow> claim \<Rightarrow> ledger \<Rightarrow> ledger \<times> (ledger_error + lrecord \<times> bool)" where
  "ReserveAuthorization e c l =
     (let fail = (\<lambda>l. case blockPersistence l of (l', err) \<Rightarrow> (l', Inl err)) in
      case validateClaim c of
        Some err \<Rightarrow> (l, Inl err)
      | None \<Rightarrow>
          if isBlocked l then (l, Inl ErrAdmissionBlocked)
          else if env_fault e PBegin then fail l
          else if env_fault e PDelete then fail l
          else if env_fault e PInsert then fail l
          else
            (case sql_insert (row_of_claim (env_now e) c)
                    (sql_delete_expired (env_now e) (ledger_rows l)) of
               None \<Rightarrow> fail l
             | Some (rs, n) \<Rightarrow>
                 if env_fault e PRows then fail l
                 else
                   (let created = (n = 1) in
                    if env_fault e PSelect then fail l
                    else
                      (case selectRecord (cCallerUID c) (cCommandID c) rs of
                         None \<Rightarrow> fail l
                       | Some r \<Rightarrow>
                           if rRequestFingerprint r \<noteq> cRequestFingerprint c
                           then (l, Inl ErrCommandIDConflict)
                           else (case commit e rs l of (l', ok) \<Rightarrow>
                                   if ok then (l', Inr (r, created)) else fail l')))))"

definition purgeExpired :: "db_env \<Rightarrow> ledger \<Rightarrow> ledger \<times> ledger_error option" where
  "purgeExpired e l =
     (if env_fault e PDelete then (l, Some ErrStorage)
      else (set_rows (sql_delete_expired (env_now e) (ledger_rows l)) l, None))"

definition transitionConflict :: "db_env \<Rightarrow> uint32 \<Rightarrow> string \<Rightarrow> ledger \<Rightarrow> ledger \<times> ledger_error" where
  "transitionConflict e uid cid l =
     (case Lookup (e\<lparr>env_now := env_later e\<rparr>) uid cid l of
        (l', Inl _) \<Rightarrow> blockPersistence l'
      | (l', Inr None) \<Rightarrow> (l', ErrCommandNotFound)
      | (l', Inr (Some _)) \<Rightarrow> (l', ErrInvalidTransition))"

definition Transition ::
  "db_env \<Rightarrow> uint32 \<Rightarrow> string \<Rightarrow> status \<Rightarrow> status \<Rightarrow> transition_data \<Rightarrow> ledger \<Rightarrow>
   ledger \<times> ledger_error option" where
  "Transition e uid cid expected nxt d l =
     (let fail = (\<lambda>l. case blockPersistence l of (l', err) \<Rightarrow> (l', Some err)) in
      if \<not> transition_guard expected nxt d then (l, Some ErrInvalidTransition)
      else if isBlocked l then (l, Some ErrAdmissionBlocked)
      else if env_fault e PBegin then fail l
      else if env_fault e PUpdate then fail l
      else
        (case sql_update (\<lambda>r. row_key r = (uid, cid) \<and> status r = expected)
                (transition_row (env_now e) nxt d) (ledger_rows l) of
           (rs, n) \<Rightarrow>
             if env_fault e PRows then fail l
             else if n \<noteq> 1 then
               (case transitionConflict e uid cid l of (l', err) \<Rightarrow> (l', Some err))
             else (case commit e rs l of (l', ok) \<Rightarrow> if ok then (l', None) else fail l')))"

section \<open>Recovery\<close>

fun recover_status :: "status \<Rightarrow> status" where
  "recover_status StatusAuthorizationPending = StatusAuthorizationUncertain"
| "recover_status StatusAccepted = StatusAuthorizationUncertain"
| "recover_status StatusRunning = StatusUnknown"
| "recover_status s = s"

definition interrupted :: "status \<Rightarrow> bool" where
  "interrupted s \<longleftrightarrow> s \<in> {StatusAuthorizationPending, StatusAccepted, StatusRunning}"

definition recoverInterrupted :: "db_env \<Rightarrow> ledger \<Rightarrow> ledger \<times> ledger_error option" where
  "recoverInterrupted e l =
     (if env_fault e PUpdate then (l, Some ErrStorage)
      else (set_rows
              (fst (sql_update (\<lambda>r. interrupted (status r))
                     (\<lambda>r. r\<lparr>status := recover_status (status r), updated_at := env_now e\<rparr>)
                     (ledger_rows l))) l, None))"

text \<open>
  The loop of \<^verbatim>\<open>integrityCheck\<close> over the result rows: the first row that is not
  \<^verbatim>\<open>ok\<close> is an error, and so is an empty result.
\<close>

fun integrity_rows :: "nat \<Rightarrow> string list \<Rightarrow> ledger_error option" where
  "integrity_rows checks [] = (if checks = 0 then Some ErrIntegrityCheck else None)"
| "integrity_rows checks (x # xs) =
     (if x \<noteq> ''ok'' then Some ErrIntegrityCheck else integrity_rows (Suc checks) xs)"

definition integrityCheck :: "db_env \<Rightarrow> ledger_error option" where
  "integrityCheck e =
     (case env_integrity e of None \<Rightarrow> Some ErrStorage | Some rs \<Rightarrow> integrity_rows 0 rs)"

definition unresolved :: "row list \<Rightarrow> nat" where
  "unresolved rs = length (filter (\<lambda>r. interrupted (status r)) rs)"

definition Reconcile :: "db_env \<Rightarrow> ledger \<Rightarrow> ledger \<times> ledger_error option" where
  "Reconcile e l =
     (let fail = (\<lambda>l. case blockPersistence l of (l', err) \<Rightarrow> (l', Some err)) in
      if \<not> has_db l then (l, Some ErrPersistenceFailed)
      else if \<not> isBlocked l then (l, None)
      else case integrityCheck e of
        Some _ \<Rightarrow> fail l
      | None \<Rightarrow>
          (case recoverInterrupted e l of
             (l1, Some _) \<Rightarrow> fail l1
           | (l1, None) \<Rightarrow>
               if env_fault e PCheckpoint then fail l1
               else if env_busy e \<noteq> 0 then fail l1
               else if env_fault e PCount then fail l1
               else if unresolved (ledger_rows l1) \<noteq> 0 then fail l1
               else (l1\<lparr>blocked := False\<rparr>, None)))"

section \<open>Migration and opening\<close>

definition base_columns :: "string list" where
  "base_columns =
     [''caller_uid'', ''command_id'', ''request_fingerprint'', ''request_payload'',
      ''requesting_username'', ''resource'', ''command'', ''operation_id'',
      ''required_capability'', ''target_node'', ''status'', ''admin_level'',
      ''authorization_metadata'', ''execution_uid'', ''execution_username'',
      ''execution_boundary'', ''result_payload'', ''error_payload'',
      ''created_at'', ''updated_at'', ''expires_at'']"

text \<open>
  \<^verbatim>\<open>ALTER TABLE commands ADD COLUMN\<close> fails when the table does not exist or already
  has the column, and fills the column of the existing rows with its default.
\<close>

definition add_column :: "string \<Rightarrow> (row \<Rightarrow> row) \<Rightarrow> db \<Rightarrow> db option" where
  "add_column col dflt d =
     (if columns d = [] \<or> col \<in> set (columns d) then None
      else Some (d\<lparr>columns := columns d @ [col], rows := map dflt (rows d)\<rparr>))"

definition create_table :: "db \<Rightarrow> db option" where
  "create_table d = (if columns d \<noteq> [] then None else Some (d\<lparr>columns := base_columns, rows := []\<rparr>))"

definition ensureColumn :: "string \<Rightarrow> (row \<Rightarrow> row) \<Rightarrow> db \<Rightarrow> db option" where
  "ensureColumn col dflt d =
     (if col \<in> set (columns d) then Some d else add_column col dflt d)"

definition applyMigration :: "int \<Rightarrow> db \<Rightarrow> db option" where
  "applyMigration version d =
     (if version = 1 then create_table d
      else if version = 2 then
        Option.bind (add_column ''requesting_gid'' (\<lambda>r. r\<lparr>requesting_gid := 0\<rparr>) d) (\<lambda>d.
        Option.bind (add_column ''request_message_id'' (\<lambda>r. r\<lparr>request_message_id := []\<rparr>) d) (\<lambda>d.
        Option.bind (add_column ''service_uid'' (\<lambda>r. r\<lparr>service_uid := 0\<rparr>) d) (\<lambda>d.
        add_column ''service_username'' (\<lambda>r. r\<lparr>service_username := []\<rparr>) d)))
      else if version = 3 then
        Option.bind (ensureColumn ''service_uid'' (\<lambda>r. r\<lparr>service_uid := 0\<rparr>) d) (\<lambda>d.
        ensureColumn ''service_username'' (\<lambda>r. r\<lparr>service_username := []\<rparr>) d)
      else None)"

text \<open>
  The loop of \<^verbatim>\<open>migrate\<close>: each version is one transaction, so a failure keeps the
  versions already committed. \<open>fault v\<close> says that beginning, setting the version or
  committing the transaction of version \<open>v\<close> fails.
\<close>

function migrate_loop :: "(int \<Rightarrow> bool) \<Rightarrow> int \<Rightarrow> db \<Rightarrow> db \<times> ledger_error option" where
  "migrate_loop fault version d =
     (if version < SchemaVersion then
        (let nextVersion = version + 1 in
         if fault nextVersion then (d, Some ErrStorage)
         else case applyMigration nextVersion d of
           None \<Rightarrow> (d, Some ErrStorage)
         | Some d' \<Rightarrow> migrate_loop fault nextVersion (d'\<lparr>user_version := nextVersion\<rparr>))
      else (d, None))"
  by pat_completeness auto
termination
  by (relation "measure (\<lambda>(f, v, d). nat (SchemaVersion - v))") auto

declare migrate_loop.simps [simp del]

definition migrate :: "bool \<Rightarrow> (int \<Rightarrow> bool) \<Rightarrow> db \<Rightarrow> db \<times> ledger_error option" where
  "migrate read_fault fault d =
     (if read_fault then (d, Some ErrStorage)
      else if user_version d > SchemaVersion then (d, Some ErrUnsupportedSchema)
      else migrate_loop fault (user_version d) d)"

record open_env =
  oe_files :: bool \<comment> \<open>path resolution, directory, file creation and mode all succeed\<close>
  oe_connect :: bool \<comment> \<open>\<^verbatim>\<open>sql.Open\<close> succeeds\<close>
  oe_pragma_fault :: bool \<comment> \<open>a \<^verbatim>\<open>PRAGMA\<close> statement of \<^verbatim>\<open>configure\<close> fails\<close>
  oe_journal_mode :: string \<comment> \<open>what \<^verbatim>\<open>PRAGMA journal_mode = WAL\<close> answers\<close>
  oe_version_fault :: bool
  oe_migration_fault :: "int \<Rightarrow> bool"
  oe_recover :: db_env \<comment> \<open>for the integrity check and the recovery\<close>
  oe_purge :: db_env

definition configure :: "open_env \<Rightarrow> ledger_error option" where
  "configure oe =
     (if oe_pragma_fault oe then Some ErrStorage
      else if oe_journal_mode oe \<noteq> ''wal'' then Some ErrStorage
      else None)"

definition DefaultPath :: string where
  "DefaultPath = ''/var/lib/cockpit-slurm/commands.db''"

text \<open>
  \<^verbatim>\<open>Open\<close> on the database file \<open>d\<close>: the file afterwards and the ledger or the error.
  \<open>abs_path\<close> is \<^verbatim>\<open>filepath.Abs\<close>.
\<close>

definition Open :: "open_env \<Rightarrow> (string \<Rightarrow> string) \<Rightarrow> string \<Rightarrow> db \<Rightarrow> db \<times> (ledger_error + ledger)" where
  "Open oe abs_path path d =
     (let p = abs_path (if path = [] then DefaultPath else path) in
      if \<not> oe_files oe \<or> \<not> oe_connect oe then (d, Inl ErrStorage)
      else case configure oe of
        Some err \<Rightarrow> (d, Inl err)
      | None \<Rightarrow>
          (case migrate (oe_version_fault oe) (oe_migration_fault oe) d of
             (d1, Some err) \<Rightarrow> (d1, Inl err)
           | (d1, None) \<Rightarrow>
               let l = \<lparr>ldb = d1, lpath = p, has_db = True, blocked = False\<rparr> in
               (case integrityCheck (oe_recover oe) of
                  Some err \<Rightarrow> (d1, Inl err)
                | None \<Rightarrow>
                    (case recoverInterrupted (oe_recover oe) l of
                       (l1, Some err) \<Rightarrow> (ldb l1, Inl err)
                     | (l1, None) \<Rightarrow>
                         (case purgeExpired (oe_purge oe) l1 of
                            (l2, Some err) \<Rightarrow> (ldb l2, Inl err)
                          | (l2, None) \<Rightarrow> (ldb l2, Inr l2))))))"

definition Path :: "ledger option \<Rightarrow> string" where
  "Path l = (case l of None \<Rightarrow> [] | Some l' \<Rightarrow> lpath l')"

text \<open>\<^verbatim>\<open>Close\<close> of a nil ledger or of one without a database does nothing; otherwise the database reports.\<close>

definition Close_ledger :: "bool \<Rightarrow> ledger option \<Rightarrow> ledger_error option" where
  "Close_ledger close_fails l =
     (case l of None \<Rightarrow> None
      | Some l' \<Rightarrow> if \<not> has_db l' then None else if close_fails then Some ErrStorage else None)"

end
