(* ===== verification/Ledger_Props.thy ===== *)
theory Ledger_Props
  imports Ledger
begin

text \<open>
  Properties of the command ledger: the outcomes of each operation under every
  failure pattern, the invariant of the table, the life cycle of a record across
  operations, crashes and restarts, the admission gate, recovery and migration.
\<close>

section \<open>Statuses\<close>

lemma interrupted_simps [simp]:
  "interrupted StatusAuthorizationPending" "interrupted StatusAccepted" "interrupted StatusRunning"
  "\<not> interrupted StatusAuthorizationUncertain" "\<not> interrupted StatusAuthorizationFailed"
  "\<not> interrupted StatusSucceeded" "\<not> interrupted StatusFailed" "\<not> interrupted StatusDenied"
  "\<not> interrupted StatusUnknown"
  by (simp_all add: interrupted_def)

lemma allowed_from_interrupted: "allowedTransition s t \<Longrightarrow> interrupted s"
  by (cases s) auto

lemma recover_allowed: "interrupted s \<Longrightarrow> allowedTransition s (recover_status s)"
  by (cases s) auto

lemma recover_not_interrupted [simp]: "\<not> interrupted (recover_status s)"
  by (cases s) auto

lemma recover_id: "\<not> interrupted s \<Longrightarrow> recover_status s = s"
  by (cases s) auto

lemma allowed_never_back: "allowedTransition s t \<Longrightarrow> t \<noteq> StatusAuthorizationPending"
  by (cases s) auto

lemma allowed_rtranclp_terminal:
  "allowedTransition\<^sup>*\<^sup>* s t \<Longrightarrow> \<not> interrupted s \<Longrightarrow> t = s"
  by (induction rule: converse_rtranclp_induct) (auto dest: allowed_from_interrupted)

section \<open>Rows\<close>

lemma row_key_updates [simp]:
  "row_key (transition_row now nxt d r) = row_key r"
  "row_key (r\<lparr>status := s\<rparr>) = row_key r"
  "row_key (r\<lparr>updated_at := t\<rparr>) = row_key r"
  "row_key (r\<lparr>requesting_gid := g\<rparr>) = row_key r"
  "row_key (r\<lparr>request_message_id := m\<rparr>) = row_key r"
  "row_key (r\<lparr>service_uid := u\<rparr>) = row_key r"
  "row_key (r\<lparr>service_username := n\<rparr>) = row_key r"
  by (simp_all add: row_key_def transition_row_def)

lemma row_key_of_claim [simp]: "row_key (row_of_claim now c) = (cCallerUID c, cCommandID c)"
  by (simp add: row_key_def row_of_claim_def)

lemma row_of_claim_simps [simp]:
  "status (row_of_claim now c) = StatusAuthorizationPending"
  "expires_at (row_of_claim now c) = now + Retention"
  "request_fingerprint (row_of_claim now c) = cRequestFingerprint c"
  by (simp_all add: row_of_claim_def)

lemma set_rows_simps [simp]:
  "rows (ldb (set_rows rs l)) = rs" "blocked (set_rows rs l) = blocked l"
  "has_db (set_rows rs l) = has_db l" "lpath (set_rows rs l) = lpath l"
  "columns (ldb (set_rows rs l)) = columns (ldb l)"
  "user_version (ldb (set_rows rs l)) = user_version (ldb l)"
  by (simp_all add: set_rows_def)

text \<open>The part of a row that no operation of the ledger rewrites.\<close>

definition same_claim :: "row \<Rightarrow> row \<Rightarrow> bool" where
  "same_claim r r' \<longleftrightarrow>
     row_key r' = row_key r \<and> request_fingerprint r' = request_fingerprint r \<and>
     request_payload r' = request_payload r \<and> requesting_username r' = requesting_username r \<and>
     resource r' = resource r \<and> row_command r' = row_command r \<and>
     operation_id r' = operation_id r \<and> required_capability r' = required_capability r \<and>
     target_node r' = target_node r \<and> created_at r' = created_at r \<and> expires_at r' = expires_at r"

lemma same_claim_refl [simp]: "same_claim r r"
  by (simp add: same_claim_def)

lemma same_claim_trans: "same_claim a b \<Longrightarrow> same_claim b c \<Longrightarrow> same_claim a c"
  by (simp add: same_claim_def)

lemma same_claim_transition [simp]: "same_claim r (transition_row now nxt d r)"
  by (simp add: same_claim_def transition_row_def row_key_def)

lemma same_claim_status [simp]: "same_claim r (r\<lparr>status := s, updated_at := t\<rparr>)"
  by (simp add: same_claim_def row_key_def)

section \<open>The invariant\<close>

text \<open>
  What the guards of \<^const>\<open>Transition\<close> and \<^const>\<open>validateClaim\<close> keep true of every row: the
  checks of the schema, the retention window, and the metadata each status requires.
\<close>

definition row_ok :: "row \<Rightarrow> bool" where
  "row_ok r \<longleftrightarrow>
     row_check r \<and> expires_at r = created_at r + Retention \<and>
     (status r \<in> {StatusAccepted, StatusRunning, StatusSucceeded, StatusFailed, StatusUnknown} \<longrightarrow>
        admin_level r \<noteq> None \<and> authorization_metadata r \<noteq> None) \<and>
     (status r = StatusAccepted \<longrightarrow>
        admin_level r = Some ''admin'' \<and> blen (authorization_metadata r) \<noteq> 0) \<and>
     (status r \<in> {StatusRunning, StatusSucceeded, StatusFailed, StatusUnknown} \<longrightarrow>
        execution_uid r \<noteq> None \<and> execution_username r \<noteq> None \<and> execution_boundary r \<noteq> None) \<and>
     (status r \<in> {StatusDenied, StatusAuthorizationFailed} \<longrightarrow> blen (error_payload r) \<noteq> 0)"

definition rows_ok :: "row list \<Rightarrow> bool" where
  "rows_ok rs \<longleftrightarrow> tab_unique row_key rs \<and> (\<forall>r \<in> set rs. row_ok r)"

definition ledger_ok :: "ledger \<Rightarrow> bool" where
  "ledger_ok l \<longleftrightarrow> rows_ok (ledger_rows l)"

lemma ledger_ok_set_rows [simp]: "ledger_ok (set_rows rs l) = rows_ok rs"
  by (simp add: ledger_ok_def)

lemma ledger_ok_blocked [simp]: "ledger_ok (l\<lparr>blocked := b\<rparr>) = ledger_ok l"
  by (simp add: ledger_ok_def)

lemma rows_ok_unique: "rows_ok rs \<Longrightarrow> tab_unique row_key rs"
  by (simp add: rows_ok_def)

lemma ledger_ok_unique: "ledger_ok l \<Longrightarrow> tab_unique row_key (ledger_rows l)"
  by (simp add: ledger_ok_def rows_ok_def)

lemma row_check_of_claim: "validateClaim c = None \<Longrightarrow> row_check (row_of_claim now c)"
  by (auto simp: validateClaim_def row_check_def row_of_claim_def split: if_splits)

lemma row_ok_of_claim: "validateClaim c = None \<Longrightarrow> row_ok (row_of_claim now c)"
  using row_check_of_claim [of c now] by (simp add: row_ok_def) (simp add: row_of_claim_def)

lemma row_ok_transition:
  assumes "row_ok r" and "transition_guard (status r) nxt d"
  shows "row_ok (transition_row now nxt d r)"
proof -
  have "row_check (transition_row now nxt d r)"
    using assms(1) by (simp add: row_ok_def row_check_def transition_row_def)
  then show ?thesis
    using assms
    by (cases "status r"; cases nxt)
      (auto simp: row_ok_def transition_guard_def transition_row_def coalesce_def
        coalesce_text_def blen_0_iff split: option.splits)
qed

lemma row_ok_recover: "row_ok r \<Longrightarrow> row_ok (r\<lparr>status := recover_status (status r), updated_at := t\<rparr>)"
  by (cases "status r") (auto simp: row_ok_def row_check_def)

lemma rows_ok_delete: "rows_ok rs \<Longrightarrow> rows_ok (sql_delete_expired now rs)"
  by (auto simp: rows_ok_def sql_delete_expired_def tab_unique_filter)

lemma rows_ok_insert:
  "rows_ok rs \<Longrightarrow> row_ok r \<Longrightarrow> sql_insert r rs = Some (rs', n) \<Longrightarrow> rows_ok rs'"
  by (auto simp: rows_ok_def sql_insert_def tab_unique_append split: if_splits)

lemma rows_ok_update:
  assumes "rows_ok rs" and "\<And>r. P r \<Longrightarrow> row_key (f r) = row_key r"
    and "\<And>r. row_ok r \<Longrightarrow> P r \<Longrightarrow> row_ok (f r)"
  shows "rows_ok (fst (sql_update P f rs))"
  using assms by (auto simp: rows_ok_def sql_update_def tab_unique_map)

section \<open>Outcomes of the operations\<close>

lemma Reserve_outcome [consumes 1, case_names refused failed applied created_or_found]:
  assumes "ReserveAuthorization e c l = (l', res)"
  obtains (refused) err where "l' = l" and "res = Inl err"
      and "err \<in> {ErrInvalidTransition, ErrAdmissionBlocked, ErrCommandIDConflict}"
  | (failed) "l' = l\<lparr>blocked := True\<rparr>" and "res = Inl ErrPersistenceFailed" and "\<not> blocked l"
  | (applied) rs n r where "l' = (set_rows rs l)\<lparr>blocked := True\<rparr>"
      and "res = Inl ErrPersistenceFailed" and "\<not> blocked l" and "validateClaim c = None"
      and "sql_insert (row_of_claim (env_now e) c)
             (sql_delete_expired (env_now e) (ledger_rows l)) = Some (rs, n)"
      and "selectRecord (cCallerUID c) (cCommandID c) rs = Some r"
      and "rRequestFingerprint r = cRequestFingerprint c"
  | (created_or_found) rs n r where "l' = set_rows rs l"
      and "res = Inr (r, n = 1)" and "\<not> blocked l" and "validateClaim c = None"
      and "sql_insert (row_of_claim (env_now e) c)
             (sql_delete_expired (env_now e) (ledger_rows l)) = Some (rs, n)"
      and "selectRecord (cCallerUID c) (cCommandID c) rs = Some r"
      and "rRequestFingerprint r = cRequestFingerprint c"
  using assms
  unfolding ReserveAuthorization_def Let_def blockPersistence_def isBlocked_def commit_def
    validateClaim_def
  by (auto split: option.splits if_splits prod.splits commit_outcome.splits)

lemma Lookup_outcome [consumes 1, case_names unavailable cancelled failed answered]:
  assumes "Lookup e uid cid l = (l', res)"
  obtains (unavailable) "\<not> has_db l" and "l' = l" and "res = Inl ErrPersistenceFailed"
  | (cancelled) "l' = l" and "res = Inl ErrContextDone" and "has_db l"
  | (failed) "l' = l\<lparr>blocked := True\<rparr>" and "res = Inl ErrPersistenceFailed" and "has_db l"
  | (answered) "l' = l" and "has_db l"
      and "res = Inr (case sql_select uid cid (ledger_rows l) of None \<Rightarrow> None
             | Some r \<Rightarrow> if env_now e < expires_at r then Some (scanRecord r) else None)"
  using assms unfolding Lookup_def blockPersistence_def
  by (auto split: option.splits if_splits prod.splits query_outcome.splits)

lemma Transition_outcome [consumes 1, case_names refused conflict failed applied moved]:
  assumes "Transition e uid cid expected nxt d l = (l', res)"
  obtains (refused) err where "l' = l" and "res = Some err"
      and "err \<in> {ErrInvalidTransition, ErrAdmissionBlocked}"
  | (conflict) err where "l' = l" and "res = Some err" and "\<not> blocked l"
      and "err \<in> {ErrInvalidTransition, ErrCommandNotFound}"
      and "snd (sql_update (\<lambda>r. row_key r = (uid, cid) \<and> status r = expected)
             (transition_row (env_now e) nxt d) (ledger_rows l)) \<noteq> 1"
  | (failed) "l' = l\<lparr>blocked := True\<rparr>" and "res = Some ErrPersistenceFailed" and "\<not> blocked l"
  | (applied) rs where "l' = (set_rows rs l)\<lparr>blocked := True\<rparr>"
      and "res = Some ErrPersistenceFailed"
      and "\<not> blocked l" and "transition_guard expected nxt d"
      and "sql_update (\<lambda>r. row_key r = (uid, cid) \<and> status r = expected)
             (transition_row (env_now e) nxt d) (ledger_rows l) = (rs, 1)"
  | (moved) rs where "l' = set_rows rs l" and "res = None"
      and "\<not> blocked l" and "transition_guard expected nxt d"
      and "sql_update (\<lambda>r. row_key r = (uid, cid) \<and> status r = expected)
             (transition_row (env_now e) nxt d) (ledger_rows l) = (rs, 1)"
proof -
  consider "l' = l" "res = Some ErrInvalidTransition"
    | "l' = l" "res = Some ErrAdmissionBlocked"
    | "l' = l\<lparr>blocked := True\<rparr>" "res = Some ErrPersistenceFailed" "\<not> blocked l"
    | rs n where "n \<noteq> 1" "\<not> blocked l" "transition_guard expected nxt d"
        "sql_update (\<lambda>r. row_key r = (uid, cid) \<and> status r = expected)
             (transition_row (env_now e) nxt d) (ledger_rows l) = (rs, n)"
        "(l', res) = (case transitionConflict e uid cid l of (l', err) \<Rightarrow> (l', Some err))"
    | rs where "\<not> blocked l" "transition_guard expected nxt d"
        "sql_update (\<lambda>r. row_key r = (uid, cid) \<and> status r = expected)
             (transition_row (env_now e) nxt d) (ledger_rows l) = (rs, 1)"
        "(l', res) = (case commit e rs l of (l', ok) \<Rightarrow>
            if ok then (l', None) else (l'\<lparr>blocked := True\<rparr>, Some ErrPersistenceFailed))"
    using assms unfolding Transition_def Let_def blockPersistence_def isBlocked_def
    by (force split: if_splits prod.splits)
  then show thesis
  proof cases
    case 4
    then show thesis
      using conflict failed unfolding transitionConflict_def blockPersistence_def Lookup_def
      by (auto split: option.splits if_splits prod.splits query_outcome.splits)
  next
    case 5
    then show thesis
      using moved failed applied unfolding commit_def by (auto split: commit_outcome.splits)
  qed (use refused failed in auto)
qed


section \<open>Preservation of the invariant\<close>

lemma recover_rows_ok:
  "rows_ok rs \<Longrightarrow>
   rows_ok (fst (sql_update (\<lambda>r. interrupted (status r))
     (\<lambda>r. r\<lparr>status := recover_status (status r), updated_at := t\<rparr>) rs))"
  by (rule rows_ok_update) (auto intro: row_ok_recover)

lemma transition_rows_ok:
  assumes "rows_ok rs" and "transition_guard expected nxt d"
    and "sql_update (\<lambda>r. row_key r = k \<and> status r = expected) (transition_row now nxt d) rs = (rs', n)"
  shows "rows_ok rs'"
proof -
  have "rows_ok (fst (sql_update (\<lambda>r. row_key r = k \<and> status r = expected) (transition_row now nxt d) rs))"
    using assms(1,2) by (intro rows_ok_update) (auto intro: row_ok_transition)
  then show ?thesis using assms(3) by simp
qed

lemma Lookup_ok [inv_intro]: "Lookup e uid cid l = (l', res) \<Longrightarrow> ledger_ok l \<Longrightarrow> ledger_ok l'"
  by (erule Lookup_outcome) auto

lemma Reserve_ok [inv_intro]:
  "ReserveAuthorization e c l = (l', res) \<Longrightarrow> ledger_ok l \<Longrightarrow> ledger_ok l'"
  by (erule Reserve_outcome)
    (auto simp: ledger_ok_def [of l] dest: row_ok_of_claim intro: rows_ok_insert rows_ok_delete)

lemma Transition_ok [inv_intro]:
  "Transition e uid cid expected nxt d l = (l', res) \<Longrightarrow> ledger_ok l \<Longrightarrow> ledger_ok l'"
  by (erule Transition_outcome) (auto simp: ledger_ok_def [of l] intro: transition_rows_ok)

lemma recoverInterrupted_ok [inv_intro]:
  "recoverInterrupted e l = (l', res) \<Longrightarrow> ledger_ok l \<Longrightarrow> ledger_ok l'"
  by (auto simp: recoverInterrupted_def ledger_ok_def recover_rows_ok split: if_splits)

lemma purgeExpired_ok [inv_intro]:
  "purgeExpired e l = (l', res) \<Longrightarrow> ledger_ok l \<Longrightarrow> ledger_ok l'"
  by (auto simp: purgeExpired_def ledger_ok_def rows_ok_delete split: if_splits)

lemma Reconcile_outcome [consumes 1, case_names unavailable open_gate failed recovered]:
  assumes "Reconcile e l = (l', res)"
  obtains (unavailable) "\<not> has_db l" and "l' = l" and "res = Some ErrPersistenceFailed"
  | (open_gate) "\<not> blocked l" and "l' = l" and "res = None"
  | (failed) l1 where "has_db l" and "blocked l" and "l' = l1\<lparr>blocked := True\<rparr>"
      and "l1 = l \<or> recoverInterrupted e l = (l1, None)" and "res = Some ErrPersistenceFailed"
  | (recovered) l1 where "has_db l" and "blocked l" and "recoverInterrupted e l = (l1, None)"
      and "unresolved (ledger_rows l1) = 0" and "l' = l1\<lparr>blocked := False\<rparr>" and "res = None"
proof -
  have eq: "recoverInterrupted e l = (l1, Some x) \<Longrightarrow> l1 = l" for l1 x
    by (simp add: recoverInterrupted_def split: if_splits)
  obtain l1 r1 where rec: "recoverInterrupted e l = (l1, r1)"
    by fastforce
  note defs = Reconcile_def Let_def blockPersistence_def isBlocked_def
  consider "\<not> has_db l" | "has_db l" "\<not> blocked l"
    | x where "has_db l" "blocked l" "integrityCheck e = Some x"
    | x where "has_db l" "blocked l" "integrityCheck e = None" "r1 = Some x"
    | "has_db l" "blocked l" "integrityCheck e = None" "r1 = None"
    by blast
  then show thesis
  proof cases
    case 1
    with assms show thesis by (intro unavailable) (simp_all add: defs)
  next
    case 2
    with assms show thesis by (intro open_gate) (simp_all add: defs)
  next
    case 3
    with assms show thesis by (intro failed [of l]) (simp_all add: defs)
  next
    case 4
    with assms rec eq show thesis by (intro failed [of l1]) (simp_all add: defs)
  next
    case 5
    with assms rec have "(l', res) = (l1\<lparr>blocked := True\<rparr>, Some ErrPersistenceFailed) \<or>
        unresolved (ledger_rows l1) = 0 \<and> (l', res) = (l1\<lparr>blocked := False\<rparr>, None)"
      by (simp add: defs split: if_splits)
    with 5 rec failed [of l1] recovered [of l1] show thesis by auto
  qed
qed

lemma Reconcile_ok [inv_intro]: "Reconcile e l = (l', res) \<Longrightarrow> ledger_ok l \<Longrightarrow> ledger_ok l'"
  by (erule Reconcile_outcome) (auto intro: recoverInterrupted_ok)

section \<open>What each operation does to one record\<close>

abbreviation find_row :: "uint32 \<times> string \<Rightarrow> ledger \<Rightarrow> row option" where
  "find_row k l \<equiv> tab_find row_key k (ledger_rows l)"

lemma find_update:
  assumes "tab_unique row_key rs" and "\<And>r. P r \<Longrightarrow> row_key (f r) = row_key r"
  shows "tab_find row_key k (fst (sql_update P f rs)) =
    map_option (\<lambda>r. if P r then f r else r) (tab_find row_key k rs)"
  using assms by (simp add: sql_update_def tab_find_map)

lemma find_delete:
  "tab_unique row_key rs \<Longrightarrow>
   tab_find row_key k (sql_delete_expired now rs) =
     (case tab_find row_key k rs of None \<Rightarrow> None
      | Some r \<Rightarrow> if expires_at r \<le> now then None else Some r)"
  by (auto simp: sql_delete_expired_def tab_find_filter split: option.splits)

lemma find_insert:
  assumes "sql_insert r rs = Some (rs', n)"
  shows "tab_find row_key k rs' =
      (case tab_find row_key k rs of None \<Rightarrow> if row_key r = k then Some r else None | Some q \<Rightarrow> Some q)"
    and "n = 1 \<longleftrightarrow> tab_find row_key (row_key r) rs = None"
proof -
  have absent: "tab_find row_key (row_key r) rs = None \<longleftrightarrow> row_key r \<notin> set (map row_key rs)"
    by (simp add: tab_find_None_iff)
  then show "n = 1 \<longleftrightarrow> tab_find row_key (row_key r) rs = None"
    using assms by (auto simp: sql_insert_def split: if_splits)
  have "rs' = rs \<and> row_key r \<in> set (map row_key rs) \<or>
      rs' = rs @ [r] \<and> row_key r \<notin> set (map row_key rs)"
    using assms by (simp add: sql_insert_def split: if_splits)
  with absent show "tab_find row_key k rs' =
      (case tab_find row_key k rs of None \<Rightarrow> if row_key r = k then Some r else None | Some q \<Rightarrow> Some q)"
    by (auto simp: tab_find_append split: option.splits)
qed

lemma status_transition_row [simp]: "status (transition_row now nxt d r) = nxt"
  by (simp add: transition_row_def)

lemma transition_guardD: "transition_guard expected nxt d \<Longrightarrow> allowedTransition expected nxt"
  by (simp add: transition_guard_def)

text \<open>
  A record after a step: gone (its retention has passed at the clock of the step), untouched,
  or the same claim moved along one allowed edge.
\<close>

definition moved :: "row \<Rightarrow> row \<Rightarrow> bool" where
  "moved r r' \<longleftrightarrow> r' = r \<or> same_claim r r' \<and> allowedTransition (status r) (status r')"

lemma moved_refl [simp]: "moved r r"
  by (simp add: moved_def)

lemma Lookup_rows [frame]: "Lookup e uid cid l = (l', res) \<Longrightarrow> ledger_rows l' = ledger_rows l"
  by (erule Lookup_outcome) auto

lemma Transition_find:
  assumes "Transition e uid cid expected nxt d l = (l', res)" and "ledger_ok l"
    and "find_row k l = Some r"
  shows "\<exists>r'. find_row k l' = Some r' \<and> moved r r'"
proof -
  have moved_row: "moved r (if row_key r = (uid, cid) \<and> status r = expected
      then transition_row (env_now e) nxt d r else r)" if "transition_guard expected nxt d"
    using that by (auto simp: moved_def dest: transition_guardD)
  show ?thesis
    using assms(1)
  proof (cases rule: Transition_outcome)
    case (applied rs)
    with assms moved_row show ?thesis
      using find_update [OF ledger_ok_unique [OF assms(2)], of
          "\<lambda>r. row_key r = (uid, cid) \<and> status r = expected" "transition_row (env_now e) nxt d" k]
      by simp
  next
    case (moved rs)
    with assms moved_row show ?thesis
      using find_update [OF ledger_ok_unique [OF assms(2)], of
          "\<lambda>r. row_key r = (uid, cid) \<and> status r = expected" "transition_row (env_now e) nxt d" k]
      by simp
  qed (use assms(3) in auto)
qed

lemma Reserve_find:
  assumes "ReserveAuthorization e c l = (l', res)" and "ledger_ok l"
    and "find_row k l = Some r" and "env_now e < expires_at r"
  shows "find_row k l' = Some r"
  using assms(1)
proof (cases rule: Reserve_outcome)
  case (applied rs n r')
  with assms show ?thesis
    using find_insert(1) [OF applied(5), of k] find_delete [OF ledger_ok_unique [OF assms(2)]]
    by simp
next
  case (created_or_found rs n r')
  with assms show ?thesis
    using find_insert(1) [OF created_or_found(5), of k] find_delete [OF ledger_ok_unique [OF assms(2)]]
    by simp
qed (use assms(3) in auto)

lemma recover_find:
  assumes "recoverInterrupted e l = (l', res)" and "ledger_ok l" and "find_row k l = Some r"
  shows "\<exists>r'. find_row k l' = Some r' \<and> moved r r'"
proof (cases "env_fault e PUpdate")
  case True
  then show ?thesis using assms by (simp add: recoverInterrupted_def)
next
  case False
  then have "find_row k l' = Some (if interrupted (status r)
      then r\<lparr>status := recover_status (status r), updated_at := env_now e\<rparr> else r)"
    using assms find_update [OF ledger_ok_unique [OF assms(2)], of "\<lambda>r. interrupted (status r)"
        "\<lambda>r. r\<lparr>status := recover_status (status r), updated_at := env_now e\<rparr>" k]
    by (auto simp: recoverInterrupted_def)
  then show ?thesis by (auto simp: moved_def recover_allowed)
qed

lemma Reconcile_find:
  assumes "Reconcile e l = (l', res)" and "ledger_ok l" and "find_row k l = Some r"
  shows "\<exists>r'. find_row k l' = Some r' \<and> moved r r'"
  using assms(1)
proof (cases rule: Reconcile_outcome)
  case (failed l1)
  then show ?thesis using recover_find [OF _ assms(2,3)] assms(3) by force
next
  case (recovered l1)
  then show ?thesis using recover_find [OF _ assms(2,3)] by force
qed (use assms(3) in auto)

lemma purge_find:
  assumes "purgeExpired e l = (l', res)" and "ledger_ok l" and "find_row k l = Some r"
    and "env_now e < expires_at r"
  shows "find_row k l' = Some r"
  using assms find_delete [OF ledger_ok_unique [OF assms(2)], of k]
  by (auto simp: purgeExpired_def split: if_splits)


section \<open>Migration\<close>

lemma rows_ok_map:
  assumes "\<And>r. row_key (f r) = row_key r" and "\<And>r. row_ok r \<Longrightarrow> row_ok (f r)" and "rows_ok rs"
  shows "rows_ok (map f rs)"
  using assms by (auto simp: rows_ok_def tab_unique_map)

lemma row_ok_defaults [simp]:
  "row_ok (r\<lparr>requesting_gid := g\<rparr>) = row_ok r" "row_ok (r\<lparr>request_message_id := m\<rparr>) = row_ok r"
  "row_ok (r\<lparr>service_uid := u\<rparr>) = row_ok r" "row_ok (r\<lparr>service_username := n\<rparr>) = row_ok r"
  by (simp_all add: row_ok_def row_check_def)

lemma add_column_rows_ok:
  "add_column col f d = Some d' \<Longrightarrow> (\<And>r. row_key (f r) = row_key r) \<Longrightarrow>
   (\<And>r. row_ok r \<Longrightarrow> row_ok (f r)) \<Longrightarrow> rows_ok (rows d) \<Longrightarrow> rows_ok (rows d')"
  by (auto simp: add_column_def rows_ok_map split: if_splits)

lemma ensureColumn_rows_ok:
  "ensureColumn col f d = Some d' \<Longrightarrow> (\<And>r. row_key (f r) = row_key r) \<Longrightarrow>
   (\<And>r. row_ok r \<Longrightarrow> row_ok (f r)) \<Longrightarrow> rows_ok (rows d) \<Longrightarrow> rows_ok (rows d')"
  by (auto simp: ensureColumn_def intro: add_column_rows_ok split: if_splits)

lemma applyMigration_rows_ok:
  assumes "applyMigration v d = Some d'" and "rows_ok (rows d)"
  shows "rows_ok (rows d')"
proof -
  consider "v = 1" | "v = 2" | "v = 3" using assms(1) by (auto simp: applyMigration_def split: if_splits)
  then show ?thesis
  proof cases
    case 1
    then show ?thesis using assms by (auto simp: applyMigration_def create_table_def rows_ok_def split: if_splits)
  next
    case 2
    then show ?thesis using assms
      by (auto simp: applyMigration_def bind_eq_Some_conv dest!: add_column_rows_ok)
  next
    case 3
    then show ?thesis using assms
      by (auto simp: applyMigration_def bind_eq_Some_conv dest!: ensureColumn_rows_ok)
  qed
qed

lemma migrate_loop_ok:
  assumes "migrate_loop fault v d = (d', res)" and "rows_ok (rows d)"
  shows "rows_ok (rows d')"
  using assms
proof (induction fault v d arbitrary: d' res rule: migrate_loop.induct)
  case (1 fault v d)
  then show ?case
    by (subst (asm) (2) migrate_loop.simps)
      (auto simp: Let_def applyMigration_rows_ok split: if_splits option.splits)
qed

lemma migrate_loop_version:
  assumes "migrate_loop fault v d = (d', None)" and "v \<le> SchemaVersion" and "user_version d = v"
  shows "user_version d' = SchemaVersion"
  using assms
proof (induction fault v d arbitrary: d' rule: migrate_loop.induct)
  case (1 fault v d)
  show ?case
  proof (cases "v < SchemaVersion")
    case True
    with "1.prems"(1) obtain d1 where d1: "\<not> fault (v + 1)" "applyMigration (v + 1) d = Some d1"
        "migrate_loop fault (v + 1) (d1\<lparr>user_version := v + 1\<rparr>) = (d', None)"
      by (simp add: migrate_loop.simps [of fault v d] Let_def split: if_splits option.splits)
    from True have "v + 1 \<le> SchemaVersion" by simp
    with d1 show ?thesis by (intro "1.IH" [OF True refl d1]) simp_all
  next
    case False
    with "1.prems" show ?thesis by (simp add: migrate_loop.simps [of fault v d])
  qed
qed

lemma migrate_current:
  "user_version d = SchemaVersion \<Longrightarrow> migrate rf fault d = (d', res) \<Longrightarrow>
   d' = d \<and> (res = None \<longleftrightarrow> \<not> rf)"
  by (auto simp: migrate_def migrate_loop.simps split: if_splits)

lemma migrate_ok: "migrate rf fault d = (d', res) \<Longrightarrow> rows_ok (rows d) \<Longrightarrow> rows_ok (rows d')"
  by (auto simp: migrate_def intro: migrate_loop_ok split: if_splits)

lemma migrate_version: "migrate rf fault d = (d', None) \<Longrightarrow> user_version d' = SchemaVersion"
  by (auto simp: migrate_def intro: migrate_loop_version split: if_splits)

section \<open>Opening\<close>

lemma unresolved_recovered:
  "recoverInterrupted e l = (l', None) \<Longrightarrow> unresolved (ledger_rows l') = 0"
  by (auto simp: recoverInterrupted_def unresolved_def sql_update_def filter_empty_conv split: if_splits)

lemma unresolved_0_iff: "unresolved rs = 0 \<longleftrightarrow> (\<forall>r \<in> set rs. \<not> interrupted (status r))"
  by (auto simp: unresolved_def filter_empty_conv)

lemma Open_outcome [consumes 1, case_names failed opened]:
  assumes "Open oe abs_path path d = (d', res)"
  obtains (failed) err d1 l where "res = Inl err"
      and "d' = d \<or> migrate (oe_version_fault oe) (oe_migration_fault oe) d = (d1, None) \<and>
             recoverInterrupted (oe_recover oe)
               \<lparr>ldb = d1, lpath = abs_path (if path = [] then DefaultPath else path), has_db = True, blocked = False\<rparr>
               = (l, None) \<and> d' = ldb l \<or>
           (\<exists>x. migrate (oe_version_fault oe) (oe_migration_fault oe) d = (d', x))"
  | (opened) d1 l1 l2 where "res = Inr l2" and "d' = ldb l2"
      and "migrate (oe_version_fault oe) (oe_migration_fault oe) d = (d1, None)"
      and "recoverInterrupted (oe_recover oe)
             \<lparr>ldb = d1, lpath = abs_path (if path = [] then DefaultPath else path), has_db = True, blocked = False\<rparr>
             = (l1, None)"
      and "purgeExpired (oe_purge oe) l1 = (l2, None)"
proof -
  obtain d1 m where mig: "migrate (oe_version_fault oe) (oe_migration_fault oe) d = (d1, m)"
    by fastforce
  define l where "l = \<lparr>ldb = d1, lpath = abs_path (if path = [] then DefaultPath else path), has_db = True, blocked = False\<rparr>"
  obtain l1 r1 where rec: "recoverInterrupted (oe_recover oe) l = (l1, r1)"
    by fastforce
  obtain l2 p2 where pur: "purgeExpired (oe_purge oe) l1 = (l2, p2)"
    by fastforce
  have rec_id: "r1 \<noteq> None \<Longrightarrow> ldb l1 = d1"
    using rec by (auto simp: recoverInterrupted_def l_def split: if_splits)
  have pur_id: "p2 \<noteq> None \<Longrightarrow> l2 = l1"
    using pur by (auto simp: purgeExpired_def split: if_splits)
  have eq: "Open oe abs_path path d =
     (if \<not> oe_files oe \<or> \<not> oe_connect oe then (d, Inl ErrStorage)
      else case configure oe of Some err \<Rightarrow> (d, Inl err)
      | None \<Rightarrow> case m of Some err \<Rightarrow> (d1, Inl err)
        | None \<Rightarrow> case integrityCheck (oe_recover oe) of Some err \<Rightarrow> (d1, Inl err)
          | None \<Rightarrow> case r1 of Some err \<Rightarrow> (ldb l1, Inl err)
            | None \<Rightarrow> case p2 of Some err \<Rightarrow> (ldb l2, Inl err) | None \<Rightarrow> (ldb l2, Inr l2))"
    using mig rec pur unfolding Open_def Let_def l_def
    by (auto split: option.splits)
  consider "d' = d" "\<exists>err. res = Inl err" | "d' = d1" "\<exists>err. res = Inl err"
    | "m = None" "r1 = None" "d' = ldb l1" "\<exists>err. res = Inl err"
    | "m = None" "r1 = None" "p2 = None" "d' = ldb l2" "res = Inr l2"
    using assms eq rec_id pur_id by (auto split: if_splits option.splits)
  then show thesis
  proof cases
    case 3
    then show thesis using failed mig rec unfolding l_def by blast
  next
    case 4
    then show thesis using opened mig rec pur unfolding l_def by blast
  qed (use failed mig in blast)+
qed


section \<open>The daemon: operations, crashes, restarts\<close>

text \<open>
  The ledger as the rest of the daemon sees it: while the process is up the operations
  run one at a time (the writers hold \<^verbatim>\<open>writeMu\<close>, the database has one connection); a crash
  keeps only the database; a start runs \<^const>\<open>Open\<close>, which may fail. A step carries the
  clock reading against which it expires records.
\<close>

datatype daemon = Up ledger | Down db

inductive daemon_step :: "int \<Rightarrow> daemon \<Rightarrow> daemon \<Rightarrow> bool" where
  lookup: "Lookup e uid cid l = (l', res) \<Longrightarrow> daemon_step (env_now e) (Up l) (Up l')"
| reserve: "ReserveAuthorization e c l = (l', res') \<Longrightarrow> daemon_step (env_now e) (Up l) (Up l')"
| transition: "Transition e uid cid expected nxt d l = (l', err) \<Longrightarrow> daemon_step (env_now e) (Up l) (Up l')"
| reconcile: "Reconcile e l = (l', err) \<Longrightarrow> daemon_step (env_now e) (Up l) (Up l')"
| crash: "daemon_step t (Up l) (Down (ldb l))"
| start: "Open oe abs_path p d = (d', Inr l) \<Longrightarrow> daemon_step (env_now (oe_purge oe)) (Down d) (Up l)"
| start_failed: "Open oe abs_path p d = (d', Inl err') \<Longrightarrow> daemon_step (env_now (oe_purge oe)) (Down d) (Down d')"

inductive_cases daemon_step_UpE: "daemon_step t (Up l) s"
inductive_cases daemon_step_DownE: "daemon_step t (Down d) s"

text \<open>Runs whose clock stays at or below \<open>T\<close>.\<close>

inductive daemon_run :: "int \<Rightarrow> daemon \<Rightarrow> daemon \<Rightarrow> bool" for T where
  idle: "daemon_run T s s"
| step: "daemon_run T s s' \<Longrightarrow> daemon_step t s' s'' \<Longrightarrow> t \<le> T \<Longrightarrow> daemon_run T s s''"

fun daemon_db :: "daemon \<Rightarrow> db" where
  "daemon_db (Up l) = ldb l"
| "daemon_db (Down d) = d"

definition daemon_row :: "uint32 \<times> string \<Rightarrow> daemon \<Rightarrow> row option" where
  "daemon_row k s = tab_find row_key k (rows (daemon_db s))"

definition daemon_ok :: "daemon \<Rightarrow> bool" where
  "daemon_ok s \<longleftrightarrow> rows_ok (rows (daemon_db s))"

definition current_schema :: "daemon \<Rightarrow> bool" where
  "current_schema s \<longleftrightarrow> user_version (daemon_db s) = SchemaVersion"

text \<open>The database file before the first start.\<close>

definition empty_db :: db where
  "empty_db = \<lparr>user_version = 0, columns = [], rows = []\<rparr>"

lemma Open_rows_ok: "Open oe abs_path p d = (d', res) \<Longrightarrow> rows_ok (rows d) \<Longrightarrow> rows_ok (rows d')"
proof (erule Open_outcome)
  fix err d1 l
  assume "rows_ok (rows d)" and "d' = d \<or>
      migrate (oe_version_fault oe) (oe_migration_fault oe) d = (d1, None) \<and>
      recoverInterrupted (oe_recover oe)
        \<lparr>ldb = d1, lpath = abs_path (if p = [] then DefaultPath else p), has_db = True, blocked = False\<rparr>
        = (l, None) \<and> d' = ldb l \<or>
      (\<exists>x. migrate (oe_version_fault oe) (oe_migration_fault oe) d = (d', x))"
  then show "rows_ok (rows d')"
    using migrate_ok recoverInterrupted_ok by (fastforce simp: ledger_ok_def)
next
  fix d1 l1 l2
  assume "rows_ok (rows d)" and "migrate (oe_version_fault oe) (oe_migration_fault oe) d = (d1, None)"
    and "recoverInterrupted (oe_recover oe)
        \<lparr>ldb = d1, lpath = abs_path (if p = [] then DefaultPath else p), has_db = True, blocked = False\<rparr>
        = (l1, None)" and "purgeExpired (oe_purge oe) l1 = (l2, None)" and "d' = ldb l2"
  then show "rows_ok (rows d')"
    using migrate_ok recoverInterrupted_ok purgeExpired_ok by (fastforce simp: ledger_ok_def)
qed

lemma Open_db: "Open oe abs_path p d = (d', Inr l) \<Longrightarrow> d' = ldb l"
  by (erule Open_outcome) auto

lemma Open_ledger_ok: "Open oe abs_path p d = (d', Inr l) \<Longrightarrow> rows_ok (rows d) \<Longrightarrow> ledger_ok l"
  using Open_rows_ok Open_db by (fastforce simp: ledger_ok_def)

lemma daemon_step_ok: "daemon_step t s s' \<Longrightarrow> daemon_ok s \<Longrightarrow> daemon_ok s'"
  by (induction rule: daemon_step.induct)
    (auto simp: daemon_ok_def simp flip: ledger_ok_def dest: Open_rows_ok Open_ledger_ok intro: inv_intro)

lemma daemon_run_ok: "daemon_run T s s' \<Longrightarrow> daemon_ok s \<Longrightarrow> daemon_ok s'"
  by (induction rule: daemon_run.induct) (auto dest: daemon_step_ok)

lemma user_version_ops [frame]:
  "Lookup e uid cid l = (l', res) \<Longrightarrow> user_version (ldb l') = user_version (ldb l)"
  "ReserveAuthorization e c l = (l', res') \<Longrightarrow> user_version (ldb l') = user_version (ldb l)"
  "Transition e uid cid expected nxt d l = (l', err) \<Longrightarrow> user_version (ldb l') = user_version (ldb l)"
  "recoverInterrupted e l = (l', err) \<Longrightarrow> user_version (ldb l') = user_version (ldb l)"
  "purgeExpired e l = (l', err) \<Longrightarrow> user_version (ldb l') = user_version (ldb l)"
  "Reconcile e l = (l', err) \<Longrightarrow> user_version (ldb l') = user_version (ldb l)"
proof -
  show rec: "recoverInterrupted e l = (l', err) \<Longrightarrow> user_version (ldb l') = user_version (ldb l)" for l'
    by (auto simp: recoverInterrupted_def split: if_splits)
  show "purgeExpired e l = (l', err) \<Longrightarrow> user_version (ldb l') = user_version (ldb l)"
    by (auto simp: purgeExpired_def split: if_splits)
  show "Reconcile e l = (l', err) \<Longrightarrow> user_version (ldb l') = user_version (ldb l)"
    by (erule Reconcile_outcome) (auto simp: recoverInterrupted_def split: if_splits)
qed (auto elim: Lookup_outcome Reserve_outcome Transition_outcome)

lemma Open_current:
  assumes "Open oe abs_path p d = (d', res)" and "user_version d = SchemaVersion"
    and "rows_ok (rows d)" and "tab_find row_key k (rows d) = Some r"
    and "env_now (oe_purge oe) < expires_at r"
  shows "\<exists>r'. tab_find row_key k (rows d') = Some r' \<and> moved r r'"
    and "user_version d' = SchemaVersion"
proof -
  let ?l = "\<lambda>d1. \<lparr>ldb = d1, lpath = abs_path (if p = [] then DefaultPath else p), has_db = True, blocked = False\<rparr>"
  have rec: "\<exists>r'. tab_find row_key k (rows (ldb l1)) = Some r' \<and> moved r r' \<and> expires_at r' = expires_at r"
    if "recoverInterrupted (oe_recover oe) (?l d) = (l1, None)" for l1
    using recover_find [OF that, of k r] assms(3,4)
    by (fastforce simp: ledger_ok_def moved_def same_claim_def)
  show "\<exists>r'. tab_find row_key k (rows d') = Some r' \<and> moved r r'"
    using assms(1)
  proof (cases rule: Open_outcome)
    case (failed err d1 l)
    then show ?thesis using assms(2,4) rec migrate_current [OF assms(2)] by fastforce
  next
    case (opened d1 l1 l2)
    then have "d1 = d" using migrate_current [OF assms(2)] by blast
    with opened have l1: "recoverInterrupted (oe_recover oe) (?l d) = (l1, None)" by simp
    then have "ledger_ok l1" using recoverInterrupted_ok assms(3) by (fastforce simp: ledger_ok_def)
    then show ?thesis using rec [OF l1] opened purge_find assms(5) by metis
  qed
  show "user_version d' = SchemaVersion"
    using assms(1)
  proof (cases rule: Open_outcome)
    case (failed err d1 l)
    then show ?thesis using assms(2) migrate_current [OF assms(2)] user_version_ops(4) by fastforce
  next
    case (opened d1 l1 l2)
    then show ?thesis using migrate_version user_version_ops(4,5) by fastforce
  qed
qed


section \<open>Sample inputs\<close>

definition quiet_env :: "int \<Rightarrow> db_env" where
  "quiet_env now = \<lparr>env_now = now, env_later = now, env_fault = (\<lambda>_. False), env_commit = Committed,
     env_query = QueryOk, env_integrity = Some [''ok''], env_busy = 0\<rparr>"

lemma quiet_env_simps [simp]:
  "env_now (quiet_env t) = t" "env_fault (quiet_env t) p = False" "env_commit (quiet_env t) = Committed"
  "env_query (quiet_env t) = QueryOk" "env_integrity (quiet_env t) = Some [''ok'']"
  "env_busy (quiet_env t) = 0" "env_later (quiet_env t) = t"
  by (simp_all add: quiet_env_def)

definition quiet_open :: "int \<Rightarrow> open_env" where
  "quiet_open now = \<lparr>oe_files = True, oe_connect = True, oe_pragma_fault = False,
     oe_journal_mode = ''wal'', oe_version_fault = False, oe_migration_fault = (\<lambda>_. False),
     oe_recover = quiet_env now, oe_purge = quiet_env now\<rparr>"

definition sample_claim :: claim where
  "sample_claim = \<lparr>cCallerUID = 1008, cCommandID = ''cmd-1'', cRequestFingerprint = ''fp'',
     cRequestPayload = ''{}'', cRequestingUsername = ''alice'', cRequestingGID = 100,
     cRequestMessageID = ''MSG1'', cServiceUID = 201, cServiceUsername = ''cockpit-slurm'',
     cResource = ''node'', cCommand = ''update'', cOperationID = ''node.drain'',
     cRequiredCapability = ''nodes.drain'', cTargetNode = ''c21''\<rparr>"

definition sample_ledger :: "row list \<Rightarrow> ledger" where
  "sample_ledger rs = \<lparr>ldb = \<lparr>user_version = 3, columns = base_columns, rows = rs\<rparr>,
     lpath = DefaultPath, has_db = True, blocked = False\<rparr>"

lemma sample_claim_simps [simp]:
  "cCallerUID sample_claim = 1008" "cCommandID sample_claim = ''cmd-1''"
  "cRequestFingerprint sample_claim = ''fp''"
  by (simp_all add: sample_claim_def)

lemma sample_claim_valid: "validateClaim sample_claim = None"
  by (simp add: validateClaim_def sample_claim_def)

lemma sample_ledger_simps [simp]:
  "ledger_rows (sample_ledger rs) = rs" "blocked (sample_ledger rs) = False"
  "has_db (sample_ledger rs) = True" "user_version (ldb (sample_ledger rs)) = 3"
  by (simp_all add: sample_ledger_def)

lemma sample_row_ok: "ledger_ok (sample_ledger [row_of_claim t sample_claim])"
  by (simp add: ledger_ok_def rows_ok_def row_ok_of_claim sample_claim_valid)

section \<open>The properties\<close>

text \<open>
  C16: starting from an absent database, in every run of ledger operations, crashes, successful
  and failed starts, under every pattern of database failures, the table keeps its invariant:
  one row per caller and command ID, the schema checks, a 30-day window, and for every status
  the metadata it requires (admin authorization for an accepted command, an execution identity
  for a running or finished one, an error payload for a denied one).
\<close>

theorem ledger_invariant:
  assumes "daemon_run T (Down empty_db) (Up l)"
  shows "ledger_ok l"
proof -
  have "daemon_ok (Down empty_db)"
    by (simp add: daemon_ok_def rows_ok_def empty_db_def)
  then have "daemon_ok (Up l)"
    by (rule daemon_run_ok [OF assms])
  then show ?thesis by (simp add: daemon_ok_def ledger_ok_def)
qed

theorem ledger_invariant_witness:
  "\<exists>l. Open (quiet_open 0) id [] empty_db = (ldb l, Inr l) \<and>
     daemon_run 5 (Down empty_db) (Up (fst (ReserveAuthorization (quiet_env 5) sample_claim l))) \<and>
     ledger_ok (fst (ReserveAuthorization (quiet_env 5) sample_claim l))"
proof -
  obtain l where l: "Open (quiet_open 0) id [] empty_db = (ldb l, Inr l)"
    by (simp add: Open_def quiet_open_def configure_def migrate_def empty_db_def migrate_loop.simps
        SchemaVersion_def Let_def applyMigration_def create_table_def add_column_def ensureColumn_def
        base_columns_def integrityCheck_def recoverInterrupted_def purgeExpired_def sql_update_def)
  obtain l2 r2 where l2: "ReserveAuthorization (quiet_env 5) sample_claim l = (l2, r2)"
    by fastforce
  have "daemon_run 5 (Down empty_db) (Up l)"
    by (rule daemon_run.step [OF daemon_run.idle daemon_step.start [OF l]]) (simp add: quiet_open_def)
  then have "daemon_run 5 (Down empty_db) (Up l2)"
    by (rule daemon_run.step [OF _ daemon_step.reserve [OF l2]]) simp
  then show ?thesis using ledger_invariant [of 5 l2] l l2 by auto
qed

lemma daemon_step_row:
  assumes "daemon_step t s s'" and "daemon_ok s" and "current_schema s"
    and "daemon_row k s = Some r" and "t < expires_at r"
  shows "(\<exists>r'. daemon_row k s' = Some r' \<and> moved r r') \<and> current_schema s'"
  using assms
proof (induction rule: daemon_step.induct)
  case (lookup e uid cid l l' res)
  then show ?case
    by (auto simp: daemon_row_def current_schema_def frame)
next
  case (reserve e c l l' res)
  then show ?case
    by (auto simp: daemon_row_def current_schema_def daemon_ok_def frame Reserve_find
        simp flip: ledger_ok_def)
next
  case (transition e uid cid expected nxt d l l' err)
  then show ?case
    using Transition_find [OF transition(1)]
    by (auto simp: daemon_row_def current_schema_def daemon_ok_def frame simp flip: ledger_ok_def)
next
  case (reconcile e l l' err)
  then show ?case
    using Reconcile_find [OF reconcile(1)]
    by (auto simp: daemon_row_def current_schema_def daemon_ok_def frame simp flip: ledger_ok_def)
next
  case (crash t l)
  then show ?case by (auto simp: daemon_row_def current_schema_def)
next
  case (start oe abs_path p d d' l)
  then show ?case
    using Open_current [OF start(1)] Open_db [OF start(1)]
    by (auto simp: daemon_row_def current_schema_def daemon_ok_def)
next
  case (start_failed oe abs_path p d d' err)
  then show ?case
    using Open_current [OF start_failed(1)]
    by (auto simp: daemon_row_def current_schema_def daemon_ok_def)
qed

lemma daemon_run_row:
  assumes "daemon_run T s s'" and "daemon_ok s" and "current_schema s"
    and "daemon_row k s = Some r" and "T < expires_at r"
  shows "\<exists>r'. daemon_row k s' = Some r' \<and> same_claim r r' \<and>
    allowedTransition\<^sup>*\<^sup>* (status r) (status r') \<and> (\<not> interrupted (status r) \<longrightarrow> r' = r) \<and>
    current_schema s'"
  using assms
proof (induction rule: daemon_run.induct)
  case (idle s)
  then show ?case by auto
next
  case (step s s' t s'')
  then obtain r' where r': "daemon_row k s' = Some r'" "same_claim r r'"
      "allowedTransition\<^sup>*\<^sup>* (status r) (status r')" "\<not> interrupted (status r) \<longrightarrow> r' = r"
      "current_schema s'"
    by blast
  then have "t < expires_at r'" using step by (simp add: same_claim_def)
  then obtain r'' where r'': "daemon_row k s'' = Some r''" "moved r' r''" "current_schema s''"
    using daemon_step_row [OF step.hyps(2) daemon_run_ok [OF step.hyps(1)]] step.prems r' by blast
  then show ?case
    using r' by (auto simp: moved_def intro: same_claim_trans rtranclp.rtrancl_into_rtrancl
        dest: allowed_from_interrupted)
qed




text \<open>
  C31: \<^const>\<open>ReserveAuthorization\<close> on a healthy database. With a valid claim and an open gate it purges
  the expired rows and then: creates the pending record when the caller has no live record under
  that command ID; returns the stored record, unchanged and not created, when the fingerprint is
  the same; and refuses with a conflict, rolling everything back, when the fingerprint differs.
\<close>

theorem ReserveAuthorization_healthy:
  assumes "ledger_ok l" and "validateClaim c = None" and "\<not> blocked l"
    and "\<And>p. \<not> env_fault e p" and "env_commit e = Committed"
  defines "live \<equiv> (case tab_find row_key (cCallerUID c, cCommandID c) (ledger_rows l) of
      None \<Rightarrow> None | Some r \<Rightarrow> if expires_at r \<le> env_now e then None else Some r)"
    and "kept \<equiv> sql_delete_expired (env_now e) (ledger_rows l)"
  shows "ReserveAuthorization e c l =
    (case live of
       None \<Rightarrow> (set_rows (kept @ [row_of_claim (env_now e) c]) l,
                Inr (scanRecord (row_of_claim (env_now e) c), True))
     | Some r \<Rightarrow> if request_fingerprint r = cRequestFingerprint c
                then (set_rows kept l, Inr (scanRecord r, False))
                else (l, Inl ErrCommandIDConflict))"
proof -
  let ?new = "row_of_claim (env_now e) c" and ?k = "(cCallerUID c, cCommandID c)"
  have find: "tab_find row_key ?k kept = live"
    using find_delete [OF ledger_ok_unique [OF assms(1)], of ?k] by (simp add: kept_def live_def)
  then have ins: "sql_insert ?new kept = Some (if live = None then (kept @ [?new], 1) else (kept, 0))"
    using row_check_of_claim [OF assms(2)] tab_find_None_iff [of row_key ?k kept]
    by (auto simp: sql_insert_def)
  have sel: "selectRecord (cCallerUID c) (cCommandID c) (if live = None then kept @ [?new] else kept) =
      Some (scanRecord (case live of None \<Rightarrow> ?new | Some r \<Rightarrow> r))"
    using find by (auto simp: selectRecord_def sql_select_def tab_find_append split: option.splits)
  have fp: "rRequestFingerprint (scanRecord r) = request_fingerprint r" for r
    by (simp add: scanRecord_def)
  show ?thesis
  proof (cases live)
    case None
    then show ?thesis
      using ins sel fp assms(2-5) unfolding kept_def
      by (simp add: ReserveAuthorization_def isBlocked_def commit_def)
  next
    case (Some r)
    then show ?thesis
      using ins sel fp assms(2-5) unfolding kept_def
      by (simp add: ReserveAuthorization_def isBlocked_def commit_def)
  qed
qed

theorem ReserveAuthorization_healthy_witness:
  "snd (ReserveAuthorization (quiet_env 7) sample_claim (sample_ledger [])) =
     Inr (scanRecord (row_of_claim 7 sample_claim), True) \<and>
   ReserveAuthorization (quiet_env 8) (sample_claim\<lparr>cRequestFingerprint := ''other''\<rparr>)
       (sample_ledger [row_of_claim 7 sample_claim]) =
     (sample_ledger [row_of_claim 7 sample_claim], Inl ErrCommandIDConflict)"
proof -
  have ok: "ledger_ok (sample_ledger [])" by (simp add: ledger_ok_def rows_ok_def)
  have valid: "validateClaim (sample_claim\<lparr>cRequestFingerprint := ''other''\<rparr>) = None"
    by (simp add: validateClaim_def sample_claim_def)
  show ?thesis
    using ReserveAuthorization_healthy [OF ok sample_claim_valid, of "quiet_env 7"]
      ReserveAuthorization_healthy [OF sample_row_ok valid, of 7 "quiet_env 8"]
    by (simp add: Retention_def)
qed

text \<open>
  C32: \<^const>\<open>Transition\<close> on a healthy database. A request that passes the guards moves exactly the named
  record, and only if it is in the expected status; it changes no other record. A record in another
  status gives \<^const>\<open>ErrInvalidTransition\<close>, an absent or expired one \<^const>\<open>ErrCommandNotFound\<close>, and neither
  changes the ledger.
\<close>

theorem Transition_healthy:
  assumes "ledger_ok l" and "transition_guard expected nxt d" and "\<not> blocked l" and "has_db l"
    and "\<And>p. \<not> env_fault e p" and "env_commit e = Committed" and "env_query e = QueryOk"
  shows "Transition e uid cid expected nxt d l =
    (case tab_find row_key (uid, cid) (ledger_rows l) of
       None \<Rightarrow> (l, Some ErrCommandNotFound)
     | Some r \<Rightarrow>
         if status r = expected
         then (set_rows (map (\<lambda>q. if row_key q = (uid, cid) then transition_row (env_now e) nxt d q else q)
                 (ledger_rows l)) l, None)
         else (l, Some (if env_later e < expires_at r then ErrInvalidTransition else ErrCommandNotFound)))"
proof -
  let ?P = "\<lambda>r. row_key r = (uid, cid) \<and> status r = expected"
  let ?f = "transition_row (env_now e) nxt d"
  note uniq = ledger_ok_unique [OF assms(1)]
  have one: "length (filter ?P (ledger_rows l)) = 1 \<longleftrightarrow>
      (\<exists>r. tab_find row_key (uid, cid) (ledger_rows l) = Some r \<and> status r = expected)"
    by (rule tab_affected_iff [OF uniq])
  have only: "map (\<lambda>r. if ?P r then ?f r else r) (ledger_rows l) =
      map (\<lambda>q. if row_key q = (uid, cid) then ?f q else q) (ledger_rows l)"
    if "tab_find row_key (uid, cid) (ledger_rows l) = Some r" "status r = expected" for r
    using that uniq by (auto simp: tab_find_iff) (metis option.inject tab_find_unique)
  show ?thesis
  proof (cases "tab_find row_key (uid, cid) (ledger_rows l)")
    case None
    then have "length (filter ?P (ledger_rows l)) \<noteq> 1" using one by simp
    with None show ?thesis
      using assms(2-7) by (simp add: Transition_def isBlocked_def sql_update_def transitionConflict_def
          Lookup_def sql_select_def)
  next
    case (Some r)
    show ?thesis
    proof (cases "status r = expected")
      case True
      then have "length (filter ?P (ledger_rows l)) = 1" using one Some by simp
      then show ?thesis
        using Some True only [OF Some True] assms(2-7)
        by (simp add: Transition_def isBlocked_def sql_update_def commit_def)
    next
      case False
      then have "length (filter ?P (ledger_rows l)) \<noteq> 1" using one Some by simp
      then show ?thesis
        using Some False assms(2-7)
        by (simp add: Transition_def isBlocked_def sql_update_def transitionConflict_def
            Lookup_def sql_select_def)
    qed
  qed
qed

theorem Transition_healthy_witness:
  "snd (Transition (quiet_env 5) 1008 ''cmd-1'' StatusAccepted StatusAuthorizationUncertain no_data
          (sample_ledger [row_of_claim 0 sample_claim])) = Some ErrInvalidTransition \<and>
   snd (Transition (quiet_env 5) 1008 ''cmd-1'' StatusAuthorizationPending StatusAuthorizationUncertain no_data
          (sample_ledger [row_of_claim 0 sample_claim])) = None"
proof -
  have g: "transition_guard StatusAccepted StatusAuthorizationUncertain no_data"
      "transition_guard StatusAuthorizationPending StatusAuthorizationUncertain no_data"
    by (simp_all add: transition_guard_def)
  show ?thesis
    using Transition_healthy [OF sample_row_ok g(1), of 0 "quiet_env 5" 1008 "''cmd-1''"]
      Transition_healthy [OF sample_row_ok g(2), of 0 "quiet_env 5" 1008 "''cmd-1''"]
    by (simp add: Retention_def)
qed






text \<open>
  C34: a successful start. \<^const>\<open>Open\<close> returns a ledger with an open gate, the current schema version, no
  record pending, accepted or running, and no expired record; a database written by a newer version is
  refused and left as it was.
\<close>

theorem Open_recovers:
  assumes "Open oe abs_path path d = (d', res)"
  shows "(\<forall>l. res = Inr l \<longrightarrow> d' = ldb l \<and> \<not> blocked l \<and> has_db l \<and> user_version (ldb l) = SchemaVersion \<and>
       (\<forall>r \<in> set (ledger_rows l). \<not> interrupted (status r) \<and> env_now (oe_purge oe) < expires_at r)) \<and>
     (SchemaVersion < user_version d \<longrightarrow> d' = d \<and> isl res)"
proof (intro conjI allI impI)
  fix l
  assume "res = Inr l"
  with assms show "d' = ldb l" and "\<not> blocked l" and "has_db l"
      and "user_version (ldb l) = SchemaVersion"
      and "\<forall>r \<in> set (ledger_rows l). \<not> interrupted (status r) \<and> env_now (oe_purge oe) < expires_at r"
    by (auto elim!: Open_outcome dest!: migrate_version simp: unresolved_0_iff
        recoverInterrupted_def purgeExpired_def sql_delete_expired_def sql_update_def split: if_splits)
next
  assume "SchemaVersion < user_version d"
  then show "d' = d" and "isl res"
    using assms by (auto simp: Open_def migrate_def Let_def split: option.splits if_splits)
qed

theorem Open_recovers_witness:
  "\<exists>l. Open (quiet_open 9) id [] (ldb (sample_ledger [row_of_claim 0 sample_claim])) = (ldb l, Inr l) \<and>
     user_version (ldb l) = SchemaVersion \<and> map status (ledger_rows l) = [StatusAuthorizationUncertain]"
proof -
  let ?d = "ldb (sample_ledger [row_of_claim 0 sample_claim])"
  obtain d' res where r: "Open (quiet_open 9) id [] ?d = (d', res)"
    by fastforce
  then obtain l where l: "res = Inr l" "map status (ledger_rows l) = [StatusAuthorizationUncertain]"
    by (auto simp: Open_def quiet_open_def configure_def migrate_def migrate_loop.simps SchemaVersion_def
        integrityCheck_def recoverInterrupted_def purgeExpired_def sql_update_def sql_delete_expired_def
        Retention_def Let_def)
  then show ?thesis using r Open_recovers [OF r] by auto
qed

definition v2_columns :: "string list" where
  "v2_columns = base_columns @ [''requesting_gid'', ''request_message_id'']"

definition v3_columns :: "string list" where
  "v3_columns = v2_columns @ [''service_uid'', ''service_username'']"

definition known_schema :: "db \<Rightarrow> bool" where
  "known_schema d \<longleftrightarrow>
     user_version d = 0 \<and> columns d = [] \<and> rows d = [] \<or>
     user_version d = 1 \<and> columns d = base_columns \<or>
     user_version d = 2 \<and> columns d \<in> {v2_columns, v3_columns} \<or>
     user_version d = 3 \<and> columns d = v3_columns"

lemmas migration_defs = migrate_def migrate_loop.simps SchemaVersion_def Let_def applyMigration_def
  create_table_def add_column_def ensureColumn_def v2_columns_def v3_columns_def base_columns_def

lemma same_claim_defaults [simp]:
  "same_claim r (r\<lparr>requesting_gid := g\<rparr>)" "same_claim r (r\<lparr>request_message_id := m\<rparr>)"
  "same_claim r (r\<lparr>service_uid := u\<rparr>)" "same_claim r (r\<lparr>service_username := n\<rparr>)"
  by (simp_all add: same_claim_def row_key_def)

text \<open>
  C35: schema migration. From every schema the program has ever written (no table, version 1,
  version 2 with or without the service columns, version 3) \<^const>\<open>migrate\<close> without storage failures
  reaches version 3 with all 25 columns, and every stored command keeps its key, status, payloads and
  timestamps.
\<close>

theorem migrate_complete:
  assumes "known_schema d"
  shows "\<exists>d'. migrate False (\<lambda>_. False) d = (d', None) \<and> user_version d' = 3 \<and> columns d' = v3_columns \<and>
    list_all2 (\<lambda>r r'. same_claim r r' \<and> status r' = status r \<and> result_payload r' = result_payload r \<and>
      error_payload r' = error_payload r) (rows d) (rows d')"
proof -
  consider "user_version d = 0" "columns d = []" "rows d = []"
    | "user_version d = 1" "columns d = base_columns" | "user_version d = 2" "columns d = v2_columns"
    | "user_version d = 2" "columns d = v3_columns" | "user_version d = 3" "columns d = v3_columns"
    using assms by (auto simp: known_schema_def)
  then show ?thesis
    by cases (simp_all add: migration_defs list_all2_map2 list.rel_refl_strong same_claim_def row_key_def)
qed

theorem migrate_complete_witness:
  "\<exists>d'. migrate False (\<lambda>_. False) \<lparr>user_version = 1, columns = base_columns,
      rows = [row_of_claim 4 sample_claim]\<rparr> = (d', None) \<and> columns d' = v3_columns \<and> length (rows d') = 1"
proof -
  let ?d = "\<lparr>user_version = 1, columns = base_columns, rows = [row_of_claim 4 sample_claim]\<rparr>"
  have "known_schema ?d" by (simp add: known_schema_def)
  then obtain d' where "migrate False (\<lambda>_. False) ?d = (d', None)" "columns d' = v3_columns"
      "list_all2 (\<lambda>r r'. same_claim r r' \<and> status r' = status r \<and> result_payload r' = result_payload r \<and>
         error_payload r' = error_payload r) (rows ?d) (rows d')"
    using migrate_complete [of ?d] by blast
  then show ?thesis by (auto dest: list_all2_lengthD)
qed

end
