(* ===== verification/Go_Text.thy ===== *)
theory Go_Text
  imports Prelude
begin

text \<open>
  The parts of Go's text libraries that the program calls: iteration over the runes of a
  byte string (\<^verbatim>\<open>for range\<close>, \<^verbatim>\<open>unicode/utf8\<close>), \<^verbatim>\<open>strings.TrimSpace\<close>, \<^verbatim>\<open>strings.ToLower\<close>,
  \<^verbatim>\<open>strings.EqualFold\<close> against an ASCII word, \<^verbatim>\<open>unicode.IsControl\<close>, and decimal formatting.
\<close>

section \<open>Runes\<close>

type_synonym rune = nat

abbreviation byte_of :: "char \<Rightarrow> nat" where
  "byte_of c \<equiv> of_char c"

definition RuneError :: rune where
  "RuneError = 0xFFFD"

definition cont_byte :: "nat \<Rightarrow> nat \<Rightarrow> char \<Rightarrow> bool" where
  "cont_byte lo hi c \<longleftrightarrow> lo \<le> byte_of c \<and> byte_of c \<le> hi"

definition rune2 :: "char \<Rightarrow> char \<Rightarrow> rune" where
  "rune2 c c1 = (byte_of c - 0xC0) * 64 + (byte_of c1 - 0x80)"

definition rune3 :: "char \<Rightarrow> char \<Rightarrow> char \<Rightarrow> rune" where
  "rune3 c c1 c2 = (byte_of c - 0xE0) * 4096 + (byte_of c1 - 0x80) * 64 + (byte_of c2 - 0x80)"

definition rune4 :: "char \<Rightarrow> char \<Rightarrow> char \<Rightarrow> char \<Rightarrow> rune" where
  "rune4 c c1 c2 c3 = (byte_of c - 0xF0) * 262144 + (byte_of c1 - 0x80) * 4096 +
     (byte_of c2 - 0x80) * 64 + (byte_of c3 - 0x80)"

definition decode2 :: "char \<Rightarrow> string \<Rightarrow> rune \<times> nat" where
  "decode2 c cs =
     (case cs of c1 # _ \<Rightarrow> if cont_byte 0x80 0xBF c1 then (rune2 c c1, 2) else (RuneError, 1)
      | _ \<Rightarrow> (RuneError, 1))"

definition accept3 :: "char \<Rightarrow> char \<Rightarrow> char \<Rightarrow> bool" where
  "accept3 c c1 c2 \<longleftrightarrow>
     cont_byte (if byte_of c = 0xE0 then 0xA0 else 0x80) (if byte_of c = 0xED then 0x9F else 0xBF) c1 \<and>
     cont_byte 0x80 0xBF c2"

definition accept4 :: "char \<Rightarrow> char \<Rightarrow> char \<Rightarrow> char \<Rightarrow> bool" where
  "accept4 c c1 c2 c3 \<longleftrightarrow>
     cont_byte (if byte_of c = 0xF0 then 0x90 else 0x80) (if byte_of c = 0xF4 then 0x8F else 0xBF) c1 \<and>
     cont_byte 0x80 0xBF c2 \<and> cont_byte 0x80 0xBF c3"

definition decode3 :: "char \<Rightarrow> string \<Rightarrow> rune \<times> nat" where
  "decode3 c cs =
     (case cs of c1 # c2 # _ \<Rightarrow> if accept3 c c1 c2 then (rune3 c c1 c2, 3) else (RuneError, 1)
      | _ \<Rightarrow> (RuneError, 1))"

definition decode4 :: "char \<Rightarrow> string \<Rightarrow> rune \<times> nat" where
  "decode4 c cs =
     (case cs of c1 # c2 # c3 # _ \<Rightarrow> if accept4 c c1 c2 c3 then (rune4 c c1 c2 c3, 4) else (RuneError, 1)
      | _ \<Rightarrow> (RuneError, 1))"

text \<open>\<^verbatim>\<open>utf8.DecodeRune\<close>: the rune and how many bytes it takes; a wrong byte is \<^const>\<open>RuneError\<close> of size 1.\<close>

definition decode_rune :: "string \<Rightarrow> rune \<times> nat" where
  "decode_rune s =
     (case s of [] \<Rightarrow> (RuneError, 0)
      | c # cs \<Rightarrow>
        if byte_of c < 0x80 then (byte_of c, 1)
        else if 0xC2 \<le> byte_of c \<and> byte_of c \<le> 0xDF then decode2 c cs
        else if 0xE0 \<le> byte_of c \<and> byte_of c \<le> 0xEF then decode3 c cs
        else if 0xF0 \<le> byte_of c \<and> byte_of c \<le> 0xF4 then decode4 c cs
        else (RuneError, 1))"

text \<open>\<^verbatim>\<open>utf8.AppendRune\<close>.\<close>

definition encode_rune :: "rune \<Rightarrow> string" where
  "encode_rune r =
     (if r < 0x80 then [char_of r]
      else if r < 0x800 then [char_of (0xC0 + r div 64), char_of (0x80 + r mod 64)]
      else if r > 0x10FFFF \<or> (0xD800 \<le> r \<and> r \<le> 0xDFFF) then
        [char_of (0xEF::nat), char_of (0xBF::nat), char_of (0xBD::nat)]
      else if r < 0x10000 then
        [char_of (0xE0 + r div 4096), char_of (0x80 + r div 64 mod 64), char_of (0x80 + r mod 64)]
      else
        [char_of (0xF0 + r div 262144), char_of (0x80 + r div 4096 mod 64),
         char_of (0x80 + r div 64 mod 64), char_of (0x80 + r mod 64)])"

text \<open>The runes of a string in the order of \<^verbatim>\<open>for range\<close>, each with its bytes.\<close>

function rune_segments :: "string \<Rightarrow> (rune \<times> string) list" where
  "rune_segments [] = []"
| "rune_segments (c # cs) =
     (let (r, n) = decode_rune (c # cs) in (r, take n (c # cs)) # rune_segments (drop (n - 1) cs))"
  by pat_completeness auto
termination
  by (relation "measure length") auto

definition runes :: "string \<Rightarrow> rune list" where
  "runes s = map fst (rune_segments s)"

text \<open>\<^verbatim>\<open>utf8.ValidString\<close>: no byte decodes to \<^const>\<open>RuneError\<close> by itself.\<close>

definition valid_utf8 :: "string \<Rightarrow> bool" where
  "valid_utf8 s \<longleftrightarrow> list_all (\<lambda>(r, bs). \<not> (r = RuneError \<and> length bs = 1)) (rune_segments s)"

section \<open>Classes of runes, trimming, case\<close>

definition IsControl :: "rune \<Rightarrow> bool" where
  "IsControl r \<longleftrightarrow> r \<le> 0x1F \<or> (0x7F \<le> r \<and> r \<le> 0x9F)"

definition IsSpace :: "rune \<Rightarrow> bool" where
  "IsSpace r \<longleftrightarrow> (9 \<le> r \<and> r \<le> 13) \<or> r = 32 \<or> r = 0x85 \<or> r = 0xA0 \<or> r = 0x1680 \<or>
     (0x2000 \<le> r \<and> r \<le> 0x200A) \<or> r = 0x2028 \<or> r = 0x2029 \<or> r = 0x202F \<or> r = 0x205F \<or> r = 0x3000"

definition TrimSpace :: "string \<Rightarrow> string" where
  "TrimSpace s =
     (let sp = (\<lambda>(r, bs). IsSpace r) in
      concat (map snd (rev (dropWhile sp (rev (dropWhile sp (rune_segments s)))))))"

text \<open>
  \<^verbatim>\<open>strings.ToLower\<close>. Apart from the capital ASCII letters, exactly U+0130 and U+212A have an
  ASCII lower case; the lower case of every other rune is outside ASCII, and the program compares
  the result with ASCII words only, so those runes are left as they are.
\<close>

definition lower_segment :: "rune \<times> string \<Rightarrow> string" where
  "lower_segment p =
     (case p of (r, bs) \<Rightarrow>
        if 65 \<le> r \<and> r \<le> 90 then [char_of (r + 32)]
        else if r = 0x130 then ''i''
        else if r = 0x212A then ''k''
        else bs)"

definition ToLower :: "string \<Rightarrow> string" where
  "ToLower s = concat (map lower_segment (rune_segments s))"

definition ascii_upper :: "char \<Rightarrow> char" where
  "ascii_upper c = (if 97 \<le> byte_of c \<and> byte_of c \<le> 122 then char_of (byte_of c - 32) else c)"

text \<open>\<^verbatim>\<open>strings.EqualFold(s, w)\<close> for a word \<open>w\<close> of the letters A and L, which no rune outside ASCII folds to.\<close>

definition EqualFold_word :: "string \<Rightarrow> string \<Rightarrow> bool" where
  "EqualFold_word s w \<longleftrightarrow> map ascii_upper s = w"

definition is_lower :: "rune \<Rightarrow> bool" where
  "is_lower r \<longleftrightarrow> 97 \<le> r \<and> r \<le> 122"

definition is_upper :: "rune \<Rightarrow> bool" where
  "is_upper r \<longleftrightarrow> 65 \<le> r \<and> r \<le> 90"

definition is_digit :: "rune \<Rightarrow> bool" where
  "is_digit r \<longleftrightarrow> 48 \<le> r \<and> r \<le> 57"

section \<open>Decimal numbers\<close>

fun dec :: "nat \<Rightarrow> string" where
  "dec n = (if n < 10 then [char_of (48 + n)] else dec (n div 10) @ [char_of (48 + n mod 10)])"

declare dec.simps [simp del]

text \<open>\<^verbatim>\<open>fmt.Sprintf("%0<w>d", n)\<close> for an unsigned number.\<close>

definition dec_pad :: "nat \<Rightarrow> nat \<Rightarrow> string" where
  "dec_pad w n = replicate (w - length (dec n)) CHR ''0'' @ dec n"

section \<open>Facts\<close>

lemma decode_rune_size:
  "s \<noteq> [] \<Longrightarrow> 1 \<le> snd (decode_rune s)" "snd (decode_rune s) \<le> length s"
  by (auto simp: decode_rune_def decode2_def decode3_def decode4_def split: list.split)

lemma decode_rune_ascii: "byte_of c < 0x80 \<Longrightarrow> decode_rune (c # cs) = (byte_of c, 1)"
  by (simp add: decode_rune_def)

lemma rune2_high: "194 \<le> byte_of c \<Longrightarrow> 128 \<le> rune2 c x"
  unfolding rune2_def by linarith

lemma rune3_high: "224 \<le> byte_of c \<Longrightarrow> accept3 c x y \<Longrightarrow> 128 \<le> rune3 c x y"
  unfolding rune3_def accept3_def cont_byte_def by (auto split: if_splits)

lemma rune4_high: "240 \<le> byte_of c \<Longrightarrow> accept4 c x y z \<Longrightarrow> 128 \<le> rune4 c x y z"
  unfolding rune4_def accept4_def cont_byte_def by (auto split: if_splits)

lemma decode_high:
  "194 \<le> byte_of c \<Longrightarrow> 128 \<le> fst (decode2 c cs)"
  "224 \<le> byte_of c \<Longrightarrow> 128 \<le> fst (decode3 c cs)"
  "240 \<le> byte_of c \<Longrightarrow> 128 \<le> fst (decode4 c cs)"
  by (auto simp: decode2_def decode3_def decode4_def RuneError_def rune2_high rune3_high rune4_high
      split: list.split)

lemma decode_rune_high: "\<not> byte_of c < 0x80 \<Longrightarrow> 0x80 \<le> fst (decode_rune (c # cs))"
  by (simp add: decode_rune_def decode_high RuneError_def)

lemma rune_segments_Cons:
  "rune_segments (c # cs) =
     (fst (decode_rune (c # cs)), take (snd (decode_rune (c # cs))) (c # cs)) #
     rune_segments (drop (snd (decode_rune (c # cs))) (c # cs))"
  using decode_rune_size(1) [of "c # cs"]
  by (simp add: case_prod_beta Let_def drop_Cons')

declare rune_segments.simps(2) [simp del]

lemma rune_segments_ascii [simp]:
  "byte_of c < 0x80 \<Longrightarrow> rune_segments (c # cs) = (byte_of c, [c]) # rune_segments cs"
  by (simp add: rune_segments_Cons decode_rune_ascii)

lemma concat_rune_segments [simp]: "concat (map snd (rune_segments s)) = s"
proof (induction s rule: rune_segments.induct)
  case (2 c cs)
  obtain r n where rn: "decode_rune (c # cs) = (r, n)" by fastforce
  with decode_rune_size(1) [of "c # cs"] have "drop n (c # cs) = drop (n - 1) cs"
    by (simp add: drop_Cons')
  with 2 [OF rn [symmetric]] rn show ?case
    by (simp add: rune_segments_Cons) (metis append_take_drop_id)
qed simp

lemma runes_Nil [simp]: "runes [] = []"
  by (simp add: runes_def)

lemma runes_ascii [simp]: "byte_of c < 0x80 \<Longrightarrow> runes (c # cs) = byte_of c # runes cs"
  by (simp add: runes_def)

text \<open>If every rune is below 0x80, the string is ASCII and its runes are its bytes.\<close>

lemma runes_all_ascii: "list_all (\<lambda>r. r < 0x80) (runes s) \<Longrightarrow> runes s = map byte_of s"
proof (induction s)
  case (Cons c cs)
  then have "byte_of c < 0x80"
    using decode_rune_high [of c cs] by (auto simp: runes_def rune_segments_Cons)
  with Cons show ?case by simp
qed simp

lemma TrimSpace_empty_iff: "TrimSpace s = [] \<longleftrightarrow> list_all IsSpace (runes s)"
proof -
  let ?sp = "\<lambda>(r::rune, bs::string). IsSpace r"
  have ne: "bs \<noteq> []" if "(r, bs) \<in> set (rune_segments s)" for r bs
    using that
  proof (induction s rule: rune_segments.induct)
    case (2 c cs)
    obtain r' n where rn: "decode_rune (c # cs) = (r', n)" by fastforce
    with decode_rune_size(1) [of "c # cs"] have n: "1 \<le> n" "drop n (c # cs) = drop (n - 1) cs"
      by (simp_all add: drop_Cons')
    from "2.prems" rn have "(r, bs) = (r', take n (c # cs)) \<or> (r, bs) \<in> set (rune_segments (drop n (c # cs)))"
      by (simp add: rune_segments_Cons)
    then show ?case using "2.IH" [OF rn [symmetric] refl] n by auto
  qed simp
  let ?xs = "dropWhile ?sp (rune_segments s)"
  have "TrimSpace s = [] \<longleftrightarrow> (\<forall>p \<in> set (dropWhile ?sp (rev ?xs)). snd p = [])"
    by (simp add: TrimSpace_def Let_def)
  also have "\<dots> \<longleftrightarrow> dropWhile ?sp (rev ?xs) = []"
  proof -
    have "snd p \<noteq> []" if "p \<in> set (dropWhile ?sp (rev ?xs))" for p
      using that ne [of "fst p" "snd p"] by (auto dest!: set_dropWhileD)
    then show ?thesis by (metis list.set_intros(1) list.exhaust set_empty2 empty_iff)
  qed
  also have "\<dots> \<longleftrightarrow> (\<forall>p \<in> set ?xs. ?sp p)"
    by (auto simp: dropWhile_eq_Nil_conv)
  also have "\<dots> \<longleftrightarrow> ?xs = []"
    using hd_dropWhile [of ?sp "rune_segments s"] by (metis hd_in_set empty_iff set_empty2)
  also have "\<dots> \<longleftrightarrow> list_all IsSpace (runes s)"
    by (auto simp: runes_def list_all_iff dropWhile_eq_Nil_conv)
  finally show ?thesis .
qed

text \<open>An ASCII byte never continues the rune before it, so text between two of them is kept by trimming.\<close>

lemma decode_rune_before_ascii:
  assumes "byte_of x < 128"
  shows "decode_rune (c # cs @ x # t) = decode_rune (c # cs)"
proof -
  have x: "\<not> cont_byte 128 u x" "\<not> accept3 c x y" "\<not> accept3 c y x" "\<not> accept4 c x y z" "\<not> accept4 c y x z"
    "\<not> accept4 c y z x" for u y z
    using assms by (auto simp: cont_byte_def accept3_def accept4_def split: if_splits)
  show ?thesis
    by (auto simp: decode_rune_def decode2_def decode3_def decode4_def x split: list.split)
qed

lemma rune_segments_snoc:
  assumes "byte_of x < 128"
  shows "rune_segments (s @ [x]) = rune_segments s @ [(byte_of x, [x])]"
proof (induction s rule: rune_segments.induct)
  case (2 c cs)
  obtain r n where rn: "(r, n) = decode_rune (c # cs)" by (metis surj_pair)
  have rn': "(r, n) = decode_rune (c # cs @ [x])"
    using decode_rune_before_ascii [OF assms, of c cs "[]"] rn by simp
  have "1 \<le> n" "n \<le> length (c # cs)"
    using decode_rune_size [of "c # cs"] rn by (metis list.distinct(1) snd_conv)+
  then have "take n (c # cs @ [x]) = take n (c # cs)" "drop (n - 1) (cs @ [x]) = drop (n - 1) cs @ [x]"
    by (cases n; simp)+
  then show ?case
    using "2.IH" [OF rn refl] by (simp add: rune_segments.simps(2) flip: rn rn')
qed (use assms in simp)

lemma TrimSpace_id:
  assumes "byte_of a < 128" "\<not> IsSpace (byte_of a)" "byte_of z < 128" "\<not> IsSpace (byte_of z)"
  shows "TrimSpace (a # s @ [z]) = a # s @ [z]"
proof -
  have "rune_segments (a # s @ [z]) = (byte_of a, [a]) # rune_segments s @ [(byte_of z, [z])]"
    using assms by (simp add: rune_segments_snoc)
  then show ?thesis using assms by (simp add: TrimSpace_def)
qed

lemma dec_digits: "\<forall>c \<in> set (dec n). 48 \<le> byte_of c \<and> byte_of c \<le> 57"
proof (induction n rule: dec.induct)
  case (1 n)
  then show ?case
    by (subst dec.simps) auto
qed

lemma dec_nonempty [simp]: "dec n \<noteq> []"
  by (subst dec.simps) simp

text \<open>Reading decimal digits back.\<close>

definition undec :: "string \<Rightarrow> nat" where
  "undec s = foldl (\<lambda>a c. 10 * a + (byte_of c - 48)) 0 s"

lemma undec_snoc: "undec (s @ [c]) = 10 * undec s + (byte_of c - 48)"
  by (simp add: undec_def)

lemma undec_dec [simp]: "undec (dec n) = n"
proof (induction n rule: dec.induct)
  case (1 n)
  then show ?case
    by (subst dec.simps) (auto simp: undec_snoc undec_def [of "[x]" for x])
qed

lemma dec_inject [simp]: "dec m = dec n \<longleftrightarrow> m = n"
  by (metis undec_dec)

lemma undec_replicate_0: "undec (replicate k CHR ''0'' @ s) = undec s"
  by (induction k) (simp_all add: undec_def)

lemma dec_pad_inject [simp]: "dec_pad w m = dec_pad w n \<longleftrightarrow> m = n"
  by (metis dec_pad_def undec_dec undec_replicate_0)

end
