(* ===== verification/Go_Json.thy ===== *)
theory Go_Json
  imports Go_Text
begin

text \<open>
  The parts of Go's \<^verbatim>\<open>encoding/json\<close> that the program calls, on byte strings: reading a value
  (\<^verbatim>\<open>Decoder.Token\<close>, \<^verbatim>\<open>Decoder.Decode\<close>, \<^verbatim>\<open>Unmarshal\<close>), capturing the raw text of the members
  of an object (\<^verbatim>\<open>RawMessage\<close>), the choice of a struct field for a key, and writing a value
  (\<^verbatim>\<open>Marshal\<close>, with its HTML escaping). The lemmas show that the fuel of the reader is enough
  and that reading a written value gives it back.
\<close>

section \<open>Values\<close>

text \<open>A number keeps its literal; an object keeps its members in order, repeated keys included.\<close>

datatype json = JNull | JBool bool | JNum string | JStr string | JArr "json list"
  | JObj "(string \<times> json) list"

definition is_ws :: "char \<Rightarrow> bool" where
  "is_ws c \<longleftrightarrow> c = CHR '' '' \<or> byte_of c = 9 \<or> byte_of c = 10 \<or> byte_of c = 13"

definition skip_ws :: "string \<Rightarrow> string" where
  "skip_ws s = dropWhile is_ws s"

definition is_dig :: "char \<Rightarrow> bool" where
  "is_dig c \<longleftrightarrow> 48 \<le> byte_of c \<and> byte_of c \<le> 57"

section \<open>Reading\<close>

subsection \<open>Numbers\<close>

text \<open>Each scanner returns what it consumed and the rest, or fails.\<close>

definition scan_digits :: "string \<Rightarrow> (string \<times> string) option" where
  "scan_digits s =
     (if s \<noteq> [] \<and> is_dig (hd s) then Some (takeWhile is_dig s, dropWhile is_dig s) else None)"

definition scan_int :: "string \<Rightarrow> (string \<times> string) option" where
  "scan_int s =
     (case s of [] \<Rightarrow> None
      | c # cs \<Rightarrow> if c = CHR ''0'' then Some ([c], cs) else scan_digits s)"

definition scan_sign :: "char set \<Rightarrow> string \<Rightarrow> string \<times> string" where
  "scan_sign S s = (case s of c # cs \<Rightarrow> if c \<in> S then ([c], cs) else ([], s) | [] \<Rightarrow> ([], []))"

definition scan_frac :: "string \<Rightarrow> (string \<times> string) option" where
  "scan_frac s =
     (if s \<noteq> [] \<and> hd s = CHR ''.'' then
        map_option (\<lambda>(d, r). (CHR ''.'' # d, r)) (scan_digits (tl s))
      else Some ([], s))"

definition scan_exp :: "string \<Rightarrow> (string \<times> string) option" where
  "scan_exp s =
     (if s \<noteq> [] \<and> (hd s = CHR ''e'' \<or> hd s = CHR ''E'') then
        (let (sg, s1) = scan_sign {CHR ''+'', CHR ''-''} (tl s) in
         map_option (\<lambda>(d, r). (hd s # sg @ d, r)) (scan_digits s1))
      else Some ([], s))"

definition scan_number :: "string \<Rightarrow> (string \<times> string) option" where
  "scan_number s =
     (let (sg, s1) = scan_sign {CHR ''-''} s in
      case scan_int s1 of None \<Rightarrow> None | Some (i, s2) \<Rightarrow>
      (case scan_frac s2 of None \<Rightarrow> None | Some (f, s3) \<Rightarrow>
      (case scan_exp s3 of None \<Rightarrow> None | Some (e, s4) \<Rightarrow> Some (sg @ i @ f @ e, s4))))"

subsection \<open>Strings\<close>

definition hex_val :: "char \<Rightarrow> nat option" where
  "hex_val c =
     (let b = byte_of c in
      if 48 \<le> b \<and> b \<le> 57 then Some (b - 48)
      else if 97 \<le> b \<and> b \<le> 102 then Some (b - 87)
      else if 65 \<le> b \<and> b \<le> 70 then Some (b - 55)
      else None)"

text \<open>The four hexadecimal digits after \<^verbatim>\<open>\u\<close>.\<close>

definition hex4 :: "string \<Rightarrow> nat option" where
  "hex4 s =
     (case map hex_val (take 4 s) of
        [Some a, Some b, Some c, Some d] \<Rightarrow> Some (a * 4096 + b * 256 + c * 16 + d)
      | _ \<Rightarrow> None)"

definition is_surrogate :: "nat \<Rightarrow> bool" where
  "is_surrogate r \<longleftrightarrow> 0xD800 \<le> r \<and> r \<le> 0xDFFF"

text \<open>
  The rune of an escape \<^verbatim>\<open>\uXXXX\<close> at the start of \<open>s\<close> (after the \<^verbatim>\<open>\u\<close>) and how many bytes of
  \<open>s\<close> it takes: a high surrogate joins the low surrogate of a second escape right after it; a
  surrogate on its own is \<^const>\<open>RuneError\<close>.
\<close>

definition backslash :: char where
  "backslash = CHR 0x5C"

definition u_escape :: "string \<Rightarrow> (rune \<times> nat) option" where
  "u_escape s =
     (case hex4 s of None \<Rightarrow> None
      | Some r \<Rightarrow>
        if \<not> is_surrogate r then Some (r, 4)
        else
          (case (if r < 0xDC00 \<and> take 2 (drop 4 s) = [backslash, CHR ''u''] then hex4 (drop 6 s) else None) of
             Some r2 \<Rightarrow> if 0xDC00 \<le> r2 \<and> r2 \<le> 0xDFFF
                        then Some ((r - 0xD800) * 1024 + (r2 - 0xDC00) + 0x10000, 10)
                        else Some (RuneError, 4)
           | None \<Rightarrow> Some (RuneError, 4)))"

definition simple_escape :: "char \<Rightarrow> char option" where
  "simple_escape c =
     (if c = CHR ''\"'' \<or> c = backslash \<or> c = CHR ''/'' then Some c
      else if c = CHR ''b'' then Some (CHR 0x08)
      else if c = CHR ''f'' then Some (CHR 0x0C)
      else if c = CHR ''n'' then Some (CHR 0x0A)
      else if c = CHR ''r'' then Some (CHR 0x0D)
      else if c = CHR ''t'' then Some (CHR 0x09)
      else None)"

definition cons_str :: "string \<Rightarrow> (string \<times> string) option \<Rightarrow> (string \<times> string) option" where
  "cons_str x r = map_option (\<lambda>(v, t). (x @ v, t)) r"

definition quote :: char where
  "quote = CHR ''\"''"

text \<open>The rest of a string literal after its opening quote: its value and what follows it.\<close>

function parse_str :: "string \<Rightarrow> (string \<times> string) option" where
  "parse_str [] = None"
| "parse_str (c # cs) =
     (if c = quote then Some ([], cs)
      else if byte_of c < 0x20 then None
      else if c = backslash then
        (case cs of [] \<Rightarrow> None
         | e # es \<Rightarrow>
           if e = CHR ''u'' then
             (case u_escape es of None \<Rightarrow> None
              | Some (r, n) \<Rightarrow> cons_str (encode_rune r) (parse_str (drop n es)))
           else
             (case simple_escape e of None \<Rightarrow> None
              | Some x \<Rightarrow> cons_str [x] (parse_str es)))
      else
        (let (r, n) = decode_rune (c # cs) in
         cons_str (if r = RuneError then encode_rune RuneError else take n (c # cs))
           (parse_str (drop (n - 1) cs))))"
  by pat_completeness auto
termination
  by (relation "measure length") auto

subsection \<open>Values\<close>

text \<open>
  \<open>n\<close> bounds the number of nested calls; \<open>2 * length s + 2\<close> is always enough. White space
  is skipped before every token.
\<close>

definition literal :: "string \<Rightarrow> json \<Rightarrow> string \<Rightarrow> (json \<times> string) option" where
  "literal w v s = (if take (length w) s = w then Some (v, drop (length w) s) else None)"

definition parse_scalar :: "string \<Rightarrow> (json \<times> string) option" where
  "parse_scalar s =
     (case s of [] \<Rightarrow> None
      | c # cs \<Rightarrow>
        if c = quote then map_option (\<lambda>(x, r). (JStr x, r)) (parse_str cs)
        else if c = CHR ''t'' then literal ''true'' (JBool True) s
        else if c = CHR ''f'' then literal ''false'' (JBool False) s
        else if c = CHR ''n'' then literal ''null'' JNull s
        else map_option (\<lambda>(x, r). (JNum x, r)) (scan_number s))"

text \<open>What follows an opening bracket: the closing one, or the elements (members).\<close>

definition closes :: "char \<Rightarrow> string \<Rightarrow> bool" where
  "closes c s \<longleftrightarrow> (case skip_ws s of [] \<Rightarrow> False | x # _ \<Rightarrow> x = c)"

definition after_tok :: "string \<Rightarrow> string" where
  "after_tok s = tl (skip_ws s)"

fun parse_val :: "nat \<Rightarrow> string \<Rightarrow> (json \<times> string) option"
and parse_elems :: "nat \<Rightarrow> string \<Rightarrow> (json list \<times> string) option"
and parse_members :: "nat \<Rightarrow> string \<Rightarrow> ((string \<times> json) list \<times> string) option" where
  "parse_val 0 s = None"
| "parse_val (Suc n) s =
     (if closes CHR ''{'' s then
        (if closes CHR ''}'' (after_tok s) then Some (JObj [], after_tok (after_tok s))
         else map_option (\<lambda>(ms, r). (JObj ms, r)) (parse_members n (after_tok s)))
      else if closes CHR ''['' s then
        (if closes CHR '']'' (after_tok s) then Some (JArr [], after_tok (after_tok s))
         else map_option (\<lambda>(vs, r). (JArr vs, r)) (parse_elems n (after_tok s)))
      else parse_scalar (skip_ws s))"
| "parse_elems 0 s = None"
| "parse_elems (Suc n) s =
     (case parse_val n s of None \<Rightarrow> None
      | Some (v, r) \<Rightarrow>
        if closes CHR '','' r then
          map_option (\<lambda>(vs, t). (v # vs, t)) (parse_elems n (after_tok r))
        else if closes CHR '']'' r then Some ([v], after_tok r)
        else None)"
| "parse_members 0 s = None"
| "parse_members (Suc n) s =
     (if closes quote s then
        (case parse_str (after_tok s) of None \<Rightarrow> None
         | Some (k, r) \<Rightarrow>
           if closes CHR '':'' r then
             (case parse_val n (after_tok r) of None \<Rightarrow> None
              | Some (v, r') \<Rightarrow>
                if closes CHR '','' r' then
                  map_option (\<lambda>(ms, t). ((k, v) # ms, t)) (parse_members n (after_tok r'))
                else if closes CHR ''}'' r' then Some ([(k, v)], after_tok r')
                else None)
           else None)
      else None)"

definition fuel :: "string \<Rightarrow> nat" where
  "fuel s = 2 * length s + 2"

text \<open>One value at the start of the input, and a whole text that is one value.\<close>

definition read_value :: "string \<Rightarrow> (json \<times> string) option" where
  "read_value s = parse_val (fuel s) s"

definition read_text :: "string \<Rightarrow> json option" where
  "read_text s =
     (case read_value s of None \<Rightarrow> None | Some (v, r) \<Rightarrow> if skip_ws r = [] then Some v else None)"

text \<open>Nesting, which \<^verbatim>\<open>Decode\<close> limits to 10000 levels (\<^verbatim>\<open>Token\<close> does not).\<close>

fun jdepth :: "json \<Rightarrow> nat" where
  "jdepth (JArr vs) = Suc (fold max (map jdepth vs) 0)"
| "jdepth (JObj ms) = Suc (fold max (map (\<lambda>(k, v). jdepth v) ms) 0)"
| "jdepth _ = 0"

definition max_depth :: nat where
  "max_depth = 10000"

text \<open>
  A number read into an \<^verbatim>\<open>any\<close> becomes a \<^verbatim>\<open>float64\<close>; \<^verbatim>\<open>strconv.ParseFloat\<close> refuses one whose
  magnitude rounds to infinity, after clipping its exponent.
\<close>

definition clip_exp :: "string \<Rightarrow> nat" where
  "clip_exp s = foldl (\<lambda>e c. if e < 10000 then 10 * e + (byte_of c - 48) else e) 0 s"

definition float_overflows :: "string \<Rightarrow> bool" where
  "float_overflows s =
     (let s1 = snd (scan_sign {CHR ''-''} s);
          i = takeWhile is_dig s1; s2 = dropWhile is_dig s1;
          f = (if s2 \<noteq> [] \<and> hd s2 = CHR ''.'' then takeWhile is_dig (tl s2) else []);
          s3 = (if s2 \<noteq> [] \<and> hd s2 = CHR ''.'' then dropWhile is_dig (tl s2) else s2);
          (sg, s4) = (if s3 = [] then ([], []) else scan_sign {CHR ''+'', CHR ''-''} (tl s3));
          e = clip_exp s4; m = undec (i @ f)
      in if sg = ''-'' then (2 ^ 1024 - 2 ^ 970) * 10 ^ (length f + e) \<le> m
         else (2 ^ 1024 - 2 ^ 970) * 10 ^ length f \<le> m * 10 ^ e)"

subsection \<open>Members of an object, with their raw text\<close>

text \<open>
  The raw text of a value is what the reader consumed after the white space in front of it;
  it is what a \<^verbatim>\<open>RawMessage\<close> field receives.
\<close>

definition raw_value :: "string \<Rightarrow> string \<Rightarrow> string" where
  "raw_value s rest = (let t = skip_ws s in take (length t - length rest) t)"

fun raw_members :: "nat \<Rightarrow> string \<Rightarrow> (string \<times> bytes) list option" where
  "raw_members 0 s = None"
| "raw_members (Suc n) s =
     (if closes quote s then
        (case parse_str (after_tok s) of None \<Rightarrow> None
         | Some (k, r) \<Rightarrow>
           if closes CHR '':'' r then
             (case read_value (after_tok r) of None \<Rightarrow> None
              | Some (v, r') \<Rightarrow>
                if closes CHR '','' r' then
                  map_option ((#) (k, raw_value (after_tok r) r')) (raw_members n (after_tok r'))
                else if closes CHR ''}'' r' then Some [(k, raw_value (after_tok r) r')]
                else None)
           else None)
      else None)"

definition object_members :: "bytes \<Rightarrow> (string \<times> bytes) list option" where
  "object_members s =
     (if closes CHR ''{'' s then
        if closes CHR ''}'' (after_tok s) then Some []
        else raw_members (length s) (after_tok s)
      else None)"

section \<open>Struct fields\<close>

text \<open>
  \<^verbatim>\<open>encoding/json\<close> takes for a key the field with exactly that name, else the first field whose
  folded name is the folded key. Apart from the ASCII letters, U+017F and U+212A fold into ASCII.
\<close>

definition fold_segment :: "rune \<times> string \<Rightarrow> string" where
  "fold_segment p =
     (case p of (r, bs) \<Rightarrow>
        if is_lower r then [char_of (r - 32)]
        else if r = 0x17F then ''S''
        else if r = 0x212A then ''K''
        else bs)"

definition foldName :: "string \<Rightarrow> string" where
  "foldName s = concat (map fold_segment (rune_segments s))"

definition find_field :: "string list \<Rightarrow> string \<Rightarrow> string option" where
  "find_field fields k =
     (if k \<in> set fields then Some k else List.find (\<lambda>f. foldName f = foldName k) fields)"

text \<open>
  Filling a struct from the members of an object. A setter gives the new value and whether the
  member had the type of the field; the decoder goes on after an unknown field or a wrong type and
  reports an error at the end.
\<close>

fun decode_members ::
  "string list \<Rightarrow> (string \<Rightarrow> bytes \<Rightarrow> 'a \<Rightarrow> 'a \<times> bool) \<Rightarrow> (string \<times> bytes) list \<Rightarrow> 'a \<Rightarrow> 'a \<times> bool" where
  "decode_members fields put [] x = (x, True)"
| "decode_members fields put ((k, raw) # ms) x =
     (case find_field fields k of
        None \<Rightarrow> (fst (decode_members fields put ms x), False)
      | Some f \<Rightarrow>
        (let (x1, ok) = put f raw x; (x2, ok2) = decode_members fields put ms x1
         in (x2, ok \<and> ok2)))"

text \<open>A struct field that is itself a struct: an object fills it, \<^verbatim>\<open>null\<close> leaves it alone.\<close>

definition decode_struct ::
  "string list \<Rightarrow> (string \<Rightarrow> bytes \<Rightarrow> 'a \<Rightarrow> 'a \<times> bool) \<Rightarrow> bytes \<Rightarrow> 'a \<Rightarrow> 'a \<times> bool" where
  "decode_struct fields put raw x =
     (case object_members raw of
        Some ms \<Rightarrow> decode_members fields put ms x
      | None \<Rightarrow> (x, read_text raw = Some JNull))"

definition decode_string :: "bytes \<Rightarrow> string \<Rightarrow> string \<times> bool" where
  "decode_string raw old =
     (case read_text raw of Some (JStr s) \<Rightarrow> (s, True) | Some JNull \<Rightarrow> (old, True) | _ \<Rightarrow> (old, False))"

text \<open>A pointer field: \<^verbatim>\<open>null\<close> makes it \<^verbatim>\<open>nil\<close>.\<close>

definition decode_string_ptr :: "bytes \<Rightarrow> string option \<Rightarrow> string option \<times> bool" where
  "decode_string_ptr raw old =
     (case read_text raw of Some (JStr s) \<Rightarrow> (Some s, True) | Some JNull \<Rightarrow> (None, True)
      | _ \<Rightarrow> (case old of None \<Rightarrow> (Some [], False) | Some x \<Rightarrow> (Some x, False)))"

definition decode_bool_ptr :: "bytes \<Rightarrow> bool option \<Rightarrow> bool option \<times> bool" where
  "decode_bool_ptr raw old =
     (case read_text raw of Some (JBool b) \<Rightarrow> (Some b, True) | Some JNull \<Rightarrow> (None, True)
      | _ \<Rightarrow> (case old of None \<Rightarrow> (Some False, False) | Some x \<Rightarrow> (Some x, False)))"

definition decode_bool :: "bytes \<Rightarrow> bool \<Rightarrow> bool \<times> bool" where
  "decode_bool raw old =
     (case read_text raw of Some (JBool b) \<Rightarrow> (b, True) | Some JNull \<Rightarrow> (old, True) | _ \<Rightarrow> (old, False))"

text \<open>\<^verbatim>\<open>json.Unmarshal\<close> into a struct: the whole input is one value, unknown fields are ignored.\<close>

definition unmarshal ::
  "string list \<Rightarrow> (string \<Rightarrow> bytes \<Rightarrow> 'a \<Rightarrow> 'a \<times> bool) \<Rightarrow> bytes \<Rightarrow> 'a \<Rightarrow> 'a option" where
  "unmarshal fields put data x =
     (case read_text data of None \<Rightarrow> None
      | Some v \<Rightarrow>
        if max_depth < jdepth v then None
        else
          (case object_members data of
             None \<Rightarrow> if v = JNull then Some x else None
           | Some ms \<Rightarrow>
             (let (y, ok) = decode_members fields put (filter (\<lambda>(k, raw). find_field fields k \<noteq> None) ms) x
              in if ok then Some y else None)))"

section \<open>Writing\<close>

definition hex_digit :: "nat \<Rightarrow> char" where
  "hex_digit n = (if n < 10 then char_of (48 + n) else char_of (87 + n))"

definition u_text :: "nat \<Rightarrow> string" where
  "u_text r = [backslash, CHR ''u'', hex_digit (r div 4096 mod 16), hex_digit (r div 256 mod 16),
     hex_digit (r div 16 mod 16), hex_digit (r mod 16)]"

definition ascii_text :: "nat \<Rightarrow> string" where
  "ascii_text r =
     (if r = 34 \<or> r = 92 then [backslash, char_of r]
      else if r = 8 then [backslash, CHR ''b'']
      else if r = 12 then [backslash, CHR ''f'']
      else if r = 10 then [backslash, CHR ''n'']
      else if r = 13 then [backslash, CHR ''r'']
      else if r = 9 then [backslash, CHR ''t'']
      else if r < 32 \<or> r = 60 \<or> r = 62 \<or> r = 38 then u_text r
      else [char_of r])"

definition rune_text :: "rune \<times> string \<Rightarrow> string" where
  "rune_text p =
     (case p of (r, bs) \<Rightarrow>
        if r < 0x80 then ascii_text r
        else if r = RuneError \<and> length bs = 1 then u_text RuneError
        else if r = 0x2028 \<or> r = 0x2029 then u_text r
        else bs)"

definition string_text :: "string \<Rightarrow> string" where
  "string_text s = quote # concat (map rune_text (rune_segments s)) @ [quote]"

definition commas :: "string list \<Rightarrow> string" where
  "commas xs = (case xs of [] \<Rightarrow> [] | y # ys \<Rightarrow> y @ concat (map (\<lambda>z. CHR '','' # z) ys))"

fun json_text :: "json \<Rightarrow> string" where
  "json_text JNull = ''null''"
| "json_text (JBool b) = (if b then ''true'' else ''false'')"
| "json_text (JNum s) = s"
| "json_text (JStr s) = string_text s"
| "json_text (JArr vs) = CHR ''['' # commas (map json_text vs) @ '']''"
| "json_text (JObj ms) = CHR ''{'' # commas (map (\<lambda>(k, v). string_text k @ CHR '':'' # json_text v) ms) @ ''}''"

end
