(* ===== verification/Protocol.thy ===== *)
theory Protocol
  imports Go_Json
begin

text \<open>
  The wire protocol (\<^verbatim>\<open>internal/protocol\<close>): message types, the envelope and its checks, the
  length-prefixed codec, the check for repeated JSON keys, and the payloads of the node commands,
  of errors and of the capability messages.

  A \<^verbatim>\<open>json.RawMessage\<close> that may be \<^verbatim>\<open>nil\<close> is a \<^typ>\<open>bytes option\<close>. A function that returns
  an \<^verbatim>\<open>error\<close> returns a sum whose left side is the sentinel the error wraps.
\<close>

section \<open>Message types (message.go)\<close>

type_synonym message_type = string

abbreviation MessageHello :: message_type where "MessageHello \<equiv> ''hello''"
abbreviation MessageHelloResponse :: message_type where "MessageHelloResponse \<equiv> ''hello-response''"
abbreviation MessageQuery :: message_type where "MessageQuery \<equiv> ''query''"
abbreviation MessageQueryResponse :: message_type where "MessageQueryResponse \<equiv> ''query-response''"
abbreviation MessageSubscribe :: message_type where "MessageSubscribe \<equiv> ''subscribe''"
abbreviation MessageSubscribeResponse :: message_type where "MessageSubscribeResponse \<equiv> ''subscribe-response''"
abbreviation MessageUnsubscribe :: message_type where "MessageUnsubscribe \<equiv> ''unsubscribe''"
abbreviation MessageUnsubscribeResponse :: message_type where
  "MessageUnsubscribeResponse \<equiv> ''unsubscribe-response''"
abbreviation MessageCommand :: message_type where "MessageCommand \<equiv> ''command''"
abbreviation MessageCommandResponse :: message_type where "MessageCommandResponse \<equiv> ''command-response''"
abbreviation MessageCommandStatus :: message_type where "MessageCommandStatus \<equiv> ''command-status''"
abbreviation MessageCapabilitiesRequest :: message_type where
  "MessageCapabilitiesRequest \<equiv> ''capabilities-request''"
abbreviation MessageCapabilitiesResponse :: message_type where
  "MessageCapabilitiesResponse \<equiv> ''capabilities-response''"
abbreviation MessageEvent :: message_type where "MessageEvent \<equiv> ''event''"
abbreviation MessageError :: message_type where "MessageError \<equiv> ''error''"
abbreviation MessagePing :: message_type where "MessagePing \<equiv> ''ping''"
abbreviation MessagePong :: message_type where "MessagePong \<equiv> ''pong''"
abbreviation MessageClose :: message_type where "MessageClose \<equiv> ''close''"

definition IsKnown :: "message_type \<Rightarrow> bool" where
  "IsKnown t \<longleftrightarrow> t \<in> {MessageHello, MessageHelloResponse, MessageQuery, MessageQueryResponse,
     MessageSubscribe, MessageSubscribeResponse, MessageUnsubscribe, MessageUnsubscribeResponse,
     MessageCommand, MessageCommandResponse, MessageCommandStatus, MessageCapabilitiesRequest,
     MessageCapabilitiesResponse, MessageEvent, MessageError, MessagePing, MessagePong, MessageClose}"

section \<open>Errors and the envelope (errors.go, envelope.go)\<close>

text \<open>
  The four sentinels, then the errors of \<^verbatim>\<open>codec.go\<close> that wrap none of them: the reader's own, a
  frame that is too long, and a text that does not fill the envelope.
\<close>

datatype perr = ErrInvalidProtocol | ErrInvalidVersion | ErrInvalidMessage | ErrUnknownMessage
  | ErrEOF | ErrUnexpectedEOF | ErrRead | ErrTooLong | ErrDecodeJSON

definition ProtocolName :: string where "ProtocolName = ''cockpit-slurm''"
definition ProtocolVersion :: string where "ProtocolVersion = ''1.0''"

record envelope =
  Protocol :: string
  Version :: string
  MessageID :: string
  MsgType :: message_type
  Timestamp :: string
  Payload :: "bytes option"

definition zero_envelope :: envelope where
  "zero_envelope = \<lparr>Protocol = [], Version = [], MessageID = [], MsgType = [], Timestamp = [], Payload = None\<rparr>"

text \<open>\<open>now\<close> is the formatted clock.\<close>

definition NewEnvelope :: "string \<Rightarrow> string \<Rightarrow> message_type \<Rightarrow> bytes option \<Rightarrow> envelope" where
  "NewEnvelope now messageID messageType payload =
     \<lparr>Protocol = ProtocolName, Version = ProtocolVersion, MessageID = messageID, MsgType = messageType,
      Timestamp = now, Payload = payload\<rparr>"

definition ValidateEnvelope :: "envelope \<Rightarrow> perr + unit" where
  "ValidateEnvelope e =
     (if Protocol e = [] then Inl ErrInvalidProtocol
      else if Protocol e \<noteq> ProtocolName then Inl ErrInvalidProtocol
      else if Version e = [] then Inl ErrInvalidVersion
      else if Version e \<noteq> ProtocolVersion then Inl ErrInvalidVersion
      else if MessageID e = [] then Inl ErrInvalidMessage
      else if MsgType e = [] then Inl ErrInvalidMessage
      else if \<not> IsKnown (MsgType e) then Inl ErrUnknownMessage
      else if blen (Payload e) = 0 then Inl ErrInvalidMessage
      else Inr ())"

section \<open>Repeated keys (json\_validation.go)\<close>

text \<open>
  \<^verbatim>\<open>Decoder.Token\<close> on a scalar also converts a number to \<^verbatim>\<open>float64\<close>, which may fail.
\<close>

definition token_ok :: "json \<Rightarrow> bool" where
  "token_ok v = (case v of JNum s \<Rightarrow> \<not> float_overflows s | _ \<Rightarrow> True)"

text \<open>
  \<^verbatim>\<open>consumeJSONValue\<close> and the bodies of its two loops, on the bytes the token reader has left;
  \<open>None\<close> is an error. The loops are entered when \<^verbatim>\<open>decoder.More()\<close> holds.
\<close>

fun consumeJSONValue :: "nat \<Rightarrow> string \<Rightarrow> string option"
and consume_members :: "nat \<Rightarrow> string set \<Rightarrow> string \<Rightarrow> string option"
and consume_elems :: "nat \<Rightarrow> string \<Rightarrow> string option" where
  "consumeJSONValue 0 s = None"
| "consumeJSONValue (Suc n) s =
     (if closes CHR ''{'' s then
        (if closes CHR ''}'' (after_tok s) then Some (after_tok (after_tok s))
         else consume_members n {} (after_tok s))
      else if closes CHR ''['' s then
        (if closes CHR '']'' (after_tok s) then Some (after_tok (after_tok s))
         else consume_elems n (after_tok s))
      else
        (case parse_scalar (skip_ws s) of None \<Rightarrow> None
         | Some (v, r) \<Rightarrow> if token_ok v then Some r else None))"
| "consume_members 0 keys s = None"
| "consume_members (Suc n) keys s =
     (if closes quote s then
        (case parse_str (after_tok s) of None \<Rightarrow> None
         | Some (key, r) \<Rightarrow>
           if key \<in> keys then None
           else if closes CHR '':'' r then
             (case consumeJSONValue n (after_tok r) of None \<Rightarrow> None
              | Some r' \<Rightarrow>
                if closes CHR '','' r' then consume_members n (insert key keys) (after_tok r')
                else if closes CHR ''}'' r' then Some (after_tok r')
                else None)
           else None)
      else None)"
| "consume_elems 0 s = None"
| "consume_elems (Suc n) s =
     (case consumeJSONValue n s of None \<Rightarrow> None
      | Some r \<Rightarrow>
        if closes CHR '','' r then consume_elems n (after_tok r)
        else if closes CHR '']'' r then Some (after_tok r)
        else None)"

definition validateUniqueJSONKeys :: "bytes \<Rightarrow> perr + unit" where
  "validateUniqueJSONKeys data =
     (case consumeJSONValue (fuel data) data of
        None \<Rightarrow> Inl ErrInvalidMessage
      | Some r \<Rightarrow> if skip_ws r = [] then Inr () else Inl ErrInvalidMessage)"

text \<open>
  \<^verbatim>\<open>decoder.Decode(destination)\<close> with unknown fields disallowed, followed by \<^verbatim>\<open>Decode(new(any))\<close>
  that must meet the end: the filled value, whether the first call succeeded and whether only white
  space is left.
\<close>

definition strict_decode ::
  "string list \<Rightarrow> (string \<Rightarrow> bytes \<Rightarrow> 'a \<Rightarrow> 'a \<times> bool) \<Rightarrow> bytes \<Rightarrow> 'a \<Rightarrow> 'a \<times> bool \<times> bool" where
  "strict_decode names put data x =
     (case read_value data of
        None \<Rightarrow> (x, False, False)
      | Some (v, rest) \<Rightarrow>
        if max_depth < jdepth v then (x, False, False)
        else
          (let (y, ok) = decode_struct names put (raw_value data rest) x
           in (y, ok, skip_ws rest = [])))"

section \<open>The codec (codec.go)\<close>

definition FrameHeaderSize :: nat where "FrameHeaderSize = 4"
definition MaxPayloadSize :: nat where "MaxPayloadSize = 4 * 1024 * 1024"

text \<open>
  Writing a \<^verbatim>\<open>RawMessage\<close>: \<^verbatim>\<open>nil\<close> is \<^verbatim>\<open>null\<close>; other bytes must be one JSON value, are stripped
  of white space between tokens and get the HTML escapes.
\<close>

definition is_line_sep :: "string \<Rightarrow> bool" where
  "is_line_sep s \<longleftrightarrow>
     (case s of a # b # c # _ \<Rightarrow> byte_of a = 0xE2 \<and> byte_of b = 0x80 \<and> (byte_of c = 0xA8 \<or> byte_of c = 0xA9)
      | _ \<Rightarrow> False)"

function compact_bytes :: "bool \<Rightarrow> bool \<Rightarrow> string \<Rightarrow> string" where
  "compact_bytes instr esc [] = []"
| "compact_bytes instr esc (c # cs) =
     (if \<not> instr then
        (if is_ws c then compact_bytes False False cs
         else c # compact_bytes (c = quote) False cs)
      else if byte_of c = 60 \<or> byte_of c = 62 \<or> byte_of c = 38 then u_text (byte_of c) @ compact_bytes True False cs
      else if is_line_sep (c # cs) then
        u_text (0x2000 + (byte_of (cs ! 1) - 0x80)) @ compact_bytes True False (drop 2 cs)
      else if esc then c # compact_bytes True False cs
      else c # compact_bytes (c \<noteq> quote) (c = backslash) cs)"
  by pat_completeness auto
termination
  by (relation "measure (\<lambda>(i, e, s). length s)") auto

definition marshal_raw :: "bytes option \<Rightarrow> string option" where
  "marshal_raw p =
     (case p of None \<Rightarrow> Some ''null''
      | Some s \<Rightarrow>
        (case read_text s of None \<Rightarrow> None
         | Some v \<Rightarrow> if max_depth < jdepth v then None else Some (compact_bytes False False s)))"

definition field_text :: "string \<times> string \<Rightarrow> string" where
  "field_text f = (case f of (k, t) \<Rightarrow> string_text k @ CHR '':'' # t)"

definition object_text :: "(string \<times> string) list \<Rightarrow> string" where
  "object_text fs = CHR ''{'' # commas (map field_text fs) @ ''}''"

definition marshal_envelope :: "envelope \<Rightarrow> string option" where
  "marshal_envelope e =
     (case marshal_raw (Payload e) of None \<Rightarrow> None
      | Some p \<Rightarrow> Some (object_text
          ([(''protocol'', string_text (Protocol e)), (''version'', string_text (Version e)),
            (''messageId'', string_text (MessageID e)), (''type'', string_text (MsgType e))] @
           (if Timestamp e = [] then [] else [(''timestamp'', string_text (Timestamp e))]) @
           [(''payload'', p)])))"

definition PutUint32 :: "nat \<Rightarrow> bytes" where
  "PutUint32 n = map (\<lambda>i. char_of (unat (drop_bit (8 * i) (word_of_nat n :: uint32)) mod 256)) [3, 2, 1, 0]"

definition Uint32_of :: "bytes \<Rightarrow> nat" where
  "Uint32_of b = foldl (\<lambda>a c. a * 256 + byte_of c) 0 b"

text \<open>
  The writer: what each \<^verbatim>\<open>Write\<close> call will take and whether it fails; \<open>None\<close> is a call that has not
  returned. An \<^verbatim>\<open>io.Writer\<close> takes at most the bytes it is given.
\<close>

type_synonym write_script = "(nat \<times> bool) list"

datatype werr = ErrMarshal | ErrEmpty | ErrOversize | ErrShortWrite | ErrWrite

fun writeFull :: "write_script \<Rightarrow> bytes \<Rightarrow> bytes \<times> write_script \<times> (werr + unit) option" where
  "writeFull ws [] = ([], ws, Some (Inr ()))"
| "writeFull [] (c # cs) = ([], [], None)"
| "writeFull ((k, failed) # ws) (c # cs) =
     (let n = min k (length (c # cs)) in
      if failed then (take n (c # cs), ws, Some (Inl ErrWrite))
      else if n = 0 then ([], ws, Some (Inl ErrShortWrite))
      else
        (let (out, ws', res) = writeFull ws (drop n (c # cs)) in (take n (c # cs) @ out, ws', res)))"

definition Encode :: "write_script \<Rightarrow> envelope \<Rightarrow> bytes \<times> (werr + unit) option" where
  "Encode ws message =
     (case marshal_envelope message of
        None \<Rightarrow> ([], Some (Inl ErrMarshal))
      | Some payload \<Rightarrow>
        if length payload = 0 then ([], Some (Inl ErrEmpty))
        else if length payload > MaxPayloadSize then ([], Some (Inl ErrOversize))
        else
          (let (out1, ws1, res1) = writeFull ws (PutUint32 (length payload)) in
           case res1 of
             Some (Inr _) \<Rightarrow> (let (out2, ws2, res2) = writeFull ws1 payload in (out1 @ out2, res2))
           | r \<Rightarrow> (out1, r)))"

text \<open>The reader: the bytes that will arrive and how the stream ends after them.\<close>

record reader =
  incoming :: bytes
  broken :: bool

definition ReadFull :: "nat \<Rightarrow> reader \<Rightarrow> reader \<times> (perr + bytes)" where
  "ReadFull n r =
     (if n \<le> length (incoming r) then (r\<lparr>incoming := drop n (incoming r)\<rparr>, Inr (take n (incoming r)))
      else (r\<lparr>incoming := []\<rparr>,
            Inl (if broken r then ErrRead else if incoming r = [] then ErrEOF else ErrUnexpectedEOF)))"

definition put_string :: "((string \<Rightarrow> string) \<Rightarrow> 'a \<Rightarrow> 'a) \<Rightarrow> string \<Rightarrow> bytes \<Rightarrow> 'a \<Rightarrow> 'a \<times> bool" where
  "put_string upd old raw x = (let (s, ok) = decode_string raw old in (upd (\<lambda>_. s) x, ok))"

definition envelope_fields :: "string list" where
  "envelope_fields = [''protocol'', ''version'', ''messageId'', ''type'', ''timestamp'', ''payload'']"

definition put_envelope :: "string \<Rightarrow> bytes \<Rightarrow> envelope \<Rightarrow> envelope \<times> bool" where
  "put_envelope f raw e =
     (if f = ''protocol'' then put_string Protocol_update (Protocol e) raw e
      else if f = ''version'' then put_string Version_update (Version e) raw e
      else if f = ''messageId'' then put_string MessageID_update (MessageID e) raw e
      else if f = ''type'' then put_string MsgType_update (MsgType e) raw e
      else if f = ''timestamp'' then put_string Timestamp_update (Timestamp e) raw e
      else (e\<lparr>Payload := Some raw\<rparr>, True))"

text \<open>The text of one frame. The envelope is returned with an error too, as far as it was filled.\<close>

definition decode_payload :: "bytes \<Rightarrow> envelope \<times> (perr + unit)" where
  "decode_payload payload =
     (case validateUniqueJSONKeys payload of
        Inl err \<Rightarrow> (zero_envelope, Inl err)
      | Inr _ \<Rightarrow>
        (let (e, ok, at_end) = strict_decode envelope_fields put_envelope payload zero_envelope in
         if \<not> ok then (e, Inl ErrDecodeJSON)
         else if \<not> at_end then (e, Inl ErrInvalidMessage)
         else (e, ValidateEnvelope e)))"

definition Decode :: "reader \<Rightarrow> reader \<times> envelope \<times> (perr + unit)" where
  "Decode r =
     (case ReadFull FrameHeaderSize r of
        (r1, Inl err) \<Rightarrow> (r1, zero_envelope, Inl err)
      | (r1, Inr header) \<Rightarrow>
        (let len = Uint32_of header in
         if len = 0 then (r1, zero_envelope, Inl ErrInvalidMessage)
         else if len > MaxPayloadSize then (r1, zero_envelope, Inl ErrTooLong)
         else
           (case ReadFull len r1 of
              (r2, Inl err) \<Rightarrow> (r2, zero_envelope, Inl err)
            | (r2, Inr payload) \<Rightarrow> (let (e, res) = decode_payload payload in (r2, e, res)))))"

section \<open>Command and error payloads (command.go)\<close>

record node_command_target =
  NodeName :: string

record node_command_parameters =
  State :: string
  Reason :: "string option"

record node_command_request =
  CommandID :: string
  Resource :: string
  Command :: string
  Target :: node_command_target
  Parameters :: node_command_parameters

abbreviation CommandStatusRunning :: string where "CommandStatusRunning \<equiv> ''running''"
abbreviation CommandStatusSucceeded :: string where "CommandStatusSucceeded \<equiv> ''succeeded''"
abbreviation CommandStatusFailed :: string where "CommandStatusFailed \<equiv> ''failed''"
abbreviation CommandStatusDenied :: string where "CommandStatusDenied \<equiv> ''denied''"
abbreviation CommandStatusUnknown :: string where "CommandStatusUnknown \<equiv> ''unknown''"

definition Valid_status :: "string \<Rightarrow> bool" where
  "Valid_status s \<longleftrightarrow> s \<in> {CommandStatusRunning, CommandStatusSucceeded, CommandStatusFailed,
     CommandStatusDenied, CommandStatusUnknown}"

record node_command_response =
  rsp_CommandID :: string
  rsp_Resource :: string
  rsp_Command :: string
  rsp_Target :: "node_command_target option"
  rsp_Parameters :: "node_command_parameters option"
  rsp_Status :: string

record command_status_payload =
  sts_CommandID :: string
  sts_Status :: string

datatype error_category = CatAuthentication | CatAuthorization | CatValidation | CatNotFound
  | CatConflict | CatSlurm | CatTimeout | CatInternal | CatProtocol

datatype error_code = CodeInvalidCommand | CodeInvalidPayload | CodeIdentityUnavailable
  | CodeUserLookupFailed | CodeAuthorizationDenied | CodeCapabilityUnavailable
  | CodeLedgerPersistenceFailed | CodeAuthorizationOutcomeUnknown | CodeCommandIDConflict
  | CodeMessageIDConflict | CodeCommandOutcomeUnknown | CodeCommandTimeout | CodeSlurmCommandFailed
  | CodeUnsupportedMessageType | CodeInternal

fun category_text :: "error_category \<Rightarrow> string" where
  "category_text CatAuthentication = ''authentication-error''"
| "category_text CatAuthorization = ''authorization-error''"
| "category_text CatValidation = ''validation-error''"
| "category_text CatNotFound = ''not-found''"
| "category_text CatConflict = ''conflict''"
| "category_text CatSlurm = ''slurm-error''"
| "category_text CatTimeout = ''timeout''"
| "category_text CatInternal = ''internal-error''"
| "category_text CatProtocol = ''protocol-error''"

fun code_text :: "error_code \<Rightarrow> string" where
  "code_text CodeInvalidCommand = ''invalid-command''"
| "code_text CodeInvalidPayload = ''invalid-payload''"
| "code_text CodeIdentityUnavailable = ''identity-unavailable''"
| "code_text CodeUserLookupFailed = ''user-lookup-failed''"
| "code_text CodeAuthorizationDenied = ''authorization-denied''"
| "code_text CodeCapabilityUnavailable = ''capability-unavailable''"
| "code_text CodeLedgerPersistenceFailed = ''ledger-persistence-failed''"
| "code_text CodeAuthorizationOutcomeUnknown = ''authorization-outcome-unknown''"
| "code_text CodeCommandIDConflict = ''command-id-conflict''"
| "code_text CodeMessageIDConflict = ''message-id-conflict''"
| "code_text CodeCommandOutcomeUnknown = ''command-outcome-unknown''"
| "code_text CodeCommandTimeout = ''command-timeout''"
| "code_text CodeSlurmCommandFailed = ''slurm-command-failed''"
| "code_text CodeUnsupportedMessageType = ''unsupported-message-type''"
| "code_text CodeInternal = ''internal-error''"

text \<open>The two types are strings in the program; a payload read from storage may hold any.\<close>

record error_payload =
  Code :: string
  Category :: string
  ErrMessage :: string
  Retryable :: bool
  err_CommandID :: string
  err_Resource :: string
  err_Target :: "node_command_target option"

text \<open>An error payload without the optional fields.\<close>

definition plain_error :: "error_code \<Rightarrow> error_category \<Rightarrow> string \<Rightarrow> bool \<Rightarrow> error_payload" where
  "plain_error c k msg retry =
     \<lparr>Code = code_text c, Category = category_text k, ErrMessage = msg, Retryable = retry, err_CommandID = [], err_Resource = [],
      err_Target = None\<rparr>"

definition opt_field :: "string \<Rightarrow> string \<Rightarrow> (string \<times> json) list" where
  "opt_field k s = (if s = [] then [] else [(k, JStr s)])"

definition target_json :: "node_command_target \<Rightarrow> json" where
  "target_json t = JObj [(''nodeName'', JStr (NodeName t))]"

definition opt_target :: "node_command_target option \<Rightarrow> (string \<times> json) list" where
  "opt_target t = (case t of None \<Rightarrow> [] | Some x \<Rightarrow> [(''target'', target_json x)])"

definition parameters_json :: "node_command_parameters \<Rightarrow> json" where
  "parameters_json p =
     JObj ((''state'', JStr (State p)) # (case Reason p of None \<Rightarrow> [] | Some r \<Rightarrow> [(''reason'', JStr r)]))"

definition request_json :: "node_command_request \<Rightarrow> json" where
  "request_json r = JObj [(''commandId'', JStr (CommandID r)), (''resource'', JStr (Resource r)),
     (''command'', JStr (Command r)), (''target'', target_json (Target r)),
     (''parameters'', parameters_json (Parameters r))]"

definition response_json :: "node_command_response \<Rightarrow> json" where
  "response_json r = JObj ([(''commandId'', JStr (rsp_CommandID r)), (''resource'', JStr (rsp_Resource r)),
     (''command'', JStr (rsp_Command r))] @ opt_target (rsp_Target r) @
     (case rsp_Parameters r of None \<Rightarrow> [] | Some p \<Rightarrow> [(''parameters'', parameters_json p)]) @
     [(''status'', JStr (rsp_Status r))])"

definition status_json :: "command_status_payload \<Rightarrow> json" where
  "status_json s = JObj [(''commandId'', JStr (sts_CommandID s)), (''status'', JStr (sts_Status s))]"

definition error_json :: "error_payload \<Rightarrow> json" where
  "error_json p = JObj ([(''code'', JStr (Code p)), (''category'', JStr (Category p)),
     (''message'', JStr (ErrMessage p)), (''retryable'', JBool (Retryable p))] @
     opt_field ''commandId'' (err_CommandID p) @ opt_field ''resource'' (err_Resource p) @
     opt_target (err_Target p))"

text \<open>Marshalling an error payload cannot fail: it holds strings and a boolean.\<close>

definition NewErrorEnvelope :: "string \<Rightarrow> string \<Rightarrow> error_payload \<Rightarrow> envelope" where
  "NewErrorEnvelope now messageID payload =
     NewEnvelope now messageID MessageError (Some (json_text (error_json payload)))"

definition decodeStrictPayload ::
  "string list \<Rightarrow> (string \<Rightarrow> bytes \<Rightarrow> 'a \<Rightarrow> 'a \<times> bool) \<Rightarrow> 'a \<Rightarrow> bytes \<Rightarrow> perr + 'a" where
  "decodeStrictPayload names put zero payload =
     (let trimmed = TrimSpace payload in
      if length trimmed = 0 \<or> hd trimmed \<noteq> CHR ''{'' then Inl ErrInvalidMessage
      else
        (case validateUniqueJSONKeys trimmed of
           Inl err \<Rightarrow> Inl err
         | Inr _ \<Rightarrow>
           (let (x, ok, at_end) = strict_decode names put trimmed zero in
            if \<not> ok then Inl ErrInvalidMessage
            else if \<not> at_end then Inl ErrInvalidMessage
            else Inr x)))"

definition validCommandID :: "string \<Rightarrow> bool" where
  "validCommandID commandID \<longleftrightarrow>
     \<not> (commandID = [] \<or> length commandID > 128) \<and>
     list_all (\<lambda>char. is_lower char \<or> is_upper char \<or> is_digit char \<or> char = 45 \<or> char = 95 \<or> char = 46)
       (runes commandID)"

text \<open>The anonymous struct the request is read into: the reason stays raw.\<close>

record wire_parameters =
  w_State :: string
  w_Reason :: "bytes option"

record wire_request =
  w_CommandID :: string
  w_Resource :: string
  w_Command :: string
  w_Target :: node_command_target
  w_Parameters :: wire_parameters

definition zero_wire :: wire_request where
  "zero_wire = \<lparr>w_CommandID = [], w_Resource = [], w_Command = [], w_Target = \<lparr>NodeName = []\<rparr>,
     w_Parameters = \<lparr>w_State = [], w_Reason = None\<rparr>\<rparr>"

definition put_target :: "string \<Rightarrow> bytes \<Rightarrow> node_command_target \<Rightarrow> node_command_target \<times> bool" where
  "put_target f raw t = put_string NodeName_update (NodeName t) raw t"

definition put_wire_parameters :: "string \<Rightarrow> bytes \<Rightarrow> wire_parameters \<Rightarrow> wire_parameters \<times> bool" where
  "put_wire_parameters f raw p =
     (if f = ''state'' then put_string w_State_update (w_State p) raw p
      else (p\<lparr>w_Reason := Some raw\<rparr>, True))"

definition put_wire :: "string \<Rightarrow> bytes \<Rightarrow> wire_request \<Rightarrow> wire_request \<times> bool" where
  "put_wire f raw w =
     (if f = ''commandId'' then put_string w_CommandID_update (w_CommandID w) raw w
      else if f = ''resource'' then put_string w_Resource_update (w_Resource w) raw w
      else if f = ''command'' then put_string w_Command_update (w_Command w) raw w
      else if f = ''target'' then
        (let (t, ok) = decode_struct [''nodeName''] put_target raw (w_Target w) in (w\<lparr>w_Target := t\<rparr>, ok))
      else
        (let (p, ok) = decode_struct [''state'', ''reason''] put_wire_parameters raw (w_Parameters w)
         in (w\<lparr>w_Parameters := p\<rparr>, ok)))"

definition request_fields :: "string list" where
  "request_fields = [''commandId'', ''resource'', ''command'', ''target'', ''parameters'']"

definition DecodeNodeCommandRequestPayload :: "bytes option \<Rightarrow> perr + node_command_request" where
  "DecodeNodeCommandRequestPayload payload =
     (case decodeStrictPayload request_fields put_wire zero_wire (case payload of None \<Rightarrow> [] | Some p \<Rightarrow> p) of
        Inl err \<Rightarrow> Inl err
      | Inr wire \<Rightarrow>
        (let request = \<lparr>CommandID = w_CommandID wire, Resource = w_Resource wire, Command = w_Command wire,
               Target = w_Target wire, Parameters = \<lparr>State = w_State (w_Parameters wire), Reason = None\<rparr>\<rparr>;
             raw = w_Reason (w_Parameters wire)
         in
         if \<not> validCommandID (CommandID request) \<or> Resource request \<noteq> ''node'' \<or> Command request \<noteq> ''update''
         then Inl ErrInvalidMessage
         else if NodeName (Target request) = [] \<or> length (NodeName (Target request)) > 255
         then Inl ErrInvalidMessage
         else if State (Parameters request) = ''DRAIN'' then
           (if blen raw = 0 \<or> TrimSpace (the raw) = ''null'' then Inl ErrInvalidMessage
            else
              (case read_text (the raw) of
                 Some (JStr reason) \<Rightarrow>
                   if TrimSpace reason = [] \<or> length reason > 256 then Inl ErrInvalidMessage
                   else if list_ex IsControl (runes reason) then Inl ErrInvalidMessage
                   else Inr (request\<lparr>Parameters := (Parameters request)\<lparr>Reason := Some reason\<rparr>\<rparr>)
               | _ \<Rightarrow> Inl ErrInvalidMessage))
         else if State (Parameters request) = ''RESUME'' then
           (if blen raw \<noteq> 0 then Inl ErrInvalidMessage else Inr request)
         else Inl ErrInvalidMessage))"

definition put_parameters :: "string \<Rightarrow> bytes \<Rightarrow> node_command_parameters \<Rightarrow> node_command_parameters \<times> bool" where
  "put_parameters f raw p =
     (if f = ''state'' then put_string State_update (State p) raw p
      else (let (r, ok) = decode_string_ptr raw (Reason p) in (p\<lparr>Reason := r\<rparr>, ok)))"

text \<open>A pointer to a struct: \<^verbatim>\<open>null\<close> makes it \<^verbatim>\<open>nil\<close>, anything else allocates it first.\<close>

definition decode_ptr ::
  "string list \<Rightarrow> (string \<Rightarrow> bytes \<Rightarrow> 'a \<Rightarrow> 'a \<times> bool) \<Rightarrow> 'a \<Rightarrow> bytes \<Rightarrow> 'a option \<Rightarrow> 'a option \<times> bool" where
  "decode_ptr names put zero raw old =
     (if read_text raw = Some JNull then (None, True)
      else (let (x, ok) = decode_struct names put raw (case old of None \<Rightarrow> zero | Some y \<Rightarrow> y) in (Some x, ok)))"

definition put_response :: "string \<Rightarrow> bytes \<Rightarrow> node_command_response \<Rightarrow> node_command_response \<times> bool" where
  "put_response f raw r =
     (if f = ''commandId'' then put_string rsp_CommandID_update (rsp_CommandID r) raw r
      else if f = ''resource'' then put_string rsp_Resource_update (rsp_Resource r) raw r
      else if f = ''command'' then put_string rsp_Command_update (rsp_Command r) raw r
      else if f = ''target'' then
        (let (t, ok) = decode_ptr [''nodeName''] put_target \<lparr>NodeName = []\<rparr> raw (rsp_Target r)
         in (r\<lparr>rsp_Target := t\<rparr>, ok))
      else if f = ''parameters'' then
        (let (p, ok) = decode_ptr [''state'', ''reason''] put_parameters \<lparr>State = [], Reason = None\<rparr> raw (rsp_Parameters r)
         in (r\<lparr>rsp_Parameters := p\<rparr>, ok))
      else put_string rsp_Status_update (rsp_Status r) raw r)"

definition zero_response :: node_command_response where
  "zero_response = \<lparr>rsp_CommandID = [], rsp_Resource = [], rsp_Command = [], rsp_Target = None,
     rsp_Parameters = None, rsp_Status = []\<rparr>"

definition DecodeNodeCommandResponsePayload :: "bytes \<Rightarrow> perr + node_command_response" where
  "DecodeNodeCommandResponsePayload payload =
     (case decodeStrictPayload
        [''commandId'', ''resource'', ''command'', ''target'', ''parameters'', ''status''] put_response zero_response payload of
        Inl err \<Rightarrow> Inl err
      | Inr response \<Rightarrow>
        if rsp_CommandID response = [] \<or> rsp_Resource response \<noteq> ''node'' \<or> rsp_Command response \<noteq> ''update'' \<or>
           \<not> Valid_status (rsp_Status response)
        then Inl ErrInvalidMessage
        else Inr response)"

definition put_status :: "string \<Rightarrow> bytes \<Rightarrow> command_status_payload \<Rightarrow> command_status_payload \<times> bool" where
  "put_status f raw s =
     (if f = ''commandId'' then put_string sts_CommandID_update (sts_CommandID s) raw s
      else put_string sts_Status_update (sts_Status s) raw s)"

definition DecodeCommandStatusPayload :: "bytes \<Rightarrow> perr + command_status_payload" where
  "DecodeCommandStatusPayload payload =
     (case decodeStrictPayload [''commandId'', ''status''] put_status \<lparr>sts_CommandID = [], sts_Status = []\<rparr> payload of
        Inl err \<Rightarrow> Inl err
      | Inr s \<Rightarrow> if sts_CommandID s = [] \<or> \<not> Valid_status (sts_Status s) then Inl ErrInvalidMessage else Inr s)"

section \<open>Capability payloads (capabilities.go)\<close>

record node_capabilities =
  NodesDrain :: bool
  NodesResume :: bool

definition capabilities_json :: "node_capabilities \<Rightarrow> json" where
  "capabilities_json c = JObj [(''capabilities'',
     JObj [(''nodes.drain'', JBool (NodesDrain c)), (''nodes.resume'', JBool (NodesResume c))])]"

text \<open>The request has no fields, so any member is unknown.\<close>

definition DecodeCapabilitiesRequestPayload :: "bytes \<Rightarrow> perr + unit" where
  "DecodeCapabilitiesRequestPayload payload = decodeStrictPayload [] (\<lambda>f raw x. (x, True)) () payload"

record wire_capabilities =
  w_NodesDrain :: "bool option"
  w_NodesResume :: "bool option"

definition put_capabilities :: "string \<Rightarrow> bytes \<Rightarrow> wire_capabilities \<Rightarrow> wire_capabilities \<times> bool" where
  "put_capabilities f raw w =
     (if f = ''nodes.drain'' then
        (let (b, ok) = decode_bool_ptr raw (w_NodesDrain w) in (w\<lparr>w_NodesDrain := b\<rparr>, ok))
      else (let (b, ok) = decode_bool_ptr raw (w_NodesResume w) in (w\<lparr>w_NodesResume := b\<rparr>, ok)))"

definition DecodeCapabilitiesResponsePayload :: "bytes \<Rightarrow> perr + node_capabilities" where
  "DecodeCapabilitiesResponsePayload payload =
     (case decodeStrictPayload [''capabilities'']
        (\<lambda>f raw x. decode_ptr [''nodes.drain'', ''nodes.resume''] put_capabilities
           \<lparr>w_NodesDrain = None, w_NodesResume = None\<rparr> raw x) None payload of
        Inl err \<Rightarrow> Inl err
      | Inr None \<Rightarrow> Inl ErrInvalidMessage
      | Inr (Some w) \<Rightarrow>
        (case (w_NodesDrain w, w_NodesResume w) of
           (Some d, Some r) \<Rightarrow> Inr \<lparr>NodesDrain = d, NodesResume = r\<rparr>
         | _ \<Rightarrow> Inl ErrInvalidMessage))"

end
