(* ===== verification/Go_Json_Facts.thy ===== *)
theory Go_Json_Facts
  imports Go_Json
begin

text \<open>
  Facts about the JSON reader and writer: the reader consumes input, its fuel is enough, and a
  written value reads back as itself, whatever follows it.
\<close>

section \<open>White space and tokens\<close>

lemma skip_ws_length: "length (skip_ws s) \<le> length s"
  by (simp add: skip_ws_def length_dropWhile_le)

lemma after_tok_length: "closes c s \<Longrightarrow> length (after_tok s) < length s"
  using skip_ws_length [of s] by (auto simp: closes_def after_tok_def split: list.splits)

lemma skip_ws_Cons [simp]: "\<not> is_ws c \<Longrightarrow> skip_ws (c # s) = c # s"
  by (simp add: skip_ws_def)

lemma closes_Cons [simp]: "\<not> is_ws c \<Longrightarrow> closes d (c # s) \<longleftrightarrow> c = d"
  by (simp add: closes_def)

lemma after_tok_Cons [simp]: "\<not> is_ws c \<Longrightarrow> after_tok (c # s) = s"
  by (simp add: after_tok_def)

lemma not_ws_tokens [simp]:
  "\<not> is_ws quote" "\<not> is_ws CHR ''{''" "\<not> is_ws CHR ''}''" "\<not> is_ws CHR ''[''" "\<not> is_ws CHR '']''"
  "\<not> is_ws CHR '',''" "\<not> is_ws CHR '':''" "\<not> is_ws CHR ''t''" "\<not> is_ws CHR ''f''" "\<not> is_ws CHR ''n''"
  "\<not> is_ws CHR ''-''"
  by (simp_all add: is_ws_def quote_def)

lemma quote_neq [simp]:
  "quote \<noteq> CHR ''{''" "quote \<noteq> CHR ''}''" "quote \<noteq> CHR ''[''" "quote \<noteq> CHR '']''" "quote \<noteq> CHR '',''"
  "quote \<noteq> CHR '':''"
  by (simp_all add: quote_def)

lemmas neq_quote [simp] = quote_neq [symmetric]

lemma backslash_facts [simp]: "backslash \<noteq> quote" "quote \<noteq> backslash" "byte_of backslash = 92" "byte_of quote = 34"
  by (simp_all add: backslash_def quote_def)

lemma char_of_facts [simp]: "char_of (34::nat) = quote" "char_of (92::nat) = backslash"
  by (metis backslash_facts(4) char_of_char, metis backslash_facts(3) char_of_char)

lemma simple_escape_self [simp]: "simple_escape quote = Some quote" "simple_escape backslash = Some backslash"
  by (simp_all add: simple_escape_def quote_def)

lemma quote_letters [simp]: "quote \<noteq> CHR ''u''" "backslash \<noteq> CHR ''u''"
  by (simp_all add: quote_def backslash_def)

lemma dig_not_ws: "is_dig c \<Longrightarrow> \<not> is_ws c"
  by (auto simp: is_dig_def is_ws_def)

section \<open>Consumption\<close>

lemma scan_digits_length: "scan_digits s = Some (d, r) \<Longrightarrow> length r < length s"
  by (cases s) (auto simp: scan_digits_def less_Suc_eq_le length_dropWhile_le split: if_splits)

lemma scan_sign_length: "length (snd (scan_sign S s)) \<le> length s"
  by (auto simp: scan_sign_def split: list.splits)

lemma scan_int_length: "scan_int s = Some (d, r) \<Longrightarrow> length r < length s"
  by (auto simp: scan_int_def dest: scan_digits_length split: list.splits if_splits)

lemma scan_frac_length: "scan_frac s = Some (d, r) \<Longrightarrow> length r \<le> length s"
  by (cases s) (auto simp: scan_frac_def dest!: scan_digits_length split: if_splits)

lemma scan_exp_length: "scan_exp s = Some (d, r) \<Longrightarrow> length r \<le> length s"
  using scan_sign_length [of "{CHR ''+'', CHR ''-''}" "tl s"]
  by (cases s) (auto simp: scan_exp_def case_prod_beta dest!: scan_digits_length split: if_splits)

lemma scan_number_length: "scan_number s = Some (d, r) \<Longrightarrow> length r < length s"
  using scan_sign_length [of "{CHR ''-''}" s]
  by (fastforce simp: scan_number_def case_prod_beta
      dest: scan_int_length scan_frac_length scan_exp_length split: option.splits)

lemma parse_str_length: "parse_str s = Some (v, r) \<Longrightarrow> length r < length s"
proof (induction s arbitrary: v rule: parse_str.induct)
  case (2 c cs)
  from "2.prems" consider "r = cs"
    | e es rr n v' where "cs = e # es" "u_escape es = Some (rr, n)" "parse_str (drop n es) = Some (v', r)"
        "\<not> c = quote" "\<not> byte_of c < 0x20" "c = backslash" "e = CHR ''u''"
    | e es x v' where "cs = e # es" "simple_escape e = Some x" "parse_str es = Some (v', r)"
        "\<not> c = quote" "\<not> byte_of c < 0x20" "c = backslash" "e \<noteq> CHR ''u''"
    | v' where "parse_str (drop (snd (decode_rune (c # cs)) - 1) cs) = Some (v', r)"
        "\<not> c = quote" "\<not> byte_of c < 0x20" "c \<noteq> backslash"
    by (auto simp: cons_str_def case_prod_beta Let_def split: if_splits list.splits option.splits)
  then show ?case
  proof cases
    case 1 then show ?thesis by simp
  next
    case 2 with "2.IH"(1) show ?thesis by fastforce
  next
    case 3 with "2.IH"(2) show ?thesis by fastforce
  next
    case 4
    with "2.IH"(3) [of "decode_rune (c # cs)" "fst (decode_rune (c # cs))" "snd (decode_rune (c # cs))"]
    show ?thesis by fastforce
  qed
qed simp

lemma literal_length: "literal w v s = Some (x, r) \<Longrightarrow> w \<noteq> [] \<Longrightarrow> length r < length s"
  by (cases s) (auto simp: literal_def split: if_splits)

lemma parse_scalar_length: "parse_scalar s = Some (v, r) \<Longrightarrow> length r < length s"
  by (cases s) (auto simp: parse_scalar_def dest!: parse_str_length literal_length scan_number_length
      split: if_splits)

text \<open>The successful results of the reader, one step unfolded.\<close>

lemma closes_unique: "closes c s \<Longrightarrow> closes d s \<longleftrightarrow> d = c"
  by (auto simp: closes_def split: list.splits)

lemma parse_val_Suc_iff:
  "parse_val (Suc n) s = Some (v, r) \<longleftrightarrow>
     (closes CHR ''{'' s \<and>
        (closes CHR ''}'' (after_tok s) \<and> v = JObj [] \<and> r = after_tok (after_tok s) \<or>
         \<not> closes CHR ''}'' (after_tok s) \<and> (\<exists>ms. parse_members n (after_tok s) = Some (ms, r) \<and> v = JObj ms))) \<or>
     (closes CHR ''['' s \<and>
        (closes CHR '']'' (after_tok s) \<and> v = JArr [] \<and> r = after_tok (after_tok s) \<or>
         \<not> closes CHR '']'' (after_tok s) \<and> (\<exists>vs. parse_elems n (after_tok s) = Some (vs, r) \<and> v = JArr vs))) \<or>
     (\<not> closes CHR ''{'' s \<and> \<not> closes CHR ''['' s \<and> parse_scalar (skip_ws s) = Some (v, r))"
  using closes_unique [of "CHR ''{''" s "CHR ''[''"] by auto

lemma parse_elems_Suc_iff:
  "parse_elems (Suc n) s = Some (vs, r) \<longleftrightarrow>
     (\<exists>v u. parse_val n s = Some (v, u) \<and>
        (closes CHR '','' u \<and> (\<exists>ws. parse_elems n (after_tok u) = Some (ws, r) \<and> vs = v # ws) \<or>
         closes CHR '']'' u \<and> vs = [v] \<and> r = after_tok u))"
  using closes_unique [of "CHR '',''" _ "CHR '']''"] by (auto split: option.splits if_splits)

lemma parse_members_Suc_iff:
  "parse_members (Suc n) s = Some (ms, r) \<longleftrightarrow>
     (\<exists>k r1 v u. closes quote s \<and> parse_str (after_tok s) = Some (k, r1) \<and> closes CHR '':'' r1 \<and>
        parse_val n (after_tok r1) = Some (v, u) \<and>
        (closes CHR '','' u \<and> (\<exists>ns. parse_members n (after_tok u) = Some (ns, r) \<and> ms = (k, v) # ns) \<or>
         closes CHR ''}'' u \<and> ms = [(k, v)] \<and> r = after_tok u))"
  using closes_unique [of "CHR '',''" _ "CHR ''}''"] by (auto split: option.splits if_splits)

declare parse_val.simps(2) [simp del] parse_elems.simps(2) [simp del] parse_members.simps(2) [simp del]

lemmas parse_iff = parse_val_Suc_iff parse_elems_Suc_iff parse_members_Suc_iff

lemma parse_length:
  "parse_val n s = Some (v, r) \<Longrightarrow> length r < length s"
  "parse_elems n s = Some (vs, r) \<Longrightarrow> length r < length s"
  "parse_members n s = Some (ms, r) \<Longrightarrow> length r < length s"
proof (induction n arbitrary: s v vs ms r)
  case (Suc n)
  { case 1
    then show ?case
      using skip_ws_length [of s] unfolding parse_iff
      by (fastforce dest: parse_scalar_length Suc.IH after_tok_length)
  next
    case 2
    then show ?case
      unfolding parse_iff by (fastforce dest: Suc.IH after_tok_length)
  next
    case 3
    then show ?case
      unfolding parse_iff by (fastforce dest: Suc.IH after_tok_length parse_str_length) }
qed simp_all

section \<open>Fuel\<close>

lemma parse_fuel:
  "parse_val n s = Some (v, r) \<Longrightarrow> 2 * length s + 1 \<le> m \<Longrightarrow> parse_val m s = Some (v, r)"
  "parse_elems n s = Some (vs, r) \<Longrightarrow> 2 * length s + 2 \<le> m \<Longrightarrow> parse_elems m s = Some (vs, r)"
  "parse_members n s = Some (ms, r) \<Longrightarrow> 2 * length s + 2 \<le> m \<Longrightarrow> parse_members m s = Some (ms, r)"
proof (induction n arbitrary: s v vs ms r m)
  case (Suc n)
  { case 1
    then obtain m' where m: "m = Suc m'" "2 * length s \<le> m'"
      by (cases m) auto
    have "2 * length (after_tok s) + 2 \<le> m'" if "closes c s" for c
      using after_tok_length [OF that] m by simp
    with 1 show ?case
      unfolding parse_iff m(1) by (fast dest: Suc.IH)
  next
    case 2
    then obtain m' where m: "m = Suc m'" "2 * length s + 1 \<le> m'"
      by (cases m) auto
    have "2 * length (after_tok u) + 2 \<le> m'" if "closes c u" "parse_val n s = Some (v, u)" for c v u
      using after_tok_length [OF that(1)] parse_length(1) [OF that(2)] m by simp
    with 2 m show ?case
      unfolding parse_iff m(1) by (fast dest: Suc.IH)
  next
    case 3
    then obtain m' where m: "m = Suc m'" "2 * length s + 1 \<le> m'"
      by (cases m) auto
    have l: "2 * length (after_tok r1) + 1 \<le> m'"
      if "closes quote s" "parse_str (after_tok s) = Some (k, r1)" "closes CHR '':'' r1" for k r1
      using after_tok_length [OF that(1)] after_tok_length [OF that(3)] parse_str_length [OF that(2)] m
      by simp
    have "2 * length (after_tok u) + 2 \<le> m'"
      if "closes quote s" "parse_str (after_tok s) = Some (k, r1)" "closes CHR '':'' r1"
        "parse_val n (after_tok r1) = Some (v, u)" "closes c u" for k r1 v u c
      using after_tok_length [OF that(1)] after_tok_length [OF that(3)] parse_str_length [OF that(2)]
        parse_length(1) [OF that(4)] after_tok_length [OF that(5)] m
      by simp
    with 3 m l show ?case
      unfolding parse_iff m(1) by (fast dest: Suc.IH) }
qed simp_all

lemma read_value_iff: "read_value s = Some (v, r) \<longleftrightarrow> (\<exists>n. parse_val n s = Some (v, r))"
  unfolding read_value_def fuel_def by (auto intro: parse_fuel(1))

section \<open>Strings read back\<close>

text \<open>A rune that is not a decoding error is decided by its own bytes.\<close>

lemma decode2_local:
  "decode2 c cs = (r, n) \<Longrightarrow> n \<noteq> 1 \<Longrightarrow> decode2 c (take (n - 1) cs @ u) = (r, n) \<and> n \<le> Suc (length cs)"
  by (auto simp: decode2_def split: list.splits if_splits)

lemma decode3_local:
  "decode3 c cs = (r, n) \<Longrightarrow> n \<noteq> 1 \<Longrightarrow> decode3 c (take (n - 1) cs @ u) = (r, n) \<and> n \<le> Suc (length cs)"
  by (auto simp: decode3_def split: list.splits if_splits)

lemma decode4_local:
  "decode4 c cs = (r, n) \<Longrightarrow> n \<noteq> 1 \<Longrightarrow> decode4 c (take (n - 1) cs @ u) = (r, n) \<and> n \<le> Suc (length cs)"
  by (auto simp: decode4_def split: list.splits if_splits)

lemma decode_rune_local:
  assumes "decode_rune (c # cs) = (r, n)" "n \<noteq> 1"
  shows "decode_rune (take n (c # cs) @ u) = (r, n)"
  using assms decode_rune_size(1) [of "c # cs"]
    decode2_local [of c cs r n u] decode3_local [of c cs r n u] decode4_local [of c cs r n u]
  by (auto simp: decode_rune_def take_Cons' split: if_split_asm)

lemma decode_rune_one:
  "decode_rune (c # cs) = (r, 1) \<Longrightarrow> \<not> byte_of c < 0x80 \<Longrightarrow> r = RuneError"
  by (auto simp: decode_rune_def decode2_def decode3_def decode4_def split: if_split_asm list.splits)

lemma hex_val_hex_digit: "n < 16 \<Longrightarrow> hex_val (hex_digit n) = Some n"
  by (auto simp: hex_val_def hex_digit_def Let_def)

lemma hex_digits:
  fixes r :: nat
  assumes "r < 0x10000"
  shows "r div 4096 mod 16 * 4096 + r div 256 mod 16 * 256 + r div 16 mod 16 * 16 + r mod 16 = r"
proof -
  have "r div 16 div 16 = r div 256" "r div 256 div 16 = r div 4096"
    by (simp_all flip: div_mult2_eq)
  moreover have "r div 4096 mod 16 = r div 4096"
    using assms by (simp add: less_mult_imp_div_less)
  ultimately show ?thesis
    using div_mult_mod_eq [of r 16] div_mult_mod_eq [of "r div 16" 16] div_mult_mod_eq [of "r div 256" 16]
    by linarith
qed

lemma hex4_u_text: "r < 0x10000 \<Longrightarrow> hex4 (tl (tl (u_text r)) @ t) = Some r"
  using hex_digits [of r] by (simp add: u_text_def hex4_def hex_val_hex_digit)

lemma parse_str_u_text:
  assumes "r < 0x10000" "\<not> is_surrogate r"
  shows "parse_str (u_text r @ t) = cons_str (encode_rune r) (parse_str t)"
proof -
  obtain a b c d where u: "u_text r = [backslash, CHR ''u'', a, b, c, d]"
    by (simp add: u_text_def)
  have "u_escape ([a, b, c, d] @ t) = Some (r, 4)"
    using hex4_u_text [OF assms(1), of t] assms(2) u by (simp add: u_escape_def)
  then show ?thesis
    using u by simp
qed

text \<open>What a written string reads back as: itself, unless it is not valid UTF-8.\<close>

definition sanitize :: "string \<Rightarrow> string" where
  "sanitize s = concat (map (\<lambda>(r, bs). if r = RuneError then encode_rune RuneError else bs) (rune_segments s))"

lemma parse_str_ascii_text:
  assumes "byte_of c < 0x80"
  shows "parse_str (ascii_text (byte_of c) @ t) = cons_str [c] (parse_str t)"
proof -
  have enc: "encode_rune (byte_of c) = [c]"
    using assms by (simp add: encode_rune_def)
  have sur: "\<not> is_surrogate (byte_of c)" "byte_of c < 0x10000"
    using assms by (simp_all add: is_surrogate_def)
  have c: "c = d" if "byte_of c = byte_of d" for d
    using that by simp
  have bs: "byte_of c = 34 \<Longrightarrow> c = quote" "byte_of c = 92 \<Longrightarrow> c = backslash" "byte_of c = 8 \<Longrightarrow> c = CHR 0x08"
    "byte_of c = 12 \<Longrightarrow> c = CHR 0x0C" "byte_of c = 10 \<Longrightarrow> c = CHR 0x0A" "byte_of c = 13 \<Longrightarrow> c = CHR 0x0D"
    "byte_of c = 9 \<Longrightarrow> c = CHR 0x09"
    by (rule c, simp)+
  consider "c = quote" | "c = backslash" | "c = CHR 0x08" | "c = CHR 0x0C" | "c = CHR 0x0A"
    | "c = CHR 0x0D" | "c = CHR 0x09"
    | "byte_of c \<notin> {34, 92, 8, 12, 10, 13, 9}" "byte_of c < 32 \<or> byte_of c \<in> {60, 62, 38}"
    | "\<not> byte_of c < 32" "byte_of c \<notin> {34, 92, 60, 62, 38}"
    using bs by blast
  then show ?thesis
  proof cases
    case 8
    then have "ascii_text (byte_of c) = u_text (byte_of c)"
      by (simp add: ascii_text_def)
    then show ?thesis using parse_str_u_text [OF sur(2) sur(1)] enc by simp
  next
    case 9
    then have "ascii_text (byte_of c) = [c]" "c \<noteq> quote" "c \<noteq> backslash"
      by (auto simp: ascii_text_def)
    then show ?thesis using assms 9 by (simp add: decode_rune_ascii RuneError_def)
  qed (simp_all add: ascii_text_def, simp_all add: simple_escape_def backslash_def)
qed

text \<open>A rune of three bytes has only one encoding.\<close>

lemma rune_sum_digits:
  fixes x y z :: nat
  assumes "y < 64" "z < 64"
  defines "r \<equiv> x * 4096 + y * 64 + z"
  shows "r div 4096 = x" "r div 64 mod 64 = y" "r mod 64 = z"
proof -
  have "r = z + 64 * (x * 64 + y)" by (simp add: r_def)
  then have d: "r div 64 = x * 64 + y" "r mod 64 = z"
    using assms(2) by (simp_all only: div_mult_self2 mod_mult_self2) simp_all
  have "r div 4096 = r div 64 div 64" by (simp flip: div_mult2_eq)
  with d assms(1) show "r div 4096 = x" "r div 64 mod 64 = y" "r mod 64 = z"
    by simp_all
qed

lemma rune3_encode:
  assumes "accept3 c c1 c2" "224 \<le> byte_of c" "byte_of c \<le> 239"
  shows "encode_rune (rune3 c c1 c2) = [c, c1, c2]"
proof -
  let ?x = "byte_of c - 224" and ?y = "byte_of c1 - 128" and ?z = "byte_of c2 - 128"
  have b: "128 \<le> byte_of c1" "byte_of c1 < 192" "128 \<le> byte_of c2" "byte_of c2 < 192"
    using assms(1) by (auto simp: accept3_def cont_byte_def split: if_splits)
  then have yz: "?y < 64" "?z < 64" by auto
  have lo: "2048 \<le> rune3 c c1 c2"
    using assms b unfolding rune3_def by (auto simp: accept3_def cont_byte_def split: if_splits)
  have hi: "rune3 c c1 c2 < 65536"
    using assms b unfolding rune3_def by auto
  have sur: "\<not> (55296 \<le> rune3 c c1 c2 \<and> rune3 c c1 c2 \<le> 57343)"
  proof -
    consider "byte_of c \<le> 236" | "byte_of c = 237" | "238 \<le> byte_of c" by linarith
    then show ?thesis
      using assms b unfolding rune3_def accept3_def cont_byte_def by cases auto
  qed
  have "encode_rune (rune3 c c1 c2) = [char_of (224 + ?x), char_of (128 + ?y), char_of (128 + ?z)]"
    using lo hi sur rune_sum_digits [OF yz, of ?x]
    by (simp add: encode_rune_def) (simp add: rune3_def)
  with b assms(2) show ?thesis by simp
qed

lemma rune4_ge:
  assumes "accept4 c c1 c2 c3" "240 \<le> byte_of c"
  shows "65536 \<le> rune4 c c1 c2 c3"
  using assms by (auto simp: rune4_def accept4_def cont_byte_def split: if_splits)

lemma rune2_less:
  assumes "cont_byte 128 191 c1" "byte_of c \<le> 223"
  shows "rune2 c c1 < 2048"
  using assms by (auto simp: rune2_def cont_byte_def)

lemma decode_rune_three:
  assumes "(r, n) = decode_rune (c # cs)" "2048 \<le> r" "r < 65536" "n \<noteq> 1"
  shows "encode_rune r = take n (c # cs)"
proof -
  have "\<not> byte_of c < 128"
    using assms by (auto simp: decode_rune_ascii)
  then have "\<exists>c1 c2 t. cs = c1 # c2 # t \<and> accept3 c c1 c2 \<and> r = rune3 c c1 c2 \<and> n = 3 \<and>
      224 \<le> byte_of c \<and> byte_of c \<le> 239"
    using assms rune2_less [of _ c] rune4_ge [of c]
    by (fastforce simp: decode_rune_def decode2_def decode3_def decode4_def split: if_splits list.splits)
  then show ?thesis by (auto simp: rune3_encode)
qed

lemma parse_str_rune_text:
  assumes "(r, n) = decode_rune (c # cs)"
  shows "parse_str (rune_text (r, take n (c # cs)) @ t) =
    cons_str (if r = RuneError then encode_rune RuneError else take n (c # cs)) (parse_str t)"
proof (cases "byte_of c < 0x80")
  case True
  with assms have "r = byte_of c" "n = 1" by (simp_all add: decode_rune_ascii)
  with True parse_str_ascii_text [OF True] show ?thesis
    by (simp add: rune_text_def RuneError_def)
next
  case False
  have r: "128 \<le> r"
    using decode_rune_high [OF False, of cs] assms by (metis fst_conv)
  have nz: "1 \<le> n" "n \<le> length (c # cs)"
    using decode_rune_size [of "c # cs"] assms by (metis list.distinct(1) snd_conv)+
  have bs: "length (take n (c # cs)) = n"
    using nz by simp
  show ?thesis
  proof (cases "n = 1 \<or> r = 0x2028 \<or> r = 0x2029")
    case esc: True
    have "r < 0x10000 \<and> \<not> is_surrogate r \<and> rune_text (r, take n (c # cs)) = u_text r"
      using esc r bs decode_rune_one [of c cs r] False assms
      by (auto simp: rune_text_def RuneError_def is_surrogate_def)
    moreover have "encode_rune r = (if r = RuneError then encode_rune RuneError else take n (c # cs))"
      using esc decode_rune_one [of c cs r] decode_rune_three [of r n c cs] False assms
      by (cases "n = 1") (auto simp: RuneError_def)
    ultimately show ?thesis using parse_str_u_text [of r t] by simp
  next
    case raw: False
    then have rt: "rune_text (r, take n (c # cs)) = take n (c # cs)"
      using r bs by (simp add: rune_text_def)
    obtain k where k: "n = Suc k" using nz by (cases n) auto
    have d: "decode_rune (c # take k cs @ t) = (r, n)"
      using decode_rune_local [of c cs r n t] assms raw k by simp
    have ne: "c \<noteq> quote" "c \<noteq> backslash" "\<not> byte_of c < 32"
      using False by auto
    have "length (take k cs) = k" using bs k by simp
    then show ?thesis
      unfolding rt using d ne by (simp add: k)
  qed
qed

lemma parse_str_string_text:
  "parse_str (concat (map rune_text (rune_segments s)) @ quote # t) = Some (sanitize s, t)"
proof (induction s rule: rune_segments.induct)
  case (2 c cs)
  obtain r n where rn: "(r, n) = decode_rune (c # cs)" by (metis surj_pair)
  then have n: "1 \<le> n" using decode_rune_size(1) [of "c # cs"] by (metis list.distinct(1) snd_conv)
  have seg: "rune_segments (c # cs) = (r, take n (c # cs)) # rune_segments (drop (n - 1) cs)"
    using rn by (simp add: rune_segments.simps(2) flip: rn)
  show ?case
    using parse_str_rune_text [OF rn] "2.IH" [OF rn refl]
    by (simp add: seg sanitize_def cons_str_def)
qed (simp add: sanitize_def)

lemma sanitize_valid: "valid_utf8 s \<Longrightarrow> sanitize s = s"
proof (induction s rule: rune_segments.induct)
  case (2 c cs)
  obtain r n where rn: "(r, n) = decode_rune (c # cs)" by (metis surj_pair)
  then have n: "1 \<le> n" "n \<le> length (c # cs)"
    using decode_rune_size [of "c # cs"] by (metis list.distinct(1) snd_conv)+
  have seg: "rune_segments (c # cs) = (r, take n (c # cs)) # rune_segments (drop (n - 1) cs)"
    using rn by (simp add: rune_segments.simps(2) flip: rn)
  have "r = RuneError \<Longrightarrow> n \<noteq> 1"
    using "2.prems" n by (auto simp: valid_utf8_def seg)
  then have "r = RuneError \<Longrightarrow> encode_rune RuneError = take n (c # cs)"
    using decode_rune_three [OF rn] by (simp add: RuneError_def)
  moreover have "sanitize (drop (n - 1) cs) = drop (n - 1) cs"
    using "2.IH" [OF rn refl] "2.prems" by (simp add: valid_utf8_def seg)
  moreover have "c # cs = take n (c # cs) @ drop (n - 1) cs"
    using n(1) by (cases n) auto
  ultimately show ?case
    by (simp add: sanitize_def seg)
qed (simp add: sanitize_def)

lemma parse_string_text: "parse_str (tl (string_text s) @ t) = Some (sanitize s, t)"
  by (simp add: string_text_def parse_str_string_text)

lemma string_text_Cons: "string_text s = quote # tl (string_text s)"
  by (simp add: string_text_def)

section \<open>Values read back\<close>

text \<open>
  What the writer is given: strings and keys in valid UTF-8, number literals of the grammar.
  A number must not run into what follows it.
\<close>

definition num_char :: "char \<Rightarrow> bool" where
  "num_char c \<longleftrightarrow> is_dig c \<or> c = CHR ''.'' \<or> c = CHR ''e'' \<or> c = CHR ''E''"

definition stops :: "string \<Rightarrow> bool" where
  "stops t \<longleftrightarrow> t = [] \<or> \<not> num_char (hd t)"

definition num_ok :: "string \<Rightarrow> bool" where
  "num_ok s \<longleftrightarrow> scan_number s = Some (s, [])"

fun json_ok :: "json \<Rightarrow> bool" where
  "json_ok (JNum s) = num_ok s"
| "json_ok (JStr s) = valid_utf8 s"
| "json_ok (JArr vs) = list_all json_ok vs"
| "json_ok (JObj ms) = list_all (\<lambda>(k, v). valid_utf8 k \<and> json_ok v) ms"
| "json_ok _ = True"

lemma stops_dig: "stops t \<Longrightarrow> takeWhile is_dig t = [] \<and> dropWhile is_dig t = t"
  by (cases t) (auto simp: stops_def num_char_def)

lemma scan_digits_ext:
  assumes "scan_digits s = Some (d, r)" "r \<noteq> [] \<or> stops t"
  shows "scan_digits (s @ t) = Some (d, r @ t)"
proof -
  from assms(1) have s: "s \<noteq> []" "is_dig (hd s)" "d = takeWhile is_dig s" "r = dropWhile is_dig s"
    by (auto simp: scan_digits_def split: if_splits)
  have "takeWhile is_dig (s @ t) = d \<and> dropWhile is_dig (s @ t) = r @ t"
  proof (cases "r = []")
    case True
    then have "\<forall>x \<in> set s. is_dig x" using s(4) by simp
    then have "takeWhile is_dig s = s" by (simp only: takeWhile_eq_all_conv)
    with True assms(2) stops_dig [of t] s(3) \<open>\<forall>x \<in> set s. is_dig x\<close> show ?thesis by simp
  next
    case False
    then obtain x where "x \<in> set s" "\<not> is_dig x" using s(4) by auto
    then show ?thesis using s(3,4) by (simp add: takeWhile_append1 dropWhile_append1)
  qed
  with s(1,2) show ?thesis by (simp add: scan_digits_def)
qed

lemma scan_int_ext:
  "scan_int s = Some (d, r) \<Longrightarrow> r \<noteq> [] \<or> stops t \<Longrightarrow> scan_int (s @ t) = Some (d, r @ t)"
  using scan_digits_ext [of s d r t] by (auto simp: scan_int_def split: list.splits if_splits)

lemma scan_frac_ext:
  "scan_frac s = Some (d, r) \<Longrightarrow> r \<noteq> [] \<or> stops t \<Longrightarrow> scan_frac (s @ t) = Some (d, r @ t)"
  using scan_digits_ext [of "tl s" _ r t]
  by (cases s) (auto simp: scan_frac_def stops_def num_char_def split: if_splits)

lemma scan_sign_ext: "s \<noteq> [] \<Longrightarrow> scan_sign S (s @ t) = (fst (scan_sign S s), snd (scan_sign S s) @ t)"
  by (cases s) (auto simp: scan_sign_def)

lemma scan_exp_ext:
  "scan_exp s = Some (d, r) \<Longrightarrow> r \<noteq> [] \<or> stops t \<Longrightarrow> scan_exp (s @ t) = Some (d, r @ t)"
proof (cases "s \<noteq> [] \<and> (hd s = CHR ''e'' \<or> hd s = CHR ''E'')")
  case True
  let ?S = "{CHR ''+'', CHR ''-''}"
  assume *: "scan_exp s = Some (d, r)" "r \<noteq> [] \<or> stops t"
  with True obtain e where e: "scan_digits (snd (scan_sign ?S (tl s))) = Some (e, r)"
      "d = hd s # fst (scan_sign ?S (tl s)) @ e"
    by (auto simp: scan_exp_def case_prod_beta split: if_splits)
  then have "tl s \<noteq> []" by (auto simp: scan_sign_def scan_digits_def)
  with True e scan_digits_ext [OF e(1) *(2)] show ?thesis
    by (simp add: scan_exp_def scan_sign_ext)
qed (auto simp: scan_exp_def stops_def num_char_def hd_append)

lemma scan_number_ext:
  assumes "scan_number s = Some (d, r)" "r \<noteq> [] \<or> stops t"
  shows "scan_number (s @ t) = Some (d, r @ t)"
proof -
  obtain sg s1 where sg: "scan_sign {CHR ''-''} s = (sg, s1)" by fastforce
  with assms(1) obtain i s2 f s3 e where *: "scan_int s1 = Some (i, s2)" "scan_frac s2 = Some (f, s3)"
      "scan_exp s3 = Some (e, r)" "d = sg @ i @ f @ e"
    by (auto simp: scan_number_def split: option.splits)
  have "s \<noteq> []" using sg *(1) by (auto simp: scan_sign_def scan_int_def)
  moreover have "s3 \<noteq> [] \<or> stops t" "s2 \<noteq> [] \<or> stops t"
    using scan_exp_length [OF *(3)] scan_frac_length [OF *(2)] assms(2) by auto
  ultimately show ?thesis
    using sg scan_sign_ext [of s "{CHR ''-''}" t] scan_int_ext [OF *(1)] scan_frac_ext [OF *(2)]
      scan_exp_ext [OF *(3) assms(2)] *(4) by (simp add: scan_number_def)
qed

lemma scan_number_head:
  "scan_number (c # s) = Some x \<Longrightarrow> is_dig c \<or> c = CHR ''-''"
  by (auto simp: scan_number_def scan_sign_def scan_int_def scan_digits_def is_dig_def
      split: if_splits option.splits)

lemma json_text_head:
  "json_ok v \<Longrightarrow> \<exists>c s. json_text v = c # s \<and> \<not> is_ws c \<and> c \<notin> {CHR '']'', CHR ''}'', CHR '',''}"
proof (cases v)
  case (JNum x)
  moreover assume "json_ok v"
  ultimately have "scan_number x = Some (x, [])" by (simp add: num_ok_def)
  moreover from this obtain c s where x: "x = c # s"
    by (cases x) (auto simp: scan_number_def scan_sign_def scan_int_def)
  ultimately have "is_dig c \<or> c = CHR ''-''" using scan_number_head by blast
  then show ?thesis using JNum x by (auto simp: is_dig_def is_ws_def)
qed (auto simp: string_text_def)

text \<open>\<open>reads v\<close>: the written value reads back, whatever follows it.\<close>

definition reads :: "json \<Rightarrow> bool" where
  "reads v \<longleftrightarrow> (\<forall>t. stops t \<longrightarrow> (\<exists>n. parse_val n (json_text v @ t) = Some (v, t)))"

lemma readsE:
  assumes "reads v" "stops t"
  obtains n where "parse_val n (json_text v @ t) = Some (v, t)"
  using assms unfolding reads_def by blast

lemma parse_later:
  "parse_val n s = Some x \<Longrightarrow> n \<le> m \<Longrightarrow> parse_val m s = Some x"
  "parse_elems n s = Some y \<Longrightarrow> n \<le> m \<Longrightarrow> parse_elems m s = Some y"
  "parse_members n s = Some z \<Longrightarrow> n \<le> m \<Longrightarrow> parse_members m s = Some z"
proof (induction n arbitrary: s x y z m)
  case (Suc n)
  { case 1
    then obtain k where k: "m = Suc k" "n \<le> k" by (cases m) auto
    obtain v r where x: "x = (v, r)" by fastforce
    from 1 k(2) show ?case unfolding k(1) x parse_iff by (blast intro: Suc.IH)
  next
    case 2
    then obtain k where k: "m = Suc k" "n \<le> k" by (cases m) auto
    obtain v r where x: "y = (v, r)" by fastforce
    from 2 k(2) show ?case unfolding k(1) x parse_iff by (blast intro: Suc.IH)
  next
    case 3
    then obtain k where k: "m = Suc k" "n \<le> k" by (cases m) auto
    obtain v r where x: "z = (v, r)" by fastforce
    from 3 k(2) show ?case unfolding k(1) x parse_iff by (blast intro: Suc.IH) }
qed simp_all

lemma stops_tokens [simp]: "stops (CHR '','' # t)" "stops (CHR '']'' # t)" "stops (CHR ''}'' # t)"
  by (auto simp: stops_def num_char_def is_dig_def)

lemma parse_elems_text:
  assumes "vs \<noteq> []" "\<forall>v \<in> set vs. reads v"
  shows "\<exists>n. parse_elems n (commas (map json_text vs) @ CHR '']'' # t) = Some (vs, t)"
  using assms
proof (induction vs)
  case (Cons v vs)
  show ?case
  proof (cases vs)
    case Nil
    obtain n where "parse_val n (json_text v @ CHR '']'' # t) = Some (v, CHR '']'' # t)"
      using Cons.prems by (auto elim!: readsE [of v "CHR '']'' # t"])
    then have "parse_elems (Suc n) (json_text v @ CHR '']'' # t) = Some ([v], t)"
      by (simp add: parse_iff)
    then show ?thesis using Nil by (auto simp: commas_def)
  next
    case (Cons w ws)
    let ?rest = "commas (map json_text vs) @ CHR '']'' # t"
    obtain n where n: "parse_val n (json_text v @ CHR '','' # ?rest) = Some (v, CHR '','' # ?rest)"
      using Cons.prems by (auto elim!: readsE [of v "CHR '','' # ?rest"])
    obtain m where m: "parse_elems m ?rest = Some (vs, t)"
      using Cons.IH Cons.prems Cons by auto
    have "parse_elems (Suc (max n m)) (json_text v @ CHR '','' # ?rest) = Some (v # vs, t)"
      using parse_later(1) [OF n, of "max n m"] parse_later(2) [OF m, of "max n m"]
      by (simp add: parse_iff)
    then show ?thesis using Cons by (auto simp: commas_def)
  qed
qed simp

definition member_text :: "string \<times> json \<Rightarrow> string" where
  "member_text m = (case m of (k, v) \<Rightarrow> string_text k @ CHR '':'' # json_text v)"

lemma member_text_read:
  assumes "sanitize k = k"
  shows "closes quote (member_text (k, v) @ t)"
    "parse_str (after_tok (member_text (k, v) @ t)) = Some (k, CHR '':'' # json_text v @ t)"
  using assms parse_string_text [of k "CHR '':'' # json_text v @ t"]
  by (simp_all add: member_text_def string_text_def)

lemma parse_members_text:
  assumes "ms \<noteq> []" "\<forall>(k, v) \<in> set ms. sanitize k = k \<and> reads v"
  shows "\<exists>n. parse_members n (commas (map member_text ms) @ CHR ''}'' # t) = Some (ms, t)"
  using assms
proof (induction ms)
  case (Cons m ms)
  obtain k v where kv: "m = (k, v)" by fastforce
  with Cons.prems have k: "sanitize k = k" "reads v" by auto
  show ?case
  proof (cases ms)
    case Nil
    obtain n where "parse_val n (json_text v @ CHR ''}'' # t) = Some (v, CHR ''}'' # t)"
      using k(2) by (auto elim!: readsE [of v "CHR ''}'' # t"])
    then have "parse_members (Suc n) (member_text m @ CHR ''}'' # t) = Some ([(k, v)], t)"
      by (simp add: parse_iff kv member_text_read [OF k(1)])
    then show ?thesis using Nil kv by (auto simp: commas_def)
  next
    case (Cons w ws)
    let ?rest = "commas (map member_text ms) @ CHR ''}'' # t"
    obtain n where n: "parse_val n (json_text v @ CHR '','' # ?rest) = Some (v, CHR '','' # ?rest)"
      using k(2) by (auto elim!: readsE [of v "CHR '','' # ?rest"])
    obtain l where l: "parse_members l ?rest = Some (ms, t)"
      using Cons.IH Cons.prems Cons by auto
    have "parse_members (Suc (max n l)) (member_text m @ CHR '','' # ?rest) = Some (m # ms, t)"
      using parse_later(1) [OF n, of "max n l"] parse_later(3) [OF l, of "max n l"]
      by (simp add: parse_iff kv member_text_read [OF k(1)])
    then show ?thesis using Cons by (auto simp: commas_def)
  qed
qed simp

lemma json_text_JObj: "json_text (JObj ms) = CHR ''{'' # commas (map member_text ms) @ ''}''"
  by (simp add: member_text_def [abs_def])

lemma commas_head: "xs \<noteq> [] \<Longrightarrow> hd xs \<noteq> [] \<Longrightarrow> \<exists>s. commas xs = hd (hd xs) # s"
  by (cases xs; cases "hd xs") (auto simp: commas_def)

lemma reads_scalar:
  assumes "\<And>t. stops t \<Longrightarrow> parse_scalar (json_text v @ t) = Some (v, t)"
    "\<exists>c s. json_text v = c # s \<and> \<not> is_ws c \<and> c \<noteq> CHR ''{'' \<and> c \<noteq> CHR ''[''"
  shows "reads v"
proof -
  have "parse_val (Suc 0) (json_text v @ t) = Some (v, t)" if "stops t" for t
    using assms(1) [OF that] assms(2) by (auto simp: parse_iff)
  then show ?thesis unfolding reads_def by blast
qed

lemma reads_num:
  assumes "num_ok x"
  shows "reads (JNum x)"
proof (rule reads_scalar)
  have x: "scan_number x = Some (x, [])" using assms by (simp add: num_ok_def)
  then obtain c s where c: "x = c # s"
    by (cases x) (auto simp: scan_number_def scan_sign_def scan_int_def)
  have d: "is_dig c \<or> c = CHR ''-''" using x scan_number_head c by blast
  then have c': "\<not> is_ws c" "c \<notin> {quote, CHR ''t'', CHR ''f'', CHR ''n'', CHR ''{'', CHR ''[''}"
    by (auto simp: is_dig_def is_ws_def quote_def)
  show "parse_scalar (json_text (JNum x) @ t) = Some (JNum x, t)" if "stops t" for t
    using scan_number_ext [OF x, of t] that c c' by (simp add: parse_scalar_def)
  show "\<exists>c s. json_text (JNum x) = c # s \<and> \<not> is_ws c \<and> c \<noteq> CHR ''{'' \<and> c \<noteq> CHR ''[''"
    using c c' by auto
qed

lemma reads_str: "valid_utf8 x \<Longrightarrow> reads (JStr x)"
  using parse_string_text [of x]
  by (intro reads_scalar) (auto simp: string_text_def parse_scalar_def sanitize_valid)

lemma reads_word: "reads JNull" "reads (JBool b)"
  by (rule reads_scalar; auto simp: parse_scalar_def literal_def quote_def)+

lemma reads_arr:
  assumes "\<forall>v \<in> set vs. json_ok v \<and> reads v"
  shows "reads (JArr vs)"
  unfolding reads_def
proof (intro allI impI)
  fix t
  show "\<exists>n. parse_val n (json_text (JArr vs) @ t) = Some (JArr vs, t)"
  proof (cases vs)
    case Nil
    have "parse_val (Suc 0) (CHR ''['' # CHR '']'' # t) = Some (JArr [], t)"
      by (simp add: parse_iff)
    then show ?thesis using Nil by (auto simp: commas_def)
  next
    case (Cons v ws)
    let ?s = "commas (map json_text vs) @ CHR '']'' # t"
    obtain n where n: "parse_elems n ?s = Some (vs, t)"
      using parse_elems_text [of vs t] assms Cons by auto
    obtain c s where "json_text v = c # s" "\<not> is_ws c" "c \<noteq> CHR '']''"
      using json_text_head [of v] assms Cons by auto
    then have "\<not> closes CHR '']'' ?s"
      using commas_head [of "map json_text vs"] Cons by (auto simp: commas_def)
    with n have "parse_val (Suc n) (CHR ''['' # ?s) = Some (JArr vs, t)"
      by (simp add: parse_iff)
    then show ?thesis by auto
  qed
qed

lemma reads_obj:
  assumes "\<forall>(k, v) \<in> set ms. valid_utf8 k \<and> reads v"
  shows "reads (JObj ms)"
  unfolding reads_def
proof (intro allI impI)
  fix t
  show "\<exists>n. parse_val n (json_text (JObj ms) @ t) = Some (JObj ms, t)"
  proof (cases ms)
    case Nil
    have "parse_val (Suc 0) (CHR ''{'' # CHR ''}'' # t) = Some (JObj [], t)"
      by (simp add: parse_iff)
    then show ?thesis using Nil by (auto simp: commas_def)
  next
    case (Cons m ws)
    let ?s = "commas (map member_text ms) @ CHR ''}'' # t"
    obtain n where n: "parse_members n ?s = Some (ms, t)"
      using parse_members_text [of ms t] assms Cons sanitize_valid by fastforce
    have "\<not> closes CHR ''}'' ?s"
      using Cons by (auto simp: commas_def member_text_def string_text_def case_prod_beta)
    with n have "parse_val (Suc n) (CHR ''{'' # ?s) = Some (JObj ms, t)"
      by (simp add: parse_iff)
    then show ?thesis unfolding json_text_JObj by auto
  qed
qed

lemma json_reads: "json_ok v \<Longrightarrow> reads v"
proof (induction v)
  case (JArr vs)
  then show ?case by (intro reads_arr) (auto simp: list_all_iff)
next
  case (JObj ms)
  then show ?case by (intro reads_obj) (auto simp: list_all_iff)
qed (auto simp: reads_num reads_str reads_word)

lemma read_value_json_text:
  "json_ok v \<Longrightarrow> stops t \<Longrightarrow> read_value (json_text v @ t) = Some (v, t)"
  using json_reads unfolding read_value_iff reads_def by blast

lemma stops_Nil [simp]: "stops []"
  by (simp add: stops_def)

lemma read_text_json_text: "json_ok v \<Longrightarrow> read_text (json_text v) = Some v"
  using read_value_json_text [of v "[]"] by (simp add: read_text_def skip_ws_def)

text \<open>The raw text of a written value is the written value.\<close>

lemma raw_value_json_text: "json_ok v \<Longrightarrow> raw_value (json_text v @ t) t = json_text v"
  using json_text_head [of v] by (auto simp: raw_value_def)

lemma raw_members_text:
  assumes "ms \<noteq> []" "json_ok (JObj ms)" "length ms \<le> n"
  shows "raw_members n (commas (map member_text ms) @ CHR ''}'' # t) = Some (map (\<lambda>(k, v). (k, json_text v)) ms)"
  using assms
proof (induction ms arbitrary: n)
  case (Cons m ms)
  obtain k v where kv: "m = (k, v)" by fastforce
  with Cons.prems have k: "sanitize k = k" "json_ok v" by (auto simp: sanitize_valid)
  obtain l where n: "n = Suc l" using Cons.prems by (cases n) auto
  show ?case
  proof (cases ms)
    case Nil
    then show ?thesis
      using n kv member_text_read [OF k(1)] read_value_json_text [OF k(2)] raw_value_json_text [OF k(2)]
      by (simp add: commas_def)
  next
    case (Cons w ws)
    let ?rest = "commas (map member_text ms) @ CHR ''}'' # t"
    have split: "commas (map member_text (m # ms)) @ CHR ''}'' # t = member_text m @ CHR '','' # ?rest"
      using Cons by (simp add: commas_def)
    have "raw_members l ?rest = Some (map (\<lambda>(k, v). (k, json_text v)) ms)"
      using Cons.IH [of l] Cons.prems Cons n by simp
    then show ?thesis
      using member_text_read [OF k(1)] read_value_json_text [OF k(2)] raw_value_json_text [OF k(2)]
      unfolding split unfolding n kv by simp
  qed
qed simp

lemma commas_length: "length ms \<le> Suc (length (commas (map member_text ms)))"
proof (cases ms)
  case (Cons m ns)
  have "length ns \<le> length (concat (map (\<lambda>z. CHR '','' # z) (map member_text ns)))"
    by (induction ns) auto
  then show ?thesis using Cons by (simp add: commas_def)
qed simp

lemma object_members_text:
  assumes "json_ok (JObj ms)"
  shows "object_members (json_text (JObj ms)) = Some (map (\<lambda>(k, v). (k, json_text v)) ms)"
proof (cases ms)
  case Nil
  then show ?thesis by (simp add: object_members_def commas_def)
next
  case (Cons m ns)
  have "\<not> closes CHR ''}'' (commas (map member_text ms) @ CHR ''}'' # [])"
    using Cons by (auto simp: commas_def member_text_def string_text_def case_prod_beta)
  with raw_members_text [OF _ assms, of "length (json_text (JObj ms))" "[]"] commas_length [of ms] Cons
  show ?thesis unfolding json_text_JObj by (simp add: object_members_def)
qed

end
