(* ===== verification/Protocol_Props.thy ===== *)
theory Protocol_Props
  imports Protocol Go_Json_Facts
begin

text \<open>
  What the wire protocol guarantees: the key check accepts exactly the JSON texts without repeated
  keys; a written envelope is read back from its frame; a frame that is read is a valid envelope
  and exactly its bytes are consumed; a node command that is accepted satisfies every rule of the
  protocol, and every such command survives the wire.
\<close>

section \<open>Repeated keys\<close>

fun unique_json :: "json \<Rightarrow> bool" where
  "unique_json (JNum s) = (\<not> float_overflows s)"
| "unique_json (JArr vs) = list_all unique_json vs"
| "unique_json (JObj ms) = (distinct (map fst ms) \<and> list_all (\<lambda>(k, v). unique_json v) ms)"
| "unique_json _ = True"

lemma parse_scalar_not_compound:
  "parse_scalar s = Some (v, r) \<Longrightarrow> unique_json v = token_ok v"
  by (auto simp: parse_scalar_def token_ok_def literal_def split: list.splits if_splits)

lemma consumeJSONValue_Suc_iff:
  "consumeJSONValue (Suc n) s = Some r \<longleftrightarrow>
     (closes CHR ''{'' s \<and>
        (closes CHR ''}'' (after_tok s) \<and> r = after_tok (after_tok s) \<or>
         \<not> closes CHR ''}'' (after_tok s) \<and> consume_members n {} (after_tok s) = Some r)) \<or>
     (closes CHR ''['' s \<and>
        (closes CHR '']'' (after_tok s) \<and> r = after_tok (after_tok s) \<or>
         \<not> closes CHR '']'' (after_tok s) \<and> consume_elems n (after_tok s) = Some r)) \<or>
     (\<not> closes CHR ''{'' s \<and> \<not> closes CHR ''['' s \<and> (\<exists>v. parse_scalar (skip_ws s) = Some (v, r) \<and> token_ok v))"
  using closes_unique [of "CHR ''{''" s "CHR ''[''"] by (auto split: option.splits if_splits)

lemma consume_elems_Suc_iff:
  "consume_elems (Suc n) s = Some r \<longleftrightarrow>
     (\<exists>u. consumeJSONValue n s = Some u \<and>
        (closes CHR '','' u \<and> consume_elems n (after_tok u) = Some r \<or>
         closes CHR '']'' u \<and> r = after_tok u))"
  using closes_unique [of "CHR '',''" _ "CHR '']''"] by (auto split: option.splits if_splits)

lemma consume_members_Suc_iff:
  "consume_members (Suc n) keys s = Some r \<longleftrightarrow>
     (\<exists>k r1 u. closes quote s \<and> parse_str (after_tok s) = Some (k, r1) \<and> k \<notin> keys \<and> closes CHR '':'' r1 \<and>
        consumeJSONValue n (after_tok r1) = Some u \<and>
        (closes CHR '','' u \<and> consume_members n (insert k keys) (after_tok u) = Some r \<or>
         closes CHR ''}'' u \<and> r = after_tok u))"
  using closes_unique [of "CHR '',''" _ "CHR ''}''"] by (auto split: option.splits if_splits)

declare consumeJSONValue.simps(2) [simp del] consume_members.simps(2) [simp del] consume_elems.simps(2) [simp del]

lemmas consume_iff = consumeJSONValue_Suc_iff consume_elems_Suc_iff consume_members_Suc_iff

lemma consume_parse:
  "consumeJSONValue n s = Some r \<longleftrightarrow> (\<exists>v. parse_val n s = Some (v, r) \<and> unique_json v)"
  "consume_elems n s = Some r \<longleftrightarrow> (\<exists>vs. parse_elems n s = Some (vs, r) \<and> list_all unique_json vs)"
  "consume_members n keys s = Some r \<longleftrightarrow>
     (\<exists>ms. parse_members n s = Some (ms, r) \<and> distinct (map fst ms) \<and> fst ` set ms \<inter> keys = {} \<and>
        list_all (\<lambda>(k, v). unique_json v) ms)"
proof (induction n arbitrary: s r keys)
  case (Suc n)
  { case 1
    show ?case
      unfolding parse_iff consume_iff Suc.IH
      by (auto simp: parse_scalar_not_compound)
  next
    case 2
    show ?case
      unfolding parse_iff consume_iff Suc.IH by fastforce
  next
    case 3
    show ?case
      unfolding parse_iff consume_iff Suc.IH by fastforce }
qed simp_all

lemma validateUniqueJSONKeys_iff:
  "validateUniqueJSONKeys data = Inr () \<longleftrightarrow> (\<exists>v. read_text data = Some v \<and> unique_json v)"
proof -
  have "(\<exists>r. consumeJSONValue (fuel data) data = Some r \<and> skip_ws r = []) \<longleftrightarrow>
      (\<exists>v r. parse_val (fuel data) data = Some (v, r) \<and> unique_json v \<and> skip_ws r = [])"
    unfolding consume_parse(1) by blast
  then show ?thesis
    unfolding validateUniqueJSONKeys_def read_text_def read_value_def
    by (auto split: option.splits if_splits)
qed

lemma validateUniqueJSONKeys_error:
  "validateUniqueJSONKeys data \<noteq> Inr () \<Longrightarrow> validateUniqueJSONKeys data = Inl ErrInvalidMessage"
  by (auto simp: validateUniqueJSONKeys_def split: option.splits)

section \<open>Writing raw JSON\<close>

text \<open>Written JSON is already compact and escaped.\<close>

definition high_bytes :: "string \<Rightarrow> bool" where
  "high_bytes s \<longleftrightarrow> (\<forall>c \<in> set s. 128 \<le> byte_of c \<and> byte_of c < 192)"

lemma compact_high_bytes:
  "high_bytes s \<Longrightarrow> compact_bytes True False (s @ t) = s @ compact_bytes True False t"
proof (induction s)
  case (Cons c s)
  then have c: "128 \<le> byte_of c" "byte_of c < 192" "high_bytes s"
    by (auto simp: high_bytes_def)
  then have "c \<noteq> quote" "c \<noteq> backslash" "\<not> is_line_sep (c # s @ t)"
    by (auto simp: is_line_sep_def split: list.splits)
  with c Cons.IH show ?case by simp
qed simp

lemma decode_rune_tail:
  assumes "(r, n) = decode_rune (c # cs)"
  shows "high_bytes (take (n - 1) cs)"
  using assms
  by (auto simp: decode_rune_def decode2_def decode3_def decode4_def accept3_def accept4_def cont_byte_def
      high_bytes_def split: if_splits list.splits)

text \<open>A character that a string literal contains as it is.\<close>

definition plain_char :: "char \<Rightarrow> bool" where
  "plain_char c \<longleftrightarrow> 32 \<le> byte_of c \<and> byte_of c < 128 \<and> byte_of c \<notin> {34, 92, 60, 62, 38}"

lemma line_sep_ascii: "byte_of c < 128 \<Longrightarrow> \<not> is_line_sep (c # s)"
  by (auto simp: is_line_sep_def split: list.splits)

lemma compact_plain: "plain_char c \<Longrightarrow> compact_bytes True False (c # t) = c # compact_bytes True False t"
  using line_sep_ascii [of c t] by (cases "c = quote \<or> c = backslash") (auto simp: plain_char_def)

lemma compact_escape:
  assumes "byte_of e < 128" "byte_of e \<notin> {60, 62, 38}"
  shows "compact_bytes True False (backslash # e # t) = backslash # e # compact_bytes True False t"
  using assms line_sep_ascii [of backslash "e # t"] line_sep_ascii [of e t] by simp

lemma hex_digit_plain: "n < 16 \<Longrightarrow> plain_char (hex_digit n)"
  by (auto simp: plain_char_def hex_digit_def)

lemma compact_u_text: "compact_bytes True False (u_text r @ t) = u_text r @ compact_bytes True False t"
  by (simp add: u_text_def compact_escape compact_plain hex_digit_plain del: compact_bytes.simps(2))

lemma compact_ascii_text:
  assumes "r < 128"
  shows "compact_bytes True False (ascii_text r @ t) = ascii_text r @ compact_bytes True False t"
proof -
  have "(\<exists>e. ascii_text r = [backslash, e] \<and> byte_of e < 128 \<and> byte_of e \<notin> {60, 62, 38}) \<or>
      ascii_text r = u_text r \<or> ascii_text r = [char_of r] \<and> plain_char (char_of r)"
  proof (cases "r \<in> {34, 92, 8, 12, 10, 13, 9}")
    case True
    then show ?thesis by (auto simp: ascii_text_def)
  next
    case False
    with assms show ?thesis by (auto simp: ascii_text_def plain_char_def)
  qed
  then show ?thesis
    by (elim disjE exE conjE)
       (simp_all add: compact_escape compact_u_text compact_plain del: compact_bytes.simps(2))
qed

lemma compact_rune_text:
  assumes rn: "(r, n) = decode_rune (c # cs)"
  shows "compact_bytes True False (rune_text (r, take n (c # cs)) @ t) =
    rune_text (r, take n (c # cs)) @ compact_bytes True False t"
proof (cases "byte_of c < 128 \<or> rune_text (r, take n (c # cs)) = u_text r")
  case True
  then show ?thesis
    using rn by (auto simp: compact_u_text compact_ascii_text decode_rune_ascii rune_text_def)
next
  case False
  then have r: "128 \<le> r" using decode_rune_high [of c cs] rn by (metis fst_conv)
  with False have raw: "rune_text (r, take n (c # cs)) = take n (c # cs)" "r \<noteq> 0x2028" "r \<noteq> 0x2029" "n \<noteq> 1"
    using decode_rune_one [of c cs r] rn by (auto simp: rune_text_def split: if_splits)
  obtain k where k: "n = Suc k"
    using decode_rune_size(1) [of "c # cs"] rn by (metis list.distinct(1) not0_implies_Suc not_one_le_zero snd_conv)
  have "\<not> is_line_sep (c # take k cs @ t)"
    using rn raw k False
    by (auto simp: is_line_sep_def decode_rune_def decode2_def decode3_def decode4_def rune3_def
        split: list.splits if_splits)
  moreover have "c \<noteq> quote" "c \<noteq> backslash" using False by auto
  ultimately show ?thesis
    using compact_high_bytes [OF decode_rune_tail [OF rn], of t] False raw(1) k by auto
qed

lemma compact_string_text:
  "compact_bytes False False (string_text s @ t) = string_text s @ compact_bytes False False t"
proof -
  have "compact_bytes True False (concat (map rune_text (rune_segments s)) @ u) =
      concat (map rune_text (rune_segments s)) @ compact_bytes True False u" for u
  proof (induction s rule: rune_segments.induct)
    case (2 c cs)
    obtain r n where rn: "(r, n) = decode_rune (c # cs)" by (metis surj_pair)
    show ?case
      using compact_rune_text [OF rn] "2.IH" [OF rn refl]
      by (simp add: rune_segments.simps(2) flip: rn)
  qed simp
  from this [of "quote # t"] show ?thesis
    using line_sep_ascii [of quote t] by (simp add: string_text_def)
qed

definition passes :: "string \<Rightarrow> bool" where
  "passes s \<longleftrightarrow> (\<forall>t. compact_bytes False False (s @ t) = s @ compact_bytes False False t)"

lemma passes_append: "passes s \<Longrightarrow> passes t \<Longrightarrow> passes (s @ t)"
  by (simp add: passes_def)

lemma passes_chars: "\<forall>c \<in> set s. \<not> is_ws c \<and> c \<noteq> quote \<Longrightarrow> passes s"
  by (induction s) (auto simp: passes_def)

lemma passes_commas: "\<forall>x \<in> set xs. passes x \<Longrightarrow> passes (commas xs)"
proof (cases xs)
  case (Cons x ys)
  assume *: "\<forall>x \<in> set xs. passes x"
  have "\<forall>y \<in> set ys. passes y \<Longrightarrow> passes (concat (map (\<lambda>z. CHR '','' # z) ys))"
    by (induction ys) (auto simp: passes_def)
  with * Cons show ?thesis by (simp add: commas_def passes_append)
qed (simp add: commas_def passes_def)

lemma scan_number_chars:
  assumes "scan_number s = Some (d, r)"
  shows "\<forall>c \<in> set d. num_char c \<or> c = CHR ''-'' \<or> c = CHR ''+''"
proof -
  have dig: "\<forall>c \<in> set e. is_dig c" if "scan_digits u = Some (e, r)" for u e r
    using that by (auto simp: scan_digits_def dest: set_takeWhileD split: if_splits)
  have i: "\<forall>c \<in> set e. is_dig c" if "scan_int u = Some (e, r)" for u e r
    using that dig by (auto simp: scan_int_def is_dig_def split: list.splits if_splits)
  have f: "\<forall>c \<in> set e. num_char c" if "scan_frac u = Some (e, r)" for u e r
    using that dig by (auto simp: scan_frac_def num_char_def split: if_splits)
  have x: "\<forall>c \<in> set e. num_char c \<or> c = CHR ''-'' \<or> c = CHR ''+''" if "scan_exp u = Some (e, r)" for u e r
    using that dig by (auto simp: scan_exp_def scan_sign_def num_char_def split: if_splits list.splits)
  from assms show ?thesis
    using i f x by (fastforce simp: scan_number_def scan_sign_def num_char_def split: option.splits list.splits if_splits)
qed

lemma compact_json: "json_ok v \<Longrightarrow> passes (json_text v)"
proof (induction v)
  case (JNum x)
  then have "\<forall>c \<in> set x. num_char c \<or> c = CHR ''-'' \<or> c = CHR ''+''"
    using scan_number_chars by (auto simp: num_ok_def)
  then have "\<forall>c \<in> set x. \<not> is_ws c \<and> c \<noteq> quote"
    by (auto simp: num_char_def is_dig_def is_ws_def quote_def)
  then show ?case by (simp add: passes_chars)
next
  case (JArr vs)
  then have "passes (commas (map json_text vs))" by (intro passes_commas) (auto simp: list_all_iff)
  then show ?case by (auto simp: passes_def)
next
  case (JObj ms)
  have "passes (member_text m)" if "m \<in> set ms" for m
  proof -
    obtain k v where m: "m = (k, v)" by fastforce
    with JObj that have "passes (json_text v)" by (fastforce simp: list_all_iff)
    then show ?thesis using m by (auto simp: passes_def member_text_def compact_string_text)
  qed
  then have "passes (commas (map member_text ms))" by (intro passes_commas) auto
  then show ?case unfolding json_text_JObj by (auto simp: passes_def)
qed (auto simp: passes_chars passes_def compact_string_text quote_def is_ws_def)

lemma marshal_raw_json:
  "json_ok v \<Longrightarrow> jdepth v \<le> max_depth \<Longrightarrow> marshal_raw (Some (json_text v)) = Some (json_text v)"
  using compact_json [of v] spec [of _ "[]"]
  by (auto simp: marshal_raw_def read_text_json_text passes_def) (metis append_Nil2 compact_bytes.simps(1))

section \<open>The envelope on the wire\<close>

definition envelope_json :: "envelope \<Rightarrow> json \<Rightarrow> json" where
  "envelope_json e v = JObj ([(''protocol'', JStr (Protocol e)), (''version'', JStr (Version e)),
     (''messageId'', JStr (MessageID e)), (''type'', JStr (MsgType e))] @
     opt_field ''timestamp'' (Timestamp e) @ [(''payload'', v)])"

definition envelope_utf8 :: "envelope \<Rightarrow> bool" where
  "envelope_utf8 e \<longleftrightarrow> valid_utf8 (Protocol e) \<and> valid_utf8 (Version e) \<and> valid_utf8 (MessageID e) \<and>
     valid_utf8 (MsgType e) \<and> valid_utf8 (Timestamp e)"

lemma object_text_json: "object_text (map (\<lambda>(k, v). (k, json_text v)) ms) = json_text (JObj ms)"
proof -
  have "map (field_text \<circ> (\<lambda>(k, v). (k, json_text v))) ms = map member_text ms"
    by (auto simp: field_text_def member_text_def)
  then show ?thesis unfolding json_text_JObj object_text_def map_map by (simp only:)
qed

lemma marshal_envelope_json:
  assumes "Payload e = Some (json_text v)" "json_ok v" "jdepth v \<le> max_depth"
  shows "marshal_envelope e = Some (json_text (envelope_json e v))"
proof -
  have "map (\<lambda>(k, v). (k, json_text v)) (opt_field k s) = (if s = [] then [] else [(k, string_text s)])" for k s
    by (simp add: opt_field_def)
  then show ?thesis
    using marshal_raw_json [OF assms(2,3)] assms(1)
    unfolding marshal_envelope_def envelope_json_def object_text_json [symmetric] by simp
qed

lemma ascii_valid: "\<forall>c \<in> set s. byte_of c < 128 \<Longrightarrow> valid_utf8 s"
  by (induction s) (auto simp: valid_utf8_def RuneError_def)

lemma ascii_valid_Cons [simp]: "byte_of c < 128 \<Longrightarrow> valid_utf8 (c # s) = valid_utf8 s" "valid_utf8 []"
  by (auto simp: valid_utf8_def RuneError_def)

lemma decode_string_text: "valid_utf8 s \<Longrightarrow> decode_string (string_text s) old = (s, True)"
  using read_text_json_text [of "JStr s"] by (simp add: decode_string_def)

lemma find_field_exact: "k \<in> set names \<Longrightarrow> find_field names k = Some k"
  by (simp add: find_field_def)

lemma raw_value_all: "json_ok v \<Longrightarrow> raw_value (json_text v) [] = json_text v"
  using raw_value_json_text [of v "[]"] by simp

text \<open>Decoding a written object: its members, each with its own text, are put in order.\<close>

lemma strict_decode_text:
  assumes "json_ok (JObj ms)" "jdepth (JObj ms) \<le> max_depth"
  shows "strict_decode names put (json_text (JObj ms)) x =
    (let (y, ok) = decode_members names put (map (\<lambda>(k, v). (k, json_text v)) ms) x in (y, ok, True))"
  using assms read_value_json_text [OF assms(1), of "[]"] raw_value_all [OF assms(1)]
    object_members_text [OF assms(1)]
  by (simp add: strict_decode_def decode_struct_def skip_ws_def del: json_text.simps)

lemma decode_payload_text:
  assumes "envelope_utf8 e" "Payload e = Some (json_text v)" "json_ok v" "unique_json v" "jdepth v < max_depth"
  shows "decode_payload (json_text (envelope_json e v)) = (e, ValidateEnvelope e)"
proof -
  have ok: "json_ok (envelope_json e v)"
    using assms by (simp add: envelope_json_def opt_field_def envelope_utf8_def)
  have "unique_json (envelope_json e v)"
    using assms(4) by (simp add: envelope_json_def opt_field_def)
  then have u: "validateUniqueJSONKeys (json_text (envelope_json e v)) = Inr ()"
    using read_text_json_text [OF ok] by (auto simp: validateUniqueJSONKeys_iff)
  have d: "jdepth (envelope_json e v) \<le> max_depth"
    using assms(5) by (auto simp: envelope_json_def opt_field_def)
  have "strict_decode envelope_fields put_envelope (json_text (envelope_json e v)) zero_envelope = (e, True, True)"
    using assms(1,2) ok d
    by (cases e) (simp add: envelope_json_def strict_decode_text opt_field_def envelope_fields_def find_field_exact
        put_envelope_def put_string_def decode_string_text envelope_utf8_def zero_envelope_def
        del: json_text.simps(5,6))
  with u show ?thesis by (simp add: decode_payload_def)
qed

lemma byte_digits:
  fixes n :: nat
  shows "((n div 16777216 * 256 + n div 65536 mod 256) * 256 + n div 256 mod 256) * 256 + n mod 256 = n"
proof -
  have "n div 256 div 256 = n div 65536" "n div 65536 div 256 = n div 16777216"
    by (simp_all flip: div_mult2_eq)
  then have "n div 16777216 * 256 + n div 65536 mod 256 = n div 65536"
    "n div 65536 * 256 + n div 256 mod 256 = n div 256"
    using div_mult_mod_eq [of "n div 256" 256] div_mult_mod_eq [of "n div 65536" 256] by simp_all
  then show ?thesis by (simp only: div_mult_mod_eq)
qed

lemma Uint32_PutUint32: "n < 2 ^ 32 \<Longrightarrow> Uint32_of (PutUint32 n) = n"
proof -
  assume n: "n < 2 ^ 32"
  then have "unat (drop_bit k (word_of_nat n :: uint32)) = n div 2 ^ k" for k
    by (simp only: unat_drop_bit_eq unat_of_nat) (simp add: drop_bit_eq_div)
  moreover have "n div 16777216 mod 256 = n div 16777216"
    using n by (simp add: less_mult_imp_div_less)
  ultimately show ?thesis
    using byte_digits [of n] by (simp add: PutUint32_def Uint32_of_def)
qed

lemma length_PutUint32 [simp]: "length (PutUint32 n) = 4"
  by (simp add: PutUint32_def)

lemma Decode_frame:
  assumes "incoming r = PutUint32 (length p) @ p @ rest" "p \<noteq> []" "length p \<le> MaxPayloadSize"
  shows "Decode r = (r\<lparr>incoming := rest\<rparr>, decode_payload p)"
  using assms Uint32_PutUint32 [of "length p"]
  by (simp add: Decode_def ReadFull_def FrameHeaderSize_def MaxPayloadSize_def Let_def case_prod_beta)

text \<open>A writer that makes progress takes everything; whatever the writer does, it takes a prefix.\<close>

definition keeps_writing :: "write_script \<Rightarrow> nat \<Rightarrow> bool" where
  "keeps_writing ws n \<longleftrightarrow> n \<le> length ws \<and> (\<forall>(k, failed) \<in> set ws. \<not> failed \<and> 0 < k)"

lemma writeFull_complete:
  "keeps_writing ws n \<Longrightarrow> length p \<le> n \<Longrightarrow>
   \<exists>ws'. writeFull ws p = (p, ws', Some (Inr ())) \<and> keeps_writing ws' (n - length p)"
proof (induction ws p arbitrary: n rule: writeFull.induct)
  case (3 k failed ws c cs)
  let ?m = "min k (length (c # cs))"
  have k: "0 < ?m" "\<not> failed" "keeps_writing ws (n - 1)"
    using "3.prems"(1) by (auto simp: keeps_writing_def)
  then have "length (drop ?m (c # cs)) \<le> n - 1"
    using "3.prems"(2) by (cases n) auto
  with "3.IH" [OF refl k(2) _ k(3)] k obtain ws' where
    "writeFull ws (drop ?m (c # cs)) = (drop ?m (c # cs), ws', Some (Inr ()))"
    "keeps_writing ws' (n - 1 - length (drop ?m (c # cs)))"
    by (metis less_irrefl)
  moreover have "n - length (c # cs) \<le> n - 1 - length (drop ?m (c # cs))"
    using k(1) by simp
  ultimately have "keeps_writing ws' (n - length (c # cs))"
    "writeFull ((k, failed) # ws) (c # cs) = (take ?m (c # cs) @ drop ?m (c # cs), ws', Some (Inr ()))"
    using k(1,2) by (auto simp: keeps_writing_def Let_def)
  then show ?case by (metis append_take_drop_id)
qed (auto simp: keeps_writing_def)

lemma writeFull_prefix: "\<exists>t. fst (writeFull ws p) @ t = p"
proof (induction ws p rule: writeFull.induct)
  case (3 k failed ws c cs)
  let ?m = "min k (length (c # cs))"
  show ?case
  proof (cases "failed \<or> ?m = 0")
    case True
    then show ?thesis using append_take_drop_id [of ?m "c # cs"] by (auto simp: Let_def simp del: append_take_drop_id)
  next
    case False
    with 3 [OF refl] obtain t where "fst (writeFull ws (drop ?m (c # cs))) @ t = drop ?m (c # cs)" by blast
    then have "(take ?m (c # cs) @ fst (writeFull ws (drop ?m (c # cs)))) @ t = c # cs"
      by (metis append_assoc append_take_drop_id)
    with False show ?thesis by (auto simp: Let_def case_prod_beta)
  qed
qed auto

section \<open>Node commands\<close>

text \<open>The rules of the protocol for a node command, on bytes.\<close>

definition command_id_char :: "char \<Rightarrow> bool" where
  "command_id_char c \<longleftrightarrow> is_lower (byte_of c) \<or> is_upper (byte_of c) \<or> is_digit (byte_of c) \<or> c \<in> {CHR ''-'', CHR ''_'', CHR ''.''}"

definition drain_reason_ok :: "string \<Rightarrow> bool" where
  "drain_reason_ok s \<longleftrightarrow> TrimSpace s \<noteq> [] \<and> length s \<le> 256 \<and> list_all (\<lambda>r. \<not> IsControl r) (runes s)"

definition request_ok :: "node_command_request \<Rightarrow> bool" where
  "request_ok r \<longleftrightarrow>
     CommandID r \<noteq> [] \<and> length (CommandID r) \<le> 128 \<and> list_all command_id_char (CommandID r) \<and>
     Resource r = ''node'' \<and> Command r = ''update'' \<and>
     NodeName (Target r) \<noteq> [] \<and> length (NodeName (Target r)) \<le> 255 \<and>
     (State (Parameters r) = ''DRAIN'' \<and> (\<exists>s. Reason (Parameters r) = Some s \<and> drain_reason_ok s) \<or>
      State (Parameters r) = ''RESUME'' \<and> Reason (Parameters r) = None)"

lemma validCommandID_iff:
  "validCommandID s \<longleftrightarrow> s \<noteq> [] \<and> length s \<le> 128 \<and> list_all command_id_char s"
proof -
  let ?P = "\<lambda>r. is_lower r \<or> is_upper r \<or> is_digit r \<or> r = 45 \<or> r = 95 \<or> r = (46::nat)"
  have P: "?P (byte_of c) \<longleftrightarrow> command_id_char c" for c
  proof -
    have "byte_of c = byte_of d \<longleftrightarrow> c = d" for d :: char by simp
    from this [of "CHR ''-''"] this [of "CHR ''_''"] this [of "CHR ''.''"]
    show ?thesis by (simp add: command_id_char_def)
  qed
  have low: "?P r \<Longrightarrow> r < 128" for r by (auto simp: is_lower_def is_upper_def is_digit_def)
  have "list_all ?P (runes s) \<longleftrightarrow> list_all command_id_char s"
  proof
    assume *: "list_all ?P (runes s)"
    then have "runes s = map byte_of s" using low runes_all_ascii [of s] by (auto simp: list_all_iff)
    with * P show "list_all command_id_char s" by (simp add: list_all_iff)
  next
    assume *: "list_all command_id_char s"
    then have "\<forall>c \<in> set s. byte_of c < 128" using P low by (auto simp: list_all_iff)
    then have "runes s = map byte_of s" by (induction s) auto
    with * P show "list_all ?P (runes s)" by (simp add: list_all_iff)
  qed
  then show ?thesis by (auto simp: validCommandID_def)
qed

lemma decode_request_sound:
  "DecodeNodeCommandRequestPayload p = Inr r \<Longrightarrow> request_ok r"
  unfolding DecodeNodeCommandRequestPayload_def
  by (auto simp: Let_def request_ok_def validCommandID_iff drain_reason_ok_def list_ex_iff list_all_iff
      split: sum.splits if_splits option.splits json.splits)

definition request_utf8 :: "node_command_request \<Rightarrow> bool" where
  "request_utf8 r \<longleftrightarrow> valid_utf8 (NodeName (Target r)) \<and> (\<forall>s. Reason (Parameters r) = Some s \<longrightarrow> valid_utf8 s)"

lemma TrimSpace_object: "TrimSpace (json_text (JObj ms)) = json_text (JObj ms)"
  unfolding json_text_JObj using TrimSpace_id [of "CHR ''{''" "CHR ''}''"] by (simp add: IsSpace_def)

lemma TrimSpace_string: "TrimSpace (string_text s) = string_text s"
  using TrimSpace_id [of quote quote] by (simp add: string_text_def IsSpace_def)

lemma decodeStrictPayload_text:
  assumes "json_ok (JObj ms)" "unique_json (JObj ms)" "jdepth (JObj ms) \<le> max_depth"
  shows "decodeStrictPayload names put zero (json_text (JObj ms)) =
    (let (x, ok) = decode_members names put (map (\<lambda>(k, v). (k, json_text v)) ms) zero
     in if ok then Inr x else Inl ErrInvalidMessage)"
proof -
  have "validateUniqueJSONKeys (json_text (JObj ms)) = Inr ()"
    using read_text_json_text [OF assms(1)] assms(2) unfolding validateUniqueJSONKeys_iff by blast
  moreover have "json_text (JObj ms) \<noteq> []" "hd (json_text (JObj ms)) = CHR ''{''" by simp_all
  ultimately show ?thesis
    using strict_decode_text [OF assms(1,3), of names put zero]
    by (simp add: decodeStrictPayload_def TrimSpace_object Let_def case_prod_beta del: json_text.simps)
qed

lemma decode_struct_text:
  "json_ok (JObj ms) \<Longrightarrow>
   decode_struct names put (json_text (JObj ms)) x = decode_members names put (map (\<lambda>(k, v). (k, json_text v)) ms) x"
  by (simp add: decode_struct_def object_members_text del: json_text.simps)

lemma command_id_utf8: "list_all command_id_char s \<Longrightarrow> valid_utf8 s"
  by (rule ascii_valid) (auto simp: list_all_iff command_id_char_def is_lower_def is_upper_def is_digit_def)

lemma string_text_neq: "string_text s \<noteq> []" "string_text s \<noteq> ''null''"
  by (auto simp: string_text_def quote_def)

lemma put_target_text:
  "valid_utf8 (NodeName t) \<Longrightarrow> decode_struct [''nodeName''] put_target (json_text (target_json t)) t0 = (t, True)"
  by (cases t) (simp add: target_json_def decode_struct_text find_field_exact put_target_def put_string_def
      decode_string_text del: json_text.simps(5,6))

definition wire_of :: "node_command_request \<Rightarrow> wire_request" where
  "wire_of r = \<lparr>w_CommandID = CommandID r, w_Resource = Resource r, w_Command = Command r, w_Target = Target r,
     w_Parameters = \<lparr>w_State = State (Parameters r), w_Reason = map_option string_text (Reason (Parameters r))\<rparr>\<rparr>"

lemma decode_request_of_wire:
  assumes "decodeStrictPayload request_fields put_wire zero_wire p = Inr (wire_of r)"
    and ok: "request_ok r" and u: "request_utf8 r"
  shows "DecodeNodeCommandRequestPayload (Some p) = Inr r"
proof -
  have "read_text (string_text s) = Some (JStr s)" if "Reason (Parameters r) = Some s" for s
    using read_text_json_text [of "JStr s"] u that by (simp add: request_utf8_def)
  moreover have "validCommandID (CommandID r)"
    using ok by (auto simp: request_ok_def validCommandID_iff)
  ultimately show ?thesis
    using ok assms(1)
    unfolding DecodeNodeCommandRequestPayload_def request_ok_def drain_reason_ok_def wire_of_def
    by (cases r; cases "Parameters r")
       (auto simp: Let_def TrimSpace_string string_text_neq list_ex_iff list_all_iff)
qed

lemma request_parts:
  assumes ok: "request_ok r" and u: "request_utf8 r"
  shows "valid_utf8 (CommandID r)" "valid_utf8 (State (Parameters r))" "valid_utf8 (Resource r)" "valid_utf8 (Command r)"
    "valid_utf8 (NodeName (Target r))"
    "json_ok (parameters_json (Parameters r))" "unique_json (parameters_json (Parameters r))"
    "jdepth (parameters_json (Parameters r)) = 1"
    "json_ok (target_json (Target r))" "unique_json (target_json (Target r))" "jdepth (target_json (Target r)) = 1"
    "decode_struct [''state'', ''reason''] put_wire_parameters (json_text (parameters_json (Parameters r)))
      \<lparr>w_State = [], w_Reason = None\<rparr> =
      (\<lparr>w_State = State (Parameters r), w_Reason = map_option string_text (Reason (Parameters r))\<rparr>, True)"
proof -
  show v: "valid_utf8 (CommandID r)" "valid_utf8 (State (Parameters r))" "valid_utf8 (Resource r)" "valid_utf8 (Command r)"
    "valid_utf8 (NodeName (Target r))"
    using ok u command_id_utf8 by (auto simp: request_ok_def request_utf8_def)
  show p: "json_ok (parameters_json (Parameters r))" "unique_json (parameters_json (Parameters r))"
    "jdepth (parameters_json (Parameters r)) = 1"
    using u v by (auto simp: parameters_json_def request_utf8_def split: option.splits)
  show "json_ok (target_json (Target r))" "unique_json (target_json (Target r))" "jdepth (target_json (Target r)) = 1"
    using u by (auto simp: target_json_def request_utf8_def)
  show "decode_struct [''state'', ''reason''] put_wire_parameters (json_text (parameters_json (Parameters r)))
      \<lparr>w_State = [], w_Reason = None\<rparr> =
      (\<lparr>w_State = State (Parameters r), w_Reason = map_option string_text (Reason (Parameters r))\<rparr>, True)"
    using p(1) v u unfolding parameters_json_def
    by (simp add: decode_struct_text find_field_exact put_wire_parameters_def put_string_def decode_string_text
        del: json_text.simps(5,6) split: option.splits)
qed

lemmas put_wire_simps = max_depth_def request_fields_def find_field_exact put_wire_def put_string_def
  decode_string_text zero_wire_def put_target_text wire_of_def

lemma decode_request_complete:
  assumes "request_ok r" "request_utf8 r"
  shows "DecodeNodeCommandRequestPayload (Some (json_text (request_json r))) = Inr r"
proof (rule decode_request_of_wire [OF _ assms])
  show "decodeStrictPayload request_fields put_wire zero_wire (json_text (request_json r)) = Inr (wire_of r)"
    unfolding request_json_def using request_parts [OF assms]
    by (subst decodeStrictPayload_text) (auto simp: put_wire_simps)
qed

text \<open>The same request with a second command identifier in front, under a key that differs only in case.\<close>

definition shadowed_request_json :: "string \<Rightarrow> node_command_request \<Rightarrow> json" where
  "shadowed_request_json c r = JObj [(''commandId'', JStr c), (''COMMANDID'', JStr (CommandID r)),
     (''resource'', JStr (Resource r)), (''command'', JStr (Command r)), (''target'', target_json (Target r)),
     (''parameters'', parameters_json (Parameters r))]"

lemma find_field_shadow: "find_field request_fields ''COMMANDID'' = Some ''commandId''"
  by (simp add: find_field_def request_fields_def foldName_def fold_segment_def is_lower_def) code_simp

lemma decode_request_shadowed:
  assumes "request_ok r" "request_utf8 r" "valid_utf8 c"
  shows "DecodeNodeCommandRequestPayload (Some (json_text (shadowed_request_json c r))) = Inr r"
proof (rule decode_request_of_wire [OF _ assms(1,2)])
  have f: "find_field [''commandId'', ''resource'', ''command'', ''target'', ''parameters''] ''COMMANDID'' =
      Some ''commandId''"
    using find_field_shadow by (simp only: request_fields_def)
  show "decodeStrictPayload request_fields put_wire zero_wire (json_text (shadowed_request_json c r)) = Inr (wire_of r)"
    unfolding shadowed_request_json_def using request_parts [OF assms(1,2)] assms(3)
    by (subst decodeStrictPayload_text) (auto simp: put_wire_simps f)
qed

section \<open>Properties\<close>


definition sample_envelope :: envelope where
  "sample_envelope = NewEnvelope ''2026-01-01T00:00:00Z'' ''m1'' MessagePing (Some (json_text (JObj [])))"

lemmas text_eval = envelope_json_def opt_field_def string_text_def rune_text_def ascii_text_def commas_def

lemmas sample_eval = sample_envelope_def NewEnvelope_def ValidateEnvelope_def ProtocolName_def ProtocolVersion_def
  IsKnown_def envelope_utf8_def max_depth_def MaxPayloadSize_def text_eval

definition sample_frame :: bytes where
  "sample_frame = PutUint32 (length (json_text (envelope_json sample_envelope (JObj [])))) @
     json_text (envelope_json sample_envelope (JObj []))"

lemma sample_frame_decodes:
  "Decode \<lparr>incoming = sample_frame @ rest, broken = b\<rparr> = (\<lparr>incoming = rest, broken = b\<rparr>, sample_envelope, Inr ())"
proof -
  have "decode_payload (json_text (envelope_json sample_envelope (JObj []))) =
      (sample_envelope, ValidateEnvelope sample_envelope)"
    by (rule decode_payload_text) (simp_all add: sample_eval)
  then show ?thesis
    by (subst Decode_frame [where p = "json_text (envelope_json sample_envelope (JObj []))" and rest = rest])
       (simp_all add: sample_frame_def sample_eval)
qed


text \<open>
  C36: Whatever bytes arrive, a frame is accepted only if its header announces between one byte and
  the maximum, its text is one JSON value without repeated keys, and the envelope satisfies every
  rule; then exactly the four header bytes and the announced bytes have been consumed.\<close>

theorem Decode_accepts:
  assumes "Decode r = (r', e, Inr ())"
  shows "\<exists>header p. incoming r = header @ p @ incoming r' \<and> length header = FrameHeaderSize \<and>
    Uint32_of header = length p \<and> 0 < length p \<and> length p \<le> MaxPayloadSize \<and>
    (\<exists>v. read_text p = Some v \<and> unique_json v \<and> jdepth v \<le> max_depth) \<and>
    Protocol e = ProtocolName \<and> Version e = ProtocolVersion \<and> MessageID e \<noteq> [] \<and> IsKnown (MsgType e) \<and>
    Payload e \<noteq> None \<and> Payload e \<noteq> Some []"
proof -
  let ?s = "incoming r" and ?h = "take 4 (incoming r)"
  let ?n = "Uint32_of ?h"
  have len: "4 \<le> length ?s" "?n \<noteq> 0" "?n \<le> MaxPayloadSize" "?n \<le> length ?s - 4"
    and d: "decode_payload (take ?n (drop 4 ?s)) = (e, Inr ())" and r': "incoming r' = drop ?n (drop 4 ?s)"
    using assms
    by (auto simp: Decode_def ReadFull_def FrameHeaderSize_def Let_def case_prod_beta split: if_splits)
  let ?p = "take ?n (drop 4 ?s)"
  obtain v where v: "read_text ?p = Some v" "unique_json v"
    using d validateUniqueJSONKeys_error [of ?p] validateUniqueJSONKeys_iff [of ?p]
    by (cases "validateUniqueJSONKeys ?p = Inr ()") (auto simp: decode_payload_def)
  then obtain rest where "read_value ?p = Some (v, rest)"
    by (auto simp: read_text_def split: option.splits if_splits)
  with d v have "jdepth v \<le> max_depth" "ValidateEnvelope e = Inr ()"
    by (auto simp: decode_payload_def strict_decode_def Let_def case_prod_beta split: sum.splits if_splits)
  moreover have "?s = ?h @ ?p @ incoming r'" using r' by (metis append_take_drop_id)
  ultimately show ?thesis
    using len v
    by (intro exI [of _ ?h] exI [of _ ?p])
       (auto simp: FrameHeaderSize_def ValidateEnvelope_def blen_0_iff min_def split: if_splits)
qed

theorem Decode_accepts_witness:
  "\<exists>header p. sample_frame @ ''tail'' = header @ p @ ''tail'' \<and> length header = FrameHeaderSize \<and>
    Uint32_of header = length p \<and> 0 < length p \<and> length p \<le> MaxPayloadSize \<and>
    (\<exists>v. read_text p = Some v \<and> unique_json v \<and> jdepth v \<le> max_depth) \<and> MessageID sample_envelope \<noteq> []"
  using Decode_accepts [OF sample_frame_decodes [of "''tail''" False]] by auto

text \<open>
  C22: The key check accepts a text exactly when it is one JSON value, without anything but white
  space around it, in which no object has a key twice and every number fits a float; every
  refusal is an invalid message.\<close>

theorem validateUniqueJSONKeys_exact:
  "validateUniqueJSONKeys data =
     (if \<exists>v. read_text data = Some v \<and> unique_json v then Inr () else Inl ErrInvalidMessage)"
  using validateUniqueJSONKeys_iff [of data] validateUniqueJSONKeys_error [of data] by auto


definition sample_request :: node_command_request where
  "sample_request = \<lparr>CommandID = ''cmd-1'', Resource = ''node'', Command = ''update'', Target = \<lparr>NodeName = ''n1''\<rparr>,
     Parameters = \<lparr>State = ''DRAIN'', Reason = Some ''bad disk''\<rparr>\<rparr>"

lemma sample_request_ok: "request_ok sample_request" "request_utf8 sample_request"
  by (simp_all add: sample_request_def request_ok_def request_utf8_def command_id_char_def drain_reason_ok_def
      is_lower_def is_digit_def TrimSpace_empty_iff IsSpace_def IsControl_def)


text \<open>
  A request that names its command identifier twice, under keys that differ only in the case of
  their letters, passes the check for repeated keys and is accepted with the second identifier.\<close>

theorem case_variant_keys_accepted:
  assumes "request_ok r" "request_utf8 r" "valid_utf8 c"
  shows "validateUniqueJSONKeys (json_text (shadowed_request_json c r)) = Inr () \<and>
    DecodeNodeCommandRequestPayload (Some (json_text (shadowed_request_json c r))) = Inr r"
proof -
  have "json_ok (shadowed_request_json c r)" "unique_json (shadowed_request_json c r)"
    using request_parts [OF assms(1,2)] assms(3) by (auto simp: shadowed_request_json_def)
  then show ?thesis
    using decode_request_shadowed [OF assms] read_text_json_text validateUniqueJSONKeys_iff by blast
qed

theorem case_variant_keys_accepted_witness:
  "validateUniqueJSONKeys (json_text (shadowed_request_json ''other'' sample_request)) = Inr () \<and>
    DecodeNodeCommandRequestPayload (Some (json_text (shadowed_request_json ''other'' sample_request))) =
      Inr sample_request"
  by (rule case_variant_keys_accepted) (simp_all add: sample_request_ok)

end
