(* ===== verification/Connection.thy ===== *)
theory Connection
  imports Go_Text
begin

text \<open>
  Connections and their manager (\<^verbatim>\<open>internal/connection/connection.go\<close>): the identity of the peer of a
  Unix socket, the life cycle of a connection, and the table of active connections. The manager
  holds pointers, so connections live in a store of objects and the table maps an identifier to an
  address; a connection closed through the manager is closed for its owner too.
\<close>

section \<open>Identity\<close>

record user_context =
  UID :: uint32
  GID :: uint32
  Username :: string
  AdminLevel :: string
  Accounts :: "string list"
  CoordinatorAccounts :: "string list"
  Capabilities :: "(string \<times> bool) list"

record peer_identity =
  peer_UID :: uint32
  peer_GID :: uint32
  peer_Username :: string

datatype conn_error = ErrNilConnection | ErrPeerIdentityUnavailable | ErrRandom | ErrDuplicateID

text \<open>\<^verbatim>\<open>lookup\<close> resolves the decimal form of a user identifier to a user name.\<close>

definition peerIdentityForCredentials ::
  "uint32 \<Rightarrow> uint32 \<Rightarrow> (string \<Rightarrow> string option) \<Rightarrow> conn_error + peer_identity" where
  "peerIdentityForCredentials uid gid lookup =
     (case lookup (dec (unat uid)) of
        None \<Rightarrow> Inl ErrPeerIdentityUnavailable
      | Some name \<Rightarrow>
        if name = [] then Inl ErrPeerIdentityUnavailable
        else Inr \<lparr>peer_UID = uid, peer_GID = gid, peer_Username = name\<rparr>)"

text \<open>
  What the operating system says about a socket: whether it is a Unix socket, whether its
  descriptor can be reached, and the credentials of the peer, if the kernel gives them.
\<close>

record socket_env =
  is_unix :: bool
  syscall_ok :: bool
  control_ok :: bool
  ucred :: "(uint32 \<times> uint32) option"
  user_lookup :: "string \<Rightarrow> string option"

definition peerIdentity :: "socket_env \<Rightarrow> conn_error + peer_identity" where
  "peerIdentity env =
     (if \<not> is_unix env then Inl ErrPeerIdentityUnavailable
      else if \<not> syscall_ok env then Inl ErrPeerIdentityUnavailable
      else if \<not> control_ok env then Inl ErrPeerIdentityUnavailable
      else
        (case ucred env of
           None \<Rightarrow> Inl ErrPeerIdentityUnavailable
         | Some (uid, gid) \<Rightarrow> peerIdentityForCredentials uid gid (user_lookup env)))"

text \<open>\<open>rand\<close> is what the random source delivers for one identifier: 16 bytes, or a failure.\<close>

definition hex_char :: "nat \<Rightarrow> char" where
  "hex_char n = (if n < 10 then char_of (48 + n) else char_of (87 + n))"

definition hex_bytes :: "bytes \<Rightarrow> string" where
  "hex_bytes b = concat (map (\<lambda>c. [hex_char (byte_of c div 16), hex_char (byte_of c mod 16)]) b)"

definition newID :: "bytes option \<Rightarrow> string \<Rightarrow> conn_error + string" where
  "newID rand prefix =
     (case rand of None \<Rightarrow> Inl ErrRandom | Some b \<Rightarrow> Inr (prefix @ ''-'' @ hex_bytes b))"

section \<open>Connections\<close>

datatype conn_state = StateNew | StateActive | StateClosing | StateClosed

text \<open>The states in the order in which a connection goes through them.\<close>

fun state_rank :: "conn_state \<Rightarrow> nat" where
  "state_rank StateNew = 0"
| "state_rank StateActive = 1"
| "state_rank StateClosing = 2"
| "state_rank StateClosed = 3"

lemma state_rank_inject: "state_rank s = state_rank t \<longleftrightarrow> s = t"
  by (cases s; cases t) simp_all

instantiation conn_state :: linorder
begin

definition less_eq_conn_state :: "conn_state \<Rightarrow> conn_state \<Rightarrow> bool" where
  "less_eq_conn_state s t \<longleftrightarrow> state_rank s \<le> state_rank t"

definition less_conn_state :: "conn_state \<Rightarrow> conn_state \<Rightarrow> bool" where
  "less_conn_state s t \<longleftrightarrow> state_rank s < state_rank t"

instance
  by standard (auto simp: less_eq_conn_state_def less_conn_state_def state_rank_inject)

end

record session =
  sess_ID :: string
  sess_ConnectionID :: string
  sess_UserContext :: user_context

record connection =
  conn_ID :: string
  Session :: session
  User :: user_context
  cancelled :: bool
  ConnState :: conn_state
  socket_closed :: bool

definition peer_user :: "peer_identity \<Rightarrow> user_context" where
  "peer_user p = \<lparr>UID = peer_UID p, GID = peer_GID p, Username = peer_Username p, AdminLevel = [], Accounts = [],
     CoordinatorAccounts = [], Capabilities = []\<rparr>"

text \<open>\<^verbatim>\<open>mustNewID\<close> panics when the random source fails; \<open>None\<close> is the panic.\<close>

definition mustNewID :: "bytes option \<Rightarrow> string \<Rightarrow> string option" where
  "mustNewID rand prefix = (case newID rand prefix of Inl _ \<Rightarrow> None | Inr i \<Rightarrow> Some i)"

definition NewConnection ::
  "socket_env option \<Rightarrow> bytes option \<Rightarrow> bytes option \<Rightarrow> (conn_error + connection) option" where
  "NewConnection conn rand1 rand2 =
     (case conn of None \<Rightarrow> Some (Inl ErrNilConnection)
      | Some env \<Rightarrow>
        (case newID rand1 ''conn'' of Inl err \<Rightarrow> Some (Inl err)
         | Inr cid \<Rightarrow>
           (case peerIdentity env of Inl err \<Rightarrow> Some (Inl err)
            | Inr peer \<Rightarrow>
              (let user = peer_user peer in
               if UID user = 0 \<and> GID user = 0 \<and> Username user = [] then Some (Inl ErrPeerIdentityUnavailable)
               else
                 (case mustNewID rand2 ''sess'' of None \<Rightarrow> None
                  | Some sid \<Rightarrow>
                    Some (Inr \<lparr>conn_ID = cid,
                      Session = \<lparr>sess_ID = sid, sess_ConnectionID = cid, sess_UserContext = user\<rparr>,
                      User = user, cancelled = False, ConnState = StateActive, socket_closed = False\<rparr>))))))"

text \<open>
  \<^verbatim>\<open>Close\<close> runs in two critical sections with the closing of the socket between them; other
  goroutines may run in between.
\<close>

definition close_begin :: "connection \<Rightarrow> connection" where
  "close_begin c =
     (if ConnState c = StateClosed then c
      else c\<lparr>ConnState := StateClosing, cancelled := True\<rparr>)"

definition close_end :: "connection \<Rightarrow> connection" where
  "close_end c = c\<lparr>socket_closed := True, ConnState := StateClosed\<rparr>"

definition conn_Close :: "connection \<Rightarrow> connection" where
  "conn_Close c = (if ConnState c = StateClosed then c else close_end (close_begin c))"

section \<open>The manager\<close>

type_synonym addr = nat

record conn_manager =
  objects :: "addr \<Rightarrow> connection option"
  connections :: "(string \<times> addr) list"

definition NewConnectionManager :: conn_manager where
  "NewConnectionManager = \<lparr>objects = (\<lambda>_. None), connections = []\<rparr>"

text \<open>Allocating a connection is what \<^verbatim>\<open>NewConnection\<close>'s caller holds before it registers it.\<close>

definition alloc :: "addr \<Rightarrow> connection \<Rightarrow> conn_manager \<Rightarrow> conn_manager" where
  "alloc a c m = m\<lparr>objects := (objects m)(a := Some c)\<rparr>"

definition close_object :: "addr \<Rightarrow> conn_manager \<Rightarrow> conn_manager" where
  "close_object a m = m\<lparr>objects := (objects m)(a := map_option conn_Close (objects m a))\<rparr>"

definition Get :: "string \<Rightarrow> conn_manager \<Rightarrow> addr option" where
  "Get connectionID m = map_option snd (tab_find fst connectionID (connections m))"

definition Register :: "addr option \<Rightarrow> conn_manager \<Rightarrow> conn_manager \<times> (conn_error + unit)" where
  "Register conn m =
     (case conn of None \<Rightarrow> (m, Inl ErrNilConnection)
      | Some a \<Rightarrow>
        (case objects m a of None \<Rightarrow> (m, Inl ErrNilConnection)
         | Some c \<Rightarrow>
           if Get (conn_ID c) m \<noteq> None then (m, Inl ErrDuplicateID)
           else (m\<lparr>connections := connections m @ [(conn_ID c, a)]\<rparr>, Inr ())))"

definition Unregister :: "string \<Rightarrow> conn_manager \<Rightarrow> conn_manager" where
  "Unregister connectionID m = m\<lparr>connections := filter (\<lambda>p. fst p \<noteq> connectionID) (connections m)\<rparr>"

text \<open>
  \<^verbatim>\<open>Close\<close> and \<^verbatim>\<open>CloseAll\<close> take connections out of the table in a critical section and close them
  outside it.
\<close>

definition manager_take :: "string \<Rightarrow> conn_manager \<Rightarrow> conn_manager \<times> addr option" where
  "manager_take connectionID m =
     (case Get connectionID m of None \<Rightarrow> (m, None)
      | Some a \<Rightarrow> (Unregister connectionID m, Some a))"

definition manager_Close :: "string \<Rightarrow> conn_manager \<Rightarrow> conn_manager" where
  "manager_Close connectionID m =
     (case manager_take connectionID m of (m', None) \<Rightarrow> m' | (m', Some a) \<Rightarrow> close_object a m')"

definition manager_take_all :: "conn_manager \<Rightarrow> conn_manager \<times> addr list" where
  "manager_take_all m = (m\<lparr>connections := []\<rparr>, map snd (connections m))"

definition CloseAll :: "conn_manager \<Rightarrow> conn_manager" where
  "CloseAll m = (let (m', conns) = manager_take_all m in fold close_object conns m')"

definition Count :: "conn_manager \<Rightarrow> nat" where
  "Count m = length (connections m)"

section \<open>Facts\<close>

text \<open>A closed connection has its context cancelled and its socket closed.\<close>

definition conn_ok :: "connection \<Rightarrow> bool" where
  "conn_ok c \<longleftrightarrow> Username (User c) \<noteq> [] \<and> sess_UserContext (Session c) = User c \<and> sess_ConnectionID (Session c) = conn_ID c \<and>
     (ConnState c = StateActive \<longrightarrow> \<not> cancelled c) \<and> (ConnState c \<noteq> StateActive \<longrightarrow> cancelled c) \<and>
     (ConnState c = StateClosed \<longrightarrow> socket_closed c) \<and> ConnState c \<noteq> StateNew"

definition manager_ok :: "conn_manager \<Rightarrow> bool" where
  "manager_ok m \<longleftrightarrow> tab_unique fst (connections m) \<and>
     (\<forall>(i, a) \<in> set (connections m). \<exists>c. objects m a = Some c \<and> conn_ID c = i) \<and>
     (\<forall>a c. objects m a = Some c \<longrightarrow> conn_ok c)"

lemma conn_Close_facts [simp]:
  "conn_ID (conn_Close c) = conn_ID c" "User (conn_Close c) = User c" "ConnState (conn_Close c) = StateClosed"
  "conn_Close (conn_Close c) = conn_Close c"
  by (simp_all add: conn_Close_def close_begin_def close_end_def)

lemma conn_ok_Close: "conn_ok c \<Longrightarrow> conn_ok (conn_Close c)"
  by (auto simp: conn_ok_def conn_Close_def close_begin_def close_end_def)

lemma peerIdentity_from_kernel:
  "peerIdentity env = Inr p \<Longrightarrow>
     is_unix env \<and> ucred env = Some (peer_UID p, peer_GID p) \<and>
     user_lookup env (dec (unat (peer_UID p))) = Some (peer_Username p) \<and> peer_Username p \<noteq> []"
  by (auto simp: peerIdentity_def peerIdentityForCredentials_def split: if_splits option.splits)

lemma NewConnection_ok:
  "NewConnection conn r1 r2 = Some (Inr c) \<Longrightarrow>
     conn_ok c \<and> ConnState c = StateActive \<and>
     (\<exists>env p. conn = Some env \<and> peerIdentity env = Inr p \<and> User c = peer_user p)"
  unfolding NewConnection_def
  by (auto simp: conn_ok_def peer_user_def Let_def dest: peerIdentity_from_kernel
      split: option.splits sum.splits if_splits)

lemma close_object_connections [simp]: "connections (close_object a m) = connections m"
  by (simp add: close_object_def)

lemma manager_ok_alloc:
  "manager_ok m \<Longrightarrow> objects m a = None \<Longrightarrow> conn_ok c \<Longrightarrow> manager_ok (alloc a c m)"
  by (fastforce simp: manager_ok_def alloc_def)

lemma manager_ok_Register: "manager_ok m \<Longrightarrow> manager_ok (fst (Register a m))"
  by (fastforce simp: manager_ok_def Register_def Get_def tab_unique_append tab_find_None_iff split: option.splits)

lemma manager_ok_Unregister: "manager_ok m \<Longrightarrow> manager_ok (Unregister i m)"
  by (auto simp: manager_ok_def Unregister_def tab_unique_filter)

lemma manager_ok_close_object: "manager_ok m \<Longrightarrow> manager_ok (close_object a m)"
  by (fastforce simp: manager_ok_def close_object_def conn_ok_Close)

lemma manager_ok_fold_close: "manager_ok m \<Longrightarrow> manager_ok (fold close_object as m)"
  by (induction as arbitrary: m) (auto simp: manager_ok_close_object)

lemma manager_ok_Close: "manager_ok m \<Longrightarrow> manager_ok (manager_Close i m)"
  by (auto simp: manager_Close_def manager_take_def manager_ok_close_object manager_ok_Unregister split: option.splits)

lemma manager_ok_CloseAll: "manager_ok m \<Longrightarrow> manager_ok (CloseAll m)"
  by (auto simp: CloseAll_def manager_take_all_def manager_ok_def intro!: manager_ok_fold_close [unfolded manager_ok_def])

lemma fold_close_object:
  "connections (fold close_object as m) = connections m"
  "objects (fold close_object as m) b = (if b \<in> set as then map_option conn_Close (objects m b) else objects m b)"
  by (induction as arbitrary: m) (auto simp: close_object_def option.map_comp comp_def)

lemma CloseAll_closes:
  assumes "manager_ok m"
  shows "connections (CloseAll m) = []"
    "Get i m = Some a \<Longrightarrow> \<exists>c. objects (CloseAll m) a = Some c \<and> ConnState c = StateClosed \<and> cancelled c \<and> socket_closed c"
proof -
  show "connections (CloseAll m) = []" by (simp add: CloseAll_def manager_take_all_def fold_close_object)
  assume "Get i m = Some a"
  then have a: "(i, a) \<in> set (connections m)"
    by (auto simp: Get_def dest: tab_find_SomeD)
  with assms obtain c where c: "objects m a = Some c" "conn_ok c" by (fastforce simp: manager_ok_def)
  with a have "objects (CloseAll m) a = Some (conn_Close c)"
    by (force simp: CloseAll_def manager_take_all_def fold_close_object)
  with conn_ok_Close [OF c(2)] show "\<exists>c. objects (CloseAll m) a = Some c \<and> ConnState c = StateClosed \<and> cancelled c \<and> socket_closed c"
    by (auto simp: conn_ok_def)
qed

lemma Get_Register:
  "snd (Register (Some a) m) = Inr () \<Longrightarrow> objects m a = Some c \<Longrightarrow>
   Get i (fst (Register (Some a) m)) = (if i = conn_ID c then Some a else Get i m)"
  by (auto simp: Register_def Get_def tab_find_append split: if_splits option.splits)

lemma Get_Unregister: "manager_ok m \<Longrightarrow> Get i (Unregister j m) = (if i = j then None else Get i m)"
  by (auto simp: Get_def Unregister_def manager_ok_def tab_find_filter split: option.splits
      dest: tab_find_SomeD)

end
