(* ===== verification/Connection_Props.thy ===== *)
theory Connection_Props
  imports Connection "HOL-Library.Multiset"
begin

text \<open>
  The goroutines around the table of connections: connections are created, registered, unregistered and
  closed by their owners and through the manager, each critical section one step, in any order.
\<close>

section \<open>The interface of the manager\<close>

text \<open>
  \<^verbatim>\<open>ConnectionManager\<close> as the IPC server uses it: a connection is registered while it is served and
  forgotten when the serving ends. \<open>ident\<close> is the identifier of the connection behind an address.
\<close>

locale connection_table =
  fixes inv :: "'m \<Rightarrow> bool"
    and get :: "string \<Rightarrow> 'm \<Rightarrow> 'a option"
    and register :: "'a \<Rightarrow> 'm \<Rightarrow> 'm \<times> ('e + unit)"
    and unregister :: "string \<Rightarrow> 'm \<Rightarrow> 'm"
    and count :: "'m \<Rightarrow> nat"
    and ident :: "'a \<Rightarrow> 'm \<Rightarrow> string option"
  assumes register_ok: "inv m \<Longrightarrow> ident a m = Some i \<Longrightarrow> get i m = None \<Longrightarrow> snd (register a m) = Inr ()"
    and register_get: "inv m \<Longrightarrow> ident a m = Some i \<Longrightarrow> snd (register a m) = Inr () \<Longrightarrow>
      get i m = None \<and> get j (fst (register a m)) = (if j = i then Some a else get j m) \<and> count (fst (register a m)) = Suc (count m)"
    and register_refused: "snd (register a m) \<noteq> Inr () \<Longrightarrow> fst (register a m) = m"
    and register_inv: "inv m \<Longrightarrow> inv (fst (register a m))"
    and unregister_get: "inv m \<Longrightarrow> get j (unregister i m) = (if j = i then None else get j m)"
    and unregister_count: "inv m \<Longrightarrow> get i m \<noteq> None \<Longrightarrow> Suc (count (unregister i m)) = count m"
    and unregister_inv: "inv m \<Longrightarrow> inv (unregister i m)"
begin

text \<open>A served connection is in the table exactly while it is served, and others do not notice it.\<close>

lemma served_and_forgotten:
  assumes "inv m" "ident a m = Some i" "register a m = (m', Inr ())"
  shows "get i m' = Some a" "inv (unregister i m')" "get j (unregister i m') = get j m" "count (unregister i m') = count m"
proof -
  have r: "get i m = None" "\<And>j. get j m' = (if j = i then Some a else get j m)" "count m' = Suc (count m)"
    using register_get [OF assms(1,2)] assms(3) by auto
  have m': "inv m'" using register_inv [OF assms(1), of a] assms(3) by simp
  show "get i m' = Some a" using r by simp
  then show "inv (unregister i m')" "get j (unregister i m') = get j m" "count (unregister i m') = count m"
    using unregister_inv [OF m'] unregister_get [OF m'] unregister_count [OF m', of i] r by auto
qed

text \<open>A second connection under a registered identifier is refused, and the first one stays.\<close>

lemma duplicate_refused:
  assumes "inv m" "ident a m = Some i" "get i m = Some b"
  shows "snd (register a m) \<noteq> Inr ()" "fst (register a m) = m"
  using register_get [OF assms(1,2)] register_refused [of a m] assms(3) by auto

end

definition conn_ident :: "addr \<Rightarrow> conn_manager \<Rightarrow> string option" where
  "conn_ident a m = map_option conn_ID (objects m a)"

lemma unregister_length:
  "tab_unique fst rows \<Longrightarrow> tab_find fst i rows \<noteq> None \<Longrightarrow> Suc (length (filter (\<lambda>p. fst p \<noteq> i) rows)) = length rows"
proof (induction rows)
  case (Cons p rows)
  show ?case
  proof (cases "fst p = i")
    case True
    with Cons.prems(1) have "\<forall>q \<in> set rows. fst q \<noteq> i" by (metis tab_unique_Cons image_eqI)
    then have "filter (\<lambda>p. fst p \<noteq> i) rows = rows" by simp
    with True show ?thesis by simp
  next
    case False
    with Cons show ?thesis by (auto simp: tab_unique_def tab_find_def)
  qed
qed (simp add: tab_find_def)

interpretation table: connection_table manager_ok Get "\<lambda>a. Register (Some a)" Unregister Count conn_ident
proof unfold_locales
  fix m a i assume "manager_ok m" "conn_ident a m = Some i" "Get i m = None"
  then show "snd (Register (Some a) m) = Inr ()" by (auto simp: conn_ident_def Register_def)
next
  fix m a i j assume "manager_ok m" "conn_ident a m = Some i" "snd (Register (Some a) m) = Inr ()"
  then show "Get i m = None \<and> Get j (fst (Register (Some a) m)) = (if j = i then Some a else Get j m) \<and>
      Count (fst (Register (Some a) m)) = Suc (Count m)"
    using Get_Register [of a m _ j] by (auto simp: conn_ident_def Register_def Count_def split: if_splits)
next
  fix a m assume "snd (Register (Some a) m) \<noteq> Inr ()"
  then show "fst (Register (Some a) m) = m" by (auto simp: Register_def split: option.splits if_splits)
next
  fix m i assume "manager_ok m" "Get i m \<noteq> None"
  then show "Suc (Count (Unregister i m)) = Count m"
    using unregister_length [of "connections m" i] by (auto simp: Count_def Unregister_def Get_def manager_ok_def)
qed (auto simp: manager_ok_Register manager_ok_Unregister Get_Unregister)

section \<open>Closing under interleaving\<close>

text \<open>
  \<open>made\<close> remembers the socket of every connection object. \<open>to_begin\<close> are the connections that a
  goroutine has taken to close, \<open>ending\<close> those between the two critical sections of \<^verbatim>\<open>Close\<close>; \<open>told\<close>
  remembers all that the manager has taken to close.
\<close>

record table_sys =
  mgr :: conn_manager
  made :: "addr \<Rightarrow> socket_env option"
  to_begin :: "addr multiset"
  ending :: "addr multiset"
  told :: "addr set"

definition begin_object :: "addr \<Rightarrow> conn_manager \<Rightarrow> conn_manager" where
  "begin_object a m = m\<lparr>objects := (objects m)(a := map_option close_begin (objects m a))\<rparr>"

definition end_object :: "addr \<Rightarrow> conn_manager \<Rightarrow> conn_manager" where
  "end_object a m = m\<lparr>objects := (objects m)(a := map_option close_end (objects m a))\<rparr>"

inductive table_step :: "table_sys \<Rightarrow> table_sys \<Rightarrow> bool" where
  create: "NewConnection (Some env) rand1 rand2 = Some (Inr c) \<Longrightarrow> objects (mgr y) a = None \<Longrightarrow>
    table_step y (y\<lparr>mgr := alloc a c (mgr y), made := (made y)(a \<mapsto> env)\<rparr>)"
| register: "table_step y (y\<lparr>mgr := fst (Register (Some a) (mgr y))\<rparr>)"
| unregister: "table_step y (y\<lparr>mgr := Unregister i (mgr y)\<rparr>)"
| owner_closes: "objects (mgr y) a \<noteq> None \<Longrightarrow> table_step y (y\<lparr>to_begin := add_mset a (to_begin y)\<rparr>)"
| manager_closes: "manager_take i (mgr y) = (m', Some a) \<Longrightarrow>
    table_step y (y\<lparr>mgr := m', to_begin := add_mset a (to_begin y), told := insert a (told y)\<rparr>)"
| close_all: "manager_take_all (mgr y) = (m', as) \<Longrightarrow>
    table_step y (y\<lparr>mgr := m', to_begin := mset as + to_begin y, told := set as \<union> told y\<rparr>)"
| close_over: "a \<in># to_begin y \<Longrightarrow> objects (mgr y) a = Some c \<Longrightarrow> ConnState c = StateClosed \<Longrightarrow>
    table_step y (y\<lparr>to_begin := to_begin y - {#a#}\<rparr>)"
| close_first: "a \<in># to_begin y \<Longrightarrow> objects (mgr y) a = Some c \<Longrightarrow> ConnState c \<noteq> StateClosed \<Longrightarrow>
    table_step y (y\<lparr>mgr := begin_object a (mgr y), to_begin := to_begin y - {#a#}, ending := add_mset a (ending y)\<rparr>)"
| close_second: "a \<in># ending y \<Longrightarrow> table_step y (y\<lparr>mgr := end_object a (mgr y), ending := ending y - {#a#}\<rparr>)"

definition table_start :: table_sys where
  "table_start = \<lparr>mgr = NewConnectionManager, made = (\<lambda>_. None), to_begin = {#}, ending = {#}, told = {}\<rparr>"

definition kernel_peer :: "socket_env \<Rightarrow> user_context \<Rightarrow> bool" where
  "kernel_peer env u \<longleftrightarrow> (\<exists>uid gid name. is_unix env \<and> ucred env = Some (uid, gid) \<and>
     user_lookup env (dec (unat uid)) = Some name \<and> name \<noteq> [] \<and> UID u = uid \<and> GID u = gid \<and> Username u = name)"

definition from_kernel :: "socket_env \<Rightarrow> connection \<Rightarrow> bool" where
  "from_kernel env c \<longleftrightarrow> kernel_peer env (User c)"

definition object_inv :: "table_sys \<Rightarrow> addr \<Rightarrow> connection \<Rightarrow> bool" where
  "object_inv y a c \<longleftrightarrow> (\<exists>env. made y a = Some env \<and> from_kernel env c) \<and>
     (ConnState c = StateClosing \<longrightarrow> a \<in># ending y) \<and> (a \<in># ending y \<longrightarrow> ConnState c \<noteq> StateActive) \<and>
     (a \<in> told y \<longrightarrow> a \<in># to_begin y \<or> ConnState c \<noteq> StateActive)"

definition table_inv :: "table_sys \<Rightarrow> bool" where
  "table_inv y \<longleftrightarrow> manager_ok (mgr y) \<and> (\<forall>a c. objects (mgr y) a = Some c \<longrightarrow> object_inv y a c) \<and>
     (\<forall>a. a \<in># to_begin y \<or> a \<in># ending y \<or> a \<in> told y \<longrightarrow> objects (mgr y) a \<noteq> None)"

lemma close_facts:
  "conn_ID (close_begin c) = conn_ID c" "User (close_begin c) = User c"
  "conn_ID (close_end c) = conn_ID c" "User (close_end c) = User c" "ConnState (close_end c) = StateClosed"
  "ConnState c \<noteq> StateClosed \<Longrightarrow> ConnState (close_begin c) = StateClosing"
  "conn_ok c \<Longrightarrow> conn_ok (close_begin c)" "conn_ok c \<Longrightarrow> ConnState c \<noteq> StateActive \<Longrightarrow> conn_ok (close_end c)"
  by (auto simp: close_begin_def close_end_def conn_ok_def)

lemma from_kernel_User: "User c' = User c \<Longrightarrow> from_kernel env c' = from_kernel env c"
  by (simp add: from_kernel_def)

lemma NewConnection_from_kernel: "NewConnection (Some env) r1 r2 = Some (Inr c) \<Longrightarrow> from_kernel env c"
  using NewConnection_ok [of "Some env" r1 r2 c]
  by (auto simp: from_kernel_def kernel_peer_def peer_user_def dest: peerIdentity_from_kernel)

lemma objects_of [simp]:
  "objects (fst (Register (Some a) m)) = objects m" "objects (Unregister i m) = objects m"
  by (auto simp: Register_def Unregister_def split: option.splits)

lemma manager_ok_object:
  assumes "manager_ok m" "objects m a = Some c" "conn_ok c'" "conn_ID c' = conn_ID c"
  shows "manager_ok (m\<lparr>objects := (objects m)(a := Some c')\<rparr>)"
  using assms by (fastforce simp: manager_ok_def)

lemma table_entry:
  assumes "manager_ok m" "(i, a) \<in> set (connections m)"
  shows "objects m a \<noteq> None"
  using assms by (force simp: manager_ok_def)

lemma taken_entry:
  assumes "manager_ok m" "manager_take i m = (m', Some a)"
  shows "m' = Unregister i m" "objects m a \<noteq> None"
  using assms by (auto simp: manager_take_def Get_def dest!: tab_find_SomeD table_entry split: option.splits)

lemma state_le_closed [simp]: "s \<le> StateClosed"
  by (cases s) (simp_all add: less_eq_conn_state_def)

lemma state_le_closing: "s \<noteq> StateClosed \<Longrightarrow> s \<le> StateClosing"
  by (cases s) (simp_all add: less_eq_conn_state_def)

text \<open>A step changes neither the identity nor the user of an object, and moves its state only forward.\<close>

lemma table_step_forward:
  "table_step y y' \<Longrightarrow> objects (mgr y) a = Some c \<Longrightarrow>
   \<exists>c'. objects (mgr y') a = Some c' \<and> conn_ID c' = conn_ID c \<and> User c' = User c \<and> ConnState c \<le> ConnState c'"
  by (induction rule: table_step.induct)
    (auto simp: alloc_def manager_take_all_def manager_take_def begin_object_def end_object_def close_facts state_le_closing
      split: option.splits)

lemma table_inv_step: "table_step y y' \<Longrightarrow> table_inv y \<Longrightarrow> table_inv y'"
proof (induction rule: table_step.induct)
  case (create env rand1 rand2 c y a)
  then show ?case
    using NewConnection_ok [OF create(1)] NewConnection_from_kernel [OF create(1)]
    by (auto simp: table_inv_def object_inv_def alloc_def manager_ok_alloc [unfolded alloc_def])
next
  case (register y a)
  then show ?case by (auto simp: table_inv_def object_inv_def manager_ok_Register)
next
  case (unregister y i)
  then show ?case by (auto simp: table_inv_def object_inv_def manager_ok_Unregister)
next
  case (owner_closes y a)
  then show ?case by (auto simp: table_inv_def object_inv_def)
next
  case (manager_closes i y m' a)
  then have "manager_ok (mgr y)" by (simp add: table_inv_def)
  from taken_entry [OF this manager_closes(1)] manager_closes(2) show ?case
    by (auto simp: table_inv_def object_inv_def manager_ok_Unregister)
next
  case (close_all y m' as)
  then have m': "m' = (mgr y)\<lparr>connections := []\<rparr>" "as = map snd (connections (mgr y))" "manager_ok (mgr y)"
    by (auto simp: manager_take_all_def table_inv_def)
  then have "\<forall>a \<in> set as. objects (mgr y) a \<noteq> None" using table_entry [OF m'(3)] by auto
  with m'(1) close_all(2) show ?case
    by (auto simp: table_inv_def object_inv_def manager_ok_def)
next
  case (close_over a y c)
  then show ?case by (auto simp: table_inv_def object_inv_def in_diff_count dest: in_diffD)
next
  case (close_first a y c)
  then have "begin_object a (mgr y) = (mgr y)\<lparr>objects := (objects (mgr y))(a := Some (close_begin c))\<rparr>"
    by (simp add: begin_object_def)
  moreover from close_first have "manager_ok (\<dots>)"
    by (intro manager_ok_object [of _ _ c]) (auto simp: table_inv_def manager_ok_def close_facts)
  ultimately show ?case using close_first
    by (auto simp: table_inv_def object_inv_def close_facts from_kernel_User [OF close_facts(2)] in_diff_count dest: in_diffD)
next
  case (close_second a y)
  then obtain c where c: "objects (mgr y) a = Some c" by (auto simp: table_inv_def)
  then have "end_object a (mgr y) = (mgr y)\<lparr>objects := (objects (mgr y))(a := Some (close_end c))\<rparr>"
    by (simp add: end_object_def)
  moreover from close_second c have "manager_ok (\<dots>)"
    by (intro manager_ok_object [of _ _ c]) (auto simp: table_inv_def object_inv_def manager_ok_def close_facts)
  ultimately show ?case using close_second c
    by (auto simp: table_inv_def object_inv_def close_facts from_kernel_User [OF close_facts(4)] in_diff_count dest: in_diffD)
qed


definition sample_socket :: socket_env where
  "sample_socket = \<lparr>is_unix = True, syscall_ok = True, control_ok = True, ucred = Some (1008, 100), user_lookup = (\<lambda>_. Some ''alice'')\<rparr>"


end
