(* ===== verification/Access.thy ===== *)
theory Access
  imports Connection
begin

text \<open>
  Who may do what: the capabilities of a Slurm user (\<^verbatim>\<open>internal/identity/capabilities.go\<close>), the
  registry of command operations (\<^verbatim>\<open>internal/authorization/registry.go\<close>) and the authorizer
  (\<^verbatim>\<open>internal/authorization/authorizer.go\<close>). A Go map is an association list with one pair per
  key; the checks do not depend on its order.
\<close>

section \<open>Capabilities\<close>

definition CapabilityNodeDrain :: string where "CapabilityNodeDrain = ''nodes.drain''"
definition CapabilityNodeResume :: string where "CapabilityNodeResume = ''nodes.resume''"

datatype access_error = ErrIdentityUnavailable | ErrSlurmUserNotFound | ErrSlurmUserLookup
  | ErrUnknownAdminLevel | ErrInvalidRegistry | ErrUnknownOperation | ErrResolverUnavailable

record slurm_user =
  su_Username :: string
  su_AdminLevel :: string
  su_Accounts :: "string list"
  su_CoordinatorAccounts :: "string list"

text \<open>The lookup of the interface \<^verbatim>\<open>SlurmUserLookup\<close>: an error, no such user, or the user.\<close>

type_synonym user_lookup_fn = "string \<Rightarrow> access_error + slurm_user option"

definition normalizeAdminLevel :: "string \<Rightarrow> access_error + string" where
  "normalizeAdminLevel adminLevel =
     (let l = ToLower (TrimSpace adminLevel) in
      if l = ''none'' then Inr ''none''
      else if l = ''operator'' then Inr ''operator''
      else if l = ''admin'' \<or> l = ''administrator'' then Inr ''admin''
      else Inl ErrUnknownAdminLevel)"

definition Resolve :: "user_lookup_fn option \<Rightarrow> user_context \<Rightarrow> access_error + user_context" where
  "Resolve users requester =
     (if Username requester = [] then Inl ErrIdentityUnavailable
      else
        (case users of None \<Rightarrow> Inl ErrSlurmUserLookup
         | Some LookupUser \<Rightarrow>
           (case LookupUser (Username requester) of
              Inl _ \<Rightarrow> Inl ErrSlurmUserLookup
            | Inr None \<Rightarrow> Inl ErrSlurmUserNotFound
            | Inr (Some user) \<Rightarrow>
              if su_Username user = [] \<or> su_Username user \<noteq> Username requester then Inl ErrIdentityUnavailable
              else
                (case normalizeAdminLevel (su_AdminLevel user) of
                   Inl err \<Rightarrow> Inl err
                 | Inr adminLevel \<Rightarrow>
                   (let allowed = (adminLevel = ''admin'') in
                    Inr (requester\<lparr>AdminLevel := adminLevel, Accounts := su_Accounts user,
                      CoordinatorAccounts := su_CoordinatorAccounts user,
                      Capabilities := [(CapabilityNodeDrain, allowed), (CapabilityNodeResume, allowed)]\<rparr>))))))"

text \<open>Reading a Go map of booleans: a missing key reads as false.\<close>

definition has_capability :: "(string \<times> bool) list \<Rightarrow> string \<Rightarrow> bool" where
  "has_capability caps k = (case map_of caps k of Some b \<Rightarrow> b | None \<Rightarrow> False)"

section \<open>The operation registry\<close>

type_synonym operation_id = string

definition OperationNodeDrain :: operation_id where "OperationNodeDrain = ''node.drain''"
definition OperationNodeResume :: operation_id where "OperationNodeResume = ''node.resume''"
definition NodeStateHandlerID :: string where "NodeStateHandlerID = ''node.set_state''"
definition NodeTargetValidatorID :: string where "NodeTargetValidatorID = ''node.target''"

record parameter_spec =
  ParamType :: string
  Required :: bool
  MinLength :: int
  MaxLength :: int
  AllowedValues :: "string list"

type_synonym schema = "(string \<times> parameter_spec) list"

record registry_entry =
  reg_OperationID :: operation_id
  reg_Resource :: string
  reg_Command :: string
  RequiredCapability :: string
  TargetSchema :: schema
  ParameterSchema :: schema
  HandlerID :: string
  ValidatorID :: string

type_synonym registry = "(operation_id \<times> registry_entry) list"

definition spec_ok :: "string \<times> parameter_spec \<Rightarrow> bool" where
  "spec_ok p =
     (case p of (name, spec) \<Rightarrow>
        \<not> name = [] \<and>
        ParamType spec \<in> {''string'', ''enum'', ''integer'', ''boolean''} \<and>
        \<not> (MinLength spec < 0 \<or> MaxLength spec < 0 \<or> MaxLength spec > 0 \<and> MinLength spec > MaxLength spec) \<and>
        \<not> (ParamType spec = ''enum'' \<and> length (AllowedValues spec) = 0) \<and>
        \<not> (ParamType spec \<noteq> ''enum'' \<and> length (AllowedValues spec) \<noteq> 0))"

definition validateSchema :: "schema \<Rightarrow> bool" where
  "validateSchema s = list_all spec_ok s"

definition nodeTargetSchema :: schema where
  "nodeTargetSchema = [(''nodeName'',
     \<lparr>ParamType = ''string'', Required = True, MinLength = 1, MaxLength = 255, AllowedValues = []\<rparr>)]"

definition validateEntry ::
  "operation_id \<Rightarrow> registry_entry \<Rightarrow> string set \<Rightarrow> string set \<Rightarrow> access_error + unit" where
  "validateEntry key entry handlerIDs validatorIDs =
     (if key \<noteq> OperationNodeDrain \<and> key \<noteq> OperationNodeResume then Inl ErrInvalidRegistry
      else if reg_Resource entry \<noteq> ''node'' \<or> reg_Command entry \<noteq> ''update'' then Inl ErrInvalidRegistry
      else if RequiredCapability entry = [] then Inl ErrInvalidRegistry
      else if HandlerID entry = [] then Inl ErrInvalidRegistry
      else if HandlerID entry \<notin> handlerIDs then Inl ErrInvalidRegistry
      else if ValidatorID entry \<noteq> [] \<and> ValidatorID entry \<notin> validatorIDs then Inl ErrInvalidRegistry
      else if \<not> validateSchema (TargetSchema entry) then Inl ErrInvalidRegistry
      else if \<not> validateSchema (ParameterSchema entry) then Inl ErrInvalidRegistry
      else Inr ())"

text \<open>Copying a schema or an entry gives an equal value; values here are never shared.\<close>

definition cloneSchema :: "schema \<Rightarrow> schema" where
  "cloneSchema s = map (\<lambda>(name, spec). (name, spec\<lparr>AllowedValues := AllowedValues spec\<rparr>)) s"

definition cloneEntry :: "registry_entry \<Rightarrow> registry_entry" where
  "cloneEntry entry = entry\<lparr>TargetSchema := cloneSchema (TargetSchema entry),
     ParameterSchema := cloneSchema (ParameterSchema entry)\<rparr>"

fun build_registry :: "registry \<Rightarrow> string set \<Rightarrow> string set \<Rightarrow> access_error + registry" where
  "build_registry [] handlerIDs validatorIDs = Inr []"
| "build_registry ((key, entry) # rest) handlerIDs validatorIDs =
     (if key \<noteq> reg_OperationID entry then Inl ErrInvalidRegistry
      else
        (case validateEntry key entry handlerIDs validatorIDs of
           Inl err \<Rightarrow> Inl err
         | Inr _ \<Rightarrow>
           (case build_registry rest handlerIDs validatorIDs of
              Inl err \<Rightarrow> Inl err
            | Inr r \<Rightarrow> Inr ((key, cloneEntry entry) # r))))"

definition requires :: "registry \<Rightarrow> operation_id \<Rightarrow> string \<Rightarrow> bool" where
  "requires r op cap = (case map_of r op of None \<Rightarrow> False | Some e \<Rightarrow> RequiredCapability e = cap)"

definition NewGlobalRegistry :: "registry \<Rightarrow> string set \<Rightarrow> string set \<Rightarrow> access_error + registry" where
  "NewGlobalRegistry entries handlerIDs validatorIDs =
     (if length entries \<noteq> 2 then Inl ErrInvalidRegistry
      else
        (case build_registry entries handlerIDs validatorIDs of
           Inl err \<Rightarrow> Inl err
         | Inr r \<Rightarrow>
           if \<not> requires r OperationNodeDrain CapabilityNodeDrain then Inl ErrInvalidRegistry
           else if \<not> requires r OperationNodeResume CapabilityNodeResume then Inl ErrInvalidRegistry
           else Inr r))"

definition drain_entry :: registry_entry where
  "drain_entry = \<lparr>reg_OperationID = OperationNodeDrain, reg_Resource = ''node'', reg_Command = ''update'',
     RequiredCapability = CapabilityNodeDrain, TargetSchema = nodeTargetSchema,
     ParameterSchema =
       [(''state'', \<lparr>ParamType = ''enum'', Required = True, MinLength = 0, MaxLength = 0, AllowedValues = [''DRAIN'']\<rparr>),
        (''reason'', \<lparr>ParamType = ''string'', Required = True, MinLength = 1, MaxLength = 256, AllowedValues = []\<rparr>)],
     HandlerID = NodeStateHandlerID, ValidatorID = NodeTargetValidatorID\<rparr>"

definition resume_entry :: registry_entry where
  "resume_entry = \<lparr>reg_OperationID = OperationNodeResume, reg_Resource = ''node'', reg_Command = ''update'',
     RequiredCapability = CapabilityNodeResume, TargetSchema = nodeTargetSchema,
     ParameterSchema =
       [(''state'', \<lparr>ParamType = ''enum'', Required = True, MinLength = 0, MaxLength = 0, AllowedValues = [''RESUME'']\<rparr>)],
     HandlerID = NodeStateHandlerID, ValidatorID = NodeTargetValidatorID\<rparr>"

definition NewNodeRegistry :: "access_error + registry" where
  "NewNodeRegistry =
     NewGlobalRegistry [(OperationNodeDrain, drain_entry), (OperationNodeResume, resume_entry)]
       {NodeStateHandlerID} {NodeTargetValidatorID}"

definition registry_Lookup :: "registry option \<Rightarrow> operation_id \<Rightarrow> registry_entry option" where
  "registry_Lookup r operationID =
     (case r of None \<Rightarrow> None | Some entries \<Rightarrow> map_option cloneEntry (map_of entries operationID))"

section \<open>Authorization\<close>

record decision =
  Allowed :: bool
  dec_RequiredCapability :: string
  dec_UserContext :: user_context

text \<open>
  The authorizer over a resolver, which is the \<^verbatim>\<open>CapabilityResolver\<close> interface: in the program it is
  \<^const>\<open>Resolve\<close>.
\<close>

definition Authorize ::
  "registry option \<Rightarrow> (user_context \<Rightarrow> access_error + user_context) option \<Rightarrow> user_context \<Rightarrow> operation_id \<Rightarrow>
   access_error + decision" where
  "Authorize registry resolver requester operationID =
     (case registry of None \<Rightarrow> Inl ErrResolverUnavailable
      | Some _ \<Rightarrow>
        (case registry_Lookup registry operationID of
           None \<Rightarrow> Inl ErrUnknownOperation
         | Some entry \<Rightarrow>
           (case resolver of None \<Rightarrow> Inl ErrResolverUnavailable
            | Some resolve \<Rightarrow>
              (case resolve requester of
                 Inl err \<Rightarrow> Inl err
               | Inr current \<Rightarrow>
                 if Username requester = [] \<or> Username current \<noteq> Username requester \<or>
                    UID current \<noteq> UID requester \<or> GID current \<noteq> GID requester
                 then Inl ErrIdentityUnavailable
                 else Inr \<lparr>Allowed = has_capability (Capabilities current) (RequiredCapability entry),
                   dec_RequiredCapability = RequiredCapability entry, dec_UserContext = current\<rparr>))))"

section \<open>Facts\<close>

lemma cloneSchema_id [simp]: "cloneSchema s = s"
  by (simp add: cloneSchema_def)

lemma cloneEntry_id [simp]: "cloneEntry e = e"
  by (simp add: cloneEntry_def)

lemmas operation_names = OperationNodeDrain_def OperationNodeResume_def CapabilityNodeDrain_def
  CapabilityNodeResume_def NodeStateHandlerID_def NodeTargetValidatorID_def

lemma NewNodeRegistry_ok:
  "NewNodeRegistry = Inr [(OperationNodeDrain, drain_entry), (OperationNodeResume, resume_entry)]"
  by (simp add: NewNodeRegistry_def NewGlobalRegistry_def validateEntry_def drain_entry_def resume_entry_def
      requires_def operation_names validateSchema_def spec_ok_def nodeTargetSchema_def)

text \<open>Whatever entries a registry was built from, it holds exactly the two operations, under their own capabilities.\<close>

lemma build_registry_ok:
  "build_registry es H V = Inr r \<Longrightarrow>
     r = es \<and> (\<forall>(k, e) \<in> set es. k = reg_OperationID e \<and> validateEntry k e H V = Inr ())"
  by (induction es H V arbitrary: r rule: build_registry.induct) (auto split: if_splits sum.splits)

lemma validateEntry_key:
  "validateEntry k e H V = Inr () \<Longrightarrow> k = OperationNodeDrain \<or> k = OperationNodeResume"
  by (rule ccontr) (simp add: validateEntry_def)

lemma NewGlobalRegistry_ok:
  assumes "NewGlobalRegistry es H V = Inr r"
  shows "fst ` set r = {OperationNodeDrain, OperationNodeResume} \<and> length r = 2 \<and>
    (\<forall>e. map_of r OperationNodeDrain = Some e \<longrightarrow> RequiredCapability e = CapabilityNodeDrain) \<and>
    (\<forall>e. map_of r OperationNodeResume = Some e \<longrightarrow> RequiredCapability e = CapabilityNodeResume)"
proof -
  from assms have l: "length es = 2" "r = es" and v: "\<forall>(k, e) \<in> set es. validateEntry k e H V = Inr ()"
    and q: "requires r OperationNodeDrain CapabilityNodeDrain" "requires r OperationNodeResume CapabilityNodeResume"
    by (auto simp: NewGlobalRegistry_def dest!: build_registry_ok split: if_splits sum.splits)
  from v have "fst ` set r \<subseteq> {OperationNodeDrain, OperationNodeResume}"
    using validateEntry_key by (fastforce simp: l)
  moreover have "OperationNodeDrain \<in> fst ` set r" "OperationNodeResume \<in> fst ` set r"
    using q by (auto simp: requires_def image_iff dest!: map_of_SomeD split: option.splits, force+)
  ultimately show ?thesis
    using q l by (auto simp: requires_def)
qed

lemma ToLower_id: "\<forall>c \<in> set s. byte_of c < 128 \<and> \<not> is_upper (byte_of c) \<Longrightarrow> ToLower s = s"
  by (induction s) (auto simp: ToLower_def lower_segment_def is_upper_def)

lemma normalizeAdminLevel_range: "normalizeAdminLevel l = Inr a \<Longrightarrow> a \<in> {''none'', ''operator'', ''admin''}"
  by (auto simp: normalizeAdminLevel_def Let_def split: if_splits)

lemma has_capability_two [simp]:
  "has_capability [(CapabilityNodeDrain, a), (CapabilityNodeResume, a)] k \<longleftrightarrow>
     a \<and> (k = CapabilityNodeDrain \<or> k = CapabilityNodeResume)"
  by (auto simp: has_capability_def)

lemma Resolve_ok:
  "Resolve users requester = Inr c \<Longrightarrow>
     UID c = UID requester \<and> GID c = GID requester \<and> Username c = Username requester \<and> Username c \<noteq> [] \<and>
     (\<exists>lookup u. users = Some lookup \<and> lookup (Username requester) = Inr (Some u) \<and> su_Username u = Username requester \<and>
        normalizeAdminLevel (su_AdminLevel u) = Inr (AdminLevel c)) \<and>
     (\<forall>k. has_capability (Capabilities c) k \<longleftrightarrow>
        AdminLevel c = ''admin'' \<and> (k = CapabilityNodeDrain \<or> k = CapabilityNodeResume))"
  unfolding Resolve_def Let_def by (auto split: if_split_asm option.split_asm sum.split_asm)

text \<open>The authorizer of the program: allowed means that Slurm gave this very user the administrator level.\<close>

lemma Authorize_allowed:
  assumes "NewGlobalRegistry es H V = Inr r"
    "Authorize (Some r) (Some (Resolve users)) requester op = Inr d" "Allowed d"
  shows "(op = OperationNodeDrain \<or> op = OperationNodeResume) \<and>
    UID (dec_UserContext d) = UID requester \<and> GID (dec_UserContext d) = GID requester \<and>
    Username (dec_UserContext d) = Username requester \<and> Username requester \<noteq> [] \<and>
    AdminLevel (dec_UserContext d) = ''admin'' \<and>
    (\<exists>lookup u. users = Some lookup \<and> lookup (Username requester) = Inr (Some u) \<and> su_Username u = Username requester \<and>
       normalizeAdminLevel (su_AdminLevel u) = Inr ''admin'')"
proof -
  from assms(2) obtain e c where *: "map_of r op = Some e" "Resolve users requester = Inr c"
      "d = \<lparr>Allowed = has_capability (Capabilities c) (RequiredCapability e),
        dec_RequiredCapability = RequiredCapability e, dec_UserContext = c\<rparr>"
    by (auto simp: Authorize_def registry_Lookup_def split: option.splits sum.splits if_splits)
  then have "op \<in> fst ` set r" by (force dest: map_of_SomeD)
  with NewGlobalRegistry_ok [OF assms(1)] have "op = OperationNodeDrain \<or> op = OperationNodeResume" by auto
  with Resolve_ok [OF *(2)] *(3) assms(3) show ?thesis by auto
qed

end
