(* ===== verification/Nodehelper.thy ===== *)
theory Nodehelper
  imports Access
begin

text \<open>
  The restricted helper that changes a node's state (\<^verbatim>\<open>internal/nodehelper/helper.go\<close>) and the
  D-Bus client of the daemon that calls it (\<^verbatim>\<open>internal/command/dbus_executor.go\<close>). The bus, the
  user database and the processes it starts are parameters: each call gives their answers, and a
  run of the helper records the processes it started.
\<close>

section \<open>Checking a request\<close>

text \<open>The interface; the bus name is the same text.\<close>

definition HelperInterface :: string where
  "HelperInterface = ''org.cockpit_project.CockpitSlurm.NodeMutation''"

definition ServiceAccount :: string where "ServiceAccount = ''cockpit-slurm''"
definition SlurmAccount :: string where "SlurmAccount = ''slurm''"
definition ScontrolPath :: string where "ScontrolPath = ''/usr/bin/scontrol''"

datatype helper_error = ErrInvalidOperation | ErrInvalidTarget | ErrInvalidReason

definition alnum :: "rune \<Rightarrow> bool" where
  "alnum char \<longleftrightarrow> is_lower char \<or> is_upper char \<or> is_digit char"

definition name_rune :: "rune \<Rightarrow> bool" where
  "name_rune char \<longleftrightarrow> alnum char \<or> char \<in> {95, 46, 45}"

definition validNodeName :: "string \<Rightarrow> bool" where
  "validNodeName nodeName \<longleftrightarrow>
     \<not> (nodeName = [] \<or> length nodeName > 255 \<or> EqualFold_word nodeName ''ALL'') \<and>
     (case runes nodeName of [] \<Rightarrow> True | char # _ \<Rightarrow> alnum char) \<and>
     list_all name_rune (runes nodeName)"

definition validateDrainReason :: "string \<Rightarrow> bool" where
  "validateDrainReason reason \<longleftrightarrow>
     \<not> (TrimSpace reason = [] \<or> length reason > 256) \<and> \<not> list_ex IsControl (runes reason)"

definition BuildScontrolArgs :: "string \<Rightarrow> string \<Rightarrow> string \<Rightarrow> helper_error + string list" where
  "BuildScontrolArgs operationID nodeName reason =
     (if \<not> validNodeName nodeName then Inl ErrInvalidTarget
      else if operationID = OperationNodeDrain then
        (if \<not> validateDrainReason reason then Inl ErrInvalidReason
         else Inr [''update'', ''NodeName='' @ nodeName, ''State=DRAIN'', ''Reason='' @ reason])
      else if operationID = OperationNodeResume then
        (if reason \<noteq> [] then Inl ErrInvalidReason
         else Inr [''update'', ''NodeName='' @ nodeName, ''State=RESUME''])
      else Inl ErrInvalidOperation)"

section \<open>The helper's D-Bus method\<close>

text \<open>
  The service with its collaborators: the identifier of the daemon's account, the bus's answer to
  who a sender is, and whether a process it starts succeeds. A missing collaborator is \<open>None\<close>.
\<close>

record helper_service =
  serviceUID :: uint32
  peers :: "(string \<Rightarrow> uint32 option) option"
  runner :: "(string \<Rightarrow> string list \<Rightarrow> bool) option"

text \<open>A nil runner is replaced by the one that starts processes, \<open>start\<close>.\<close>

definition NewDBusService ::
  "(string \<Rightarrow> string list \<Rightarrow> bool) \<Rightarrow> uint32 \<Rightarrow> (string \<Rightarrow> uint32 option) option \<Rightarrow>
   (string \<Rightarrow> string list \<Rightarrow> bool) option \<Rightarrow> helper_service" where
  "NewDBusService start suid ps run =
     \<lparr>serviceUID = suid, peers = ps, runner = (case run of None \<Rightarrow> Some start | Some r \<Rightarrow> Some r)\<rparr>"

datatype dbus_kind = InternalError | AccessDenied | InvalidArguments | ExecutionFailed

fun kind_text :: "dbus_kind \<Rightarrow> string" where
  "kind_text InternalError = ''InternalError''"
| "kind_text AccessDenied = ''AccessDenied''"
| "kind_text InvalidArguments = ''InvalidArguments''"
| "kind_text ExecutionFailed = ''ExecutionFailed''"

definition dbusError :: "dbus_kind \<Rightarrow> string" where
  "dbusError kind = HelperInterface @ ''.Error.'' @ kind_text kind"

text \<open>
  The sender header is missing (\<open>None\<close>), is not a string (\<open>Some None\<close>) or names a sender. The
  result is the processes started and the reply or the error.
\<close>

definition SetNodeState ::
  "helper_service option \<Rightarrow> string option option \<Rightarrow> string \<Rightarrow> string \<Rightarrow> string \<Rightarrow>
   (string \<times> string list) list \<times> (dbus_kind + string)" where
  "SetNodeState svc sender operationID nodeName reason =
     (case svc of None \<Rightarrow> ([], Inl InternalError)
      | Some s \<Rightarrow>
        (case (peers s, runner s) of
           (Some uid_of, Some run) \<Rightarrow>
             (case sender of
                Some (Some snd_name) \<Rightarrow>
                  if snd_name = [] then ([], Inl AccessDenied)
                  else if uid_of snd_name \<noteq> Some (serviceUID s) then ([], Inl AccessDenied)
                  else
                    (case BuildScontrolArgs operationID nodeName reason of
                       Inl _ \<Rightarrow> ([], Inl InvalidArguments)
                     | Inr args \<Rightarrow>
                       if \<not> run ScontrolPath args then ([(ScontrolPath, args)], Inl ExecutionFailed)
                       else ([(ScontrolPath, args)], Inr ''succeeded''))
              | _ \<Rightarrow> ([], Inl AccessDenied))
         | _ \<Rightarrow> ([], Inl InternalError)))"

text \<open>
  Start-up of the helper: it serves only as the Slurm account, for the daemon's account, and as the
  only owner of its bus name. User identifiers are the decimal strings of the user database.
\<close>

definition ParseUint32 :: "string \<Rightarrow> nat option" where
  "ParseUint32 s =
     (if s \<noteq> [] \<and> list_all (\<lambda>c. is_digit (byte_of c)) s \<and> undec s < 2 ^ 32 then Some (undec s) else None)"

record helper_env =
  he_lookup :: "string \<Rightarrow> string option"
  he_euid :: nat
  he_bus :: bool
  he_export :: bool
  he_name :: "bool option"

datatype run_error = RunNoService | RunBadServiceUID | RunNoSlurm | RunBadSlurmUID | RunWrongUser | RunNoBus
  | RunExport | RunRequestName | RunNameOwned

definition helper_Run :: "helper_env \<Rightarrow> run_error + uint32" where
  "helper_Run env =
     (case he_lookup env ServiceAccount of None \<Rightarrow> Inl RunNoService
      | Some su \<Rightarrow>
        (case ParseUint32 su of None \<Rightarrow> Inl RunBadServiceUID
         | Some suid \<Rightarrow>
           (case he_lookup env SlurmAccount of None \<Rightarrow> Inl RunNoSlurm
            | Some slu \<Rightarrow>
              (case ParseUint32 slu of None \<Rightarrow> Inl RunBadSlurmUID
               | Some slurmUID \<Rightarrow>
                 if he_euid env \<noteq> slurmUID then Inl RunWrongUser
                 else if \<not> he_bus env then Inl RunNoBus
                 else if \<not> he_export env then Inl RunExport
                 else
                   (case he_name env of None \<Rightarrow> Inl RunRequestName
                    | Some primary \<Rightarrow> if \<not> primary then Inl RunNameOwned else Inr (word_of_nat suid))))))"

text \<open>
  What a started program does at its end; \<^verbatim>\<open>exec.Cmd.Run\<close> returns no error for the first only. \<open>bus\<close> is
  the answer of the D-Bus daemon's \<^verbatim>\<open>GetConnectionUnixUser\<close>, if any.
\<close>

datatype program_end = ExitedZero | ExitedOther | KilledAtTimeout | NotStarted

definition execCommandRunner_Run :: "(string \<Rightarrow> string list \<Rightarrow> program_end) \<Rightarrow> string \<Rightarrow> string list \<Rightarrow> bool" where
  "execCommandRunner_Run ends executable args \<longleftrightarrow> ends executable args = ExitedZero"

definition busPeerUIDResolver_UID :: "(string \<Rightarrow> uint32 option) \<Rightarrow> string \<Rightarrow> uint32 option" where
  "busPeerUIDResolver_UID bus sender = (case bus sender of None \<Rightarrow> None | Some uid \<Rightarrow> Some uid)"

text \<open>The helper's program: the error that ends it, or the service that it exports until it is interrupted.\<close>

definition helper_main ::
  "helper_env \<Rightarrow> (string \<Rightarrow> uint32 option) \<Rightarrow> (string \<Rightarrow> string list \<Rightarrow> program_end) \<Rightarrow> run_error + helper_service" where
  "helper_main env bus ends =
     (case helper_Run env of Inl err \<Rightarrow> Inl err
      | Inr suid \<Rightarrow> Inr (NewDBusService (execCommandRunner_Run ends) suid (Some (busPeerUIDResolver_UID bus)) None))"

section \<open>The daemon's executor\<close>

text \<open>
  What a D-Bus call comes back with: the reply, a D-Bus error by name, or any other error (the
  context ended, the connection broke).
\<close>

datatype call_result = Reply string | BusError string | CallFailed

datatype caller_error = CallerUnknown | CallerBus string | CallerOther

definition caller_SetNodeState :: "call_result option \<Rightarrow> caller_error + unit" where
  "caller_SetNodeState call =
     (case call of None \<Rightarrow> Inl CallerOther
      | Some (BusError name) \<Rightarrow> Inl (CallerBus name)
      | Some CallFailed \<Rightarrow> Inl CallerOther
      | Some (Reply result) \<Rightarrow> if result \<noteq> ''succeeded'' then Inl CallerOther else Inr ())"

text \<open>
  The error of \<^verbatim>\<open>Execute\<close>: it wraps \<^verbatim>\<open>ErrExecutionOutcomeUnknown\<close>, or it is definite. The two
  context errors are kept apart because the command service asks for them as well.
\<close>

datatype exec_error = ExecOutcomeUnknown | ExecDeadlineExceeded | ExecCanceled | ExecRejected

definition Execute :: "(caller_error + unit) option \<Rightarrow> operation_id \<Rightarrow> exec_error + unit" where
  "Execute caller operation =
     (case caller of None \<Rightarrow> Inl ExecRejected
      | Some r \<Rightarrow>
        if operation \<noteq> OperationNodeDrain \<and> operation \<noteq> OperationNodeResume then Inl ExecRejected
        else
          (case r of
             Inr _ \<Rightarrow> Inr ()
           | Inl CallerUnknown \<Rightarrow> Inl ExecOutcomeUnknown
           | Inl (CallerBus name) \<Rightarrow>
               if name = dbusError InvalidArguments \<or> name = dbusError AccessDenied \<or> name = dbusError ExecutionFailed
               then Inl ExecRejected else Inl ExecOutcomeUnknown
           | Inl CallerOther \<Rightarrow> Inl ExecOutcomeUnknown))"

text \<open>
  Start-up of the executor: the execution identity is the Slurm account of the user database (its
  identifier and name), reached over the helper's bus name.
\<close>

record execution_identity =
  xUID :: uint32
  xUsername :: string
  xBoundary :: string

datatype executor_error = ExecutorNoAccount | ExecutorBadUID | ExecutorNoBus

definition NewDBusExecutor :: "(string \<Rightarrow> (string \<times> string) option) \<Rightarrow> bool \<Rightarrow> executor_error + execution_identity" where
  "NewDBusExecutor lookup bus =
     (case lookup SlurmAccount of None \<Rightarrow> Inl ExecutorNoAccount
      | Some (uid, name) \<Rightarrow>
        (case ParseUint32 uid of None \<Rightarrow> Inl ExecutorBadUID
         | Some n \<Rightarrow>
           if \<not> bus then Inl ExecutorNoBus
           else Inr \<lparr>xUID = word_of_nat n, xUsername = name, xBoundary = ''dbus:'' @ HelperInterface\<rparr>))"

definition executor_Identity :: "execution_identity option \<Rightarrow> execution_identity" where
  "executor_Identity e = (case e of None \<Rightarrow> \<lparr>xUID = 0, xUsername = [], xBoundary = []\<rparr> | Some i \<Rightarrow> i)"

text \<open>The executor's connection to the bus: none, or one that is open or not.\<close>

definition executor_Close :: "bool option \<Rightarrow> bool option" where
  "executor_Close conn = (case conn of None \<Rightarrow> None | Some _ \<Rightarrow> Some False)"

text \<open>How the bus carries the helper's answer when it reaches the client.\<close>

definition bus_reply :: "dbus_kind + string \<Rightarrow> call_result" where
  "bus_reply r = (case r of Inl kind \<Rightarrow> BusError (dbusError kind) | Inr s \<Rightarrow> Reply s)"

section \<open>Facts\<close>

lemma dbusError_inject [simp]: "dbusError j = dbusError k \<longleftrightarrow> j = k"
  by (cases j; cases k) (simp_all add: dbusError_def)

text \<open>A valid node name is plain ASCII: no list syntax, no white space, no further assignment.\<close>

definition name_char :: "char \<Rightarrow> bool" where
  "name_char c \<longleftrightarrow> alnum (byte_of c) \<or> c \<in> {CHR ''_'', CHR ''.'', CHR ''-''}"

lemma name_rune_char: "name_rune (byte_of c) \<longleftrightarrow> name_char c"
proof -
  have "byte_of c = byte_of d \<longleftrightarrow> c = d" for d :: char by simp
  from this [of "CHR ''-''"] this [of "CHR ''_''"] this [of "CHR ''.''"]
  show ?thesis by (auto simp: name_char_def name_rune_def)
qed

lemma name_rune_ascii: "name_rune r \<Longrightarrow> r < 128"
  by (auto simp: name_rune_def alnum_def is_lower_def is_upper_def is_digit_def)

lemma validNodeName_chars:
  assumes "validNodeName s"
  shows "s \<noteq> [] \<and> length s \<le> 255 \<and> alnum (byte_of (hd s)) \<and> list_all name_char s \<and> map ascii_upper s \<noteq> ''ALL''"
proof -
  from assms have r: "list_all name_rune (runes s)" "s \<noteq> []" by (auto simp: validNodeName_def)
  then have "runes s = map byte_of s"
    using runes_all_ascii [of s] name_rune_ascii by (auto simp: list_all_iff)
  with assms r show ?thesis
    by (auto simp: validNodeName_def EqualFold_word_def list_all_iff name_rune_char neq_Nil_conv)
qed

lemma BuildScontrolArgs_ok:
  "BuildScontrolArgs op node reason = Inr args \<Longrightarrow>
     validNodeName node \<and>
     (op = OperationNodeDrain \<and> validateDrainReason reason \<and>
        args = [''update'', ''NodeName='' @ node, ''State=DRAIN'', ''Reason='' @ reason] \<or>
      op = OperationNodeResume \<and> reason = [] \<and> args = [''update'', ''NodeName='' @ node, ''State=RESUME''])"
  by (auto simp: BuildScontrolArgs_def split: if_split_asm)

lemma SetNodeState_runs:
  "SetNodeState svc sender op node reason = (cs, res) \<Longrightarrow> cs \<noteq> [] \<Longrightarrow>
     \<exists>s args name uid_of run. svc = Some s \<and> cs = [(ScontrolPath, args)] \<and> BuildScontrolArgs op node reason = Inr args \<and>
       sender = Some (Some name) \<and> peers s = Some uid_of \<and> runner s = Some run \<and> uid_of name = Some (serviceUID s) \<and>
       (res = Inr ''succeeded'' \<and> run ScontrolPath args \<or> res = Inl ExecutionFailed \<and> \<not> run ScontrolPath args)"
  by (auto simp: SetNodeState_def split: option.split_asm sum.split_asm if_split_asm)

lemma helper_main_started:
  "helper_main env bus ends = Inr s \<Longrightarrow>
     peers s = Some bus \<and> runner s = Some (execCommandRunner_Run ends) \<and>
     (\<exists>su n slu. he_lookup env ServiceAccount = Some su \<and> ParseUint32 su = Some n \<and> serviceUID s = word_of_nat n \<and>
        he_lookup env SlurmAccount = Some slu \<and> ParseUint32 slu = Some (he_euid env))"
  by (auto simp: helper_main_def helper_Run_def NewDBusService_def busPeerUIDResolver_UID_def fun_eq_iff
      split: option.splits sum.splits if_splits)

lemma SetNodeState_no_run:
  "SetNodeState svc sender op node reason = ([], res) \<Longrightarrow> res \<in> {Inl InternalError, Inl AccessDenied, Inl InvalidArguments}"
  by (auto simp: SetNodeState_def split: option.split_asm sum.split_asm if_split_asm)

end
