(* ===== verification/Command.thy ===== *)
theory Command
  imports Ledger Protocol Nodehelper
begin

text \<open>
  The command service (\<^verbatim>\<open>internal/command/service.go\<close>). A request is handled by a goroutine that
  talks to the ledger, the authorizer, the executor, the node cache and the clock; several run at
  once. \<open>prog\<close> is such a goroutine: a tree whose nodes are the calls it makes, with what it does
  with every answer. \<^verbatim>\<open>Handle\<close> is translated into one such tree; \<open>Command_System\<close> runs many of them
  interleaved, and \<open>run_prog\<close> below runs a single one against given answers.

  The hash \<^verbatim>\<open>sha256.Sum256\<close> is a parameter of the service.
\<close>

section \<open>Goroutines\<close>

datatype prog =
    Return envelope
  | ReadClock "string \<Rightarrow> prog"
  | AskAdmissionBlocked "bool \<Rightarrow> prog"
  | CallReconcile prog
  | CallLookup uint32 string "ledger_error + lrecord option \<Rightarrow> prog"
  | CallReserve claim "ledger_error + lrecord \<times> bool \<Rightarrow> prog"
  | CallTransition uint32 string status status transition_data "ledger_error option \<Rightarrow> prog"
  | CallAuthorize user_context operation_id "access_error + decision \<Rightarrow> prog"
  | CallExecute operation_id string string "exec_error + unit \<Rightarrow> bool \<Rightarrow> prog"
      \<comment> \<open>the error, and whether the context of the request has ended by then\<close>
  | GetNode string "bool \<Rightarrow> prog"
  | GoRefresh prog \<comment> \<open>starts the goroutine that refreshes the node cache\<close>
  | Pause "bool \<Rightarrow> prog" \<comment> \<open>10 ms or the end of the context, which is \<open>True\<close>\<close>
  | LockKey string prog
  | UnlockKey string prog
  | StillPolling \<comment> \<open>has not returned after the polls looked at\<close>

text \<open>\<^verbatim>\<open>defer unlock()\<close>.\<close>

primrec unlock_after :: "string \<Rightarrow> prog \<Rightarrow> prog" where
  "unlock_after k (Return e) = UnlockKey k (Return e)"
| "unlock_after k (ReadClock f) = ReadClock (\<lambda>x. unlock_after k (f x))"
| "unlock_after k (AskAdmissionBlocked f) = AskAdmissionBlocked (\<lambda>x. unlock_after k (f x))"
| "unlock_after k (CallReconcile p) = CallReconcile (unlock_after k p)"
| "unlock_after k (CallLookup u c f) = CallLookup u c (\<lambda>x. unlock_after k (f x))"
| "unlock_after k (CallReserve c f) = CallReserve c (\<lambda>x. unlock_after k (f x))"
| "unlock_after k (CallTransition u c s t d f) = CallTransition u c s t d (\<lambda>x. unlock_after k (f x))"
| "unlock_after k (CallAuthorize u r f) = CallAuthorize u r (\<lambda>x. unlock_after k (f x))"
| "unlock_after k (CallExecute r n w f) = CallExecute r n w (\<lambda>x y. unlock_after k (f x y))"
| "unlock_after k (GetNode n f) = GetNode n (\<lambda>x. unlock_after k (f x))"
| "unlock_after k (GoRefresh p) = GoRefresh (unlock_after k p)"
| "unlock_after k (Pause f) = Pause (\<lambda>x. unlock_after k (f x))"
| "unlock_after k (LockKey j p) = LockKey j (unlock_after k p)"
| "unlock_after k (UnlockKey j p) = UnlockKey j (unlock_after k p)"
| "unlock_after k StillPolling = StillPolling"

section \<open>The service\<close>

text \<open>\<^verbatim>\<open>hash\<close> is \<^verbatim>\<open>sha256.Sum256\<close>; \<open>has_refresh\<close> says that a refresh function was set.\<close>

record service =
  svc_registry :: registry
  svc_identity :: execution_identity
  has_refresh :: bool
  svc_uid :: uint32
  svc_user :: string
  hash :: "bytes \<Rightarrow> bytes"

text \<open>
  \<^verbatim>\<open>NewService\<close>: the collaborators must exist and the daemon's own user must have a name. \<open>deps\<close> says
  that none is nil.
\<close>

definition NewService ::
  "bool \<Rightarrow> registry \<Rightarrow> execution_identity \<Rightarrow> (bytes \<Rightarrow> bytes) \<Rightarrow> uint32 \<Rightarrow> (string \<Rightarrow> string option) \<Rightarrow> service option" where
  "NewService deps registry ident sha256 euid lookup =
     (if \<not> deps then None
      else
        (case lookup (dec (unat euid)) of None \<Rightarrow> None
         | Some name \<Rightarrow>
           if name = [] then None
           else Some \<lparr>svc_registry = registry, svc_identity = ident, has_refresh = False, svc_uid = euid,
                  svc_user = name, hash = sha256\<rparr>))"

definition SetNodeRefresh :: "service \<Rightarrow> service" where
  "SetNodeRefresh s = s\<lparr>has_refresh := True\<rparr>"

definition errorPayload :: "error_code \<Rightarrow> error_category \<Rightarrow> string \<Rightarrow> bool \<Rightarrow> string \<Rightarrow> error_payload" where
  "errorPayload code category detail retryable commandID =
     (plain_error code category detail retryable)\<lparr>err_CommandID := commandID\<rparr>"

definition error_response :: "envelope \<Rightarrow> error_payload \<Rightarrow> prog" where
  "error_response message payload = ReadClock (\<lambda>now. Return (NewErrorEnvelope now (MessageID message) payload))"

definition errorEnvelope ::
  "envelope \<Rightarrow> error_code \<Rightarrow> error_category \<Rightarrow> string \<Rightarrow> bool \<Rightarrow> string \<Rightarrow> prog" where
  "errorEnvelope message code category detail retryable commandID =
     error_response message (errorPayload code category detail retryable commandID)"

definition result_response :: "envelope \<Rightarrow> bytes option \<Rightarrow> prog" where
  "result_response message payload =
     ReadClock (\<lambda>now. Return (NewEnvelope now (MessageID message) MessageCommandResponse payload))"

text \<open>Marshalling these payloads cannot fail, so \<^verbatim>\<open>marshalPayload\<close> is the text.\<close>

definition marshalPayload :: "json \<Rightarrow> bytes option" where
  "marshalPayload v = Some (json_text v)"

definition equalFingerprint :: "bytes \<Rightarrow> bytes \<Rightarrow> bool" where
  "equalFingerprint left right \<longleftrightarrow> left = right"

definition persistenceError :: "envelope \<Rightarrow> string \<Rightarrow> prog" where
  "persistenceError message commandID =
     (let respond = errorEnvelope message CodeLedgerPersistenceFailed CatInternal
        ''Command storage is unavailable; do not retry automatically'' False commandID in
      AskAdmissionBlocked (\<lambda>blocked. if blocked then CallReconcile respond else respond))"

definition requestNodeRefresh :: "service \<Rightarrow> prog \<Rightarrow> prog" where
  "requestNodeRefresh s p = (if \<not> has_refresh s then p else GoRefresh p)"

definition lock_key :: "uint32 \<Rightarrow> string \<Rightarrow> string" where
  "lock_key uid commandID = dec (unat uid) @ '':'' @ commandID"

definition operationFor :: "string \<Rightarrow> operation_id option" where
  "operationFor state =
     (if state = ''DRAIN'' then Some OperationNodeDrain
      else if state = ''RESUME'' then Some OperationNodeResume
      else None)"

definition validateAgainstRegistry :: "registry_entry \<Rightarrow> node_command_request \<Rightarrow> bool" where
  "validateAgainstRegistry entry request \<longleftrightarrow>
     \<not> (reg_OperationID entry = OperationNodeDrain \<and> Reason (Parameters request) = None) \<and>
     \<not> (reg_OperationID entry = OperationNodeResume \<and> Reason (Parameters request) \<noteq> None)"

section \<open>Answers from the ledger\<close>

definition error_fields :: "string list" where
  "error_fields = [''code'', ''category'', ''message'', ''retryable'', ''commandId'', ''resource'', ''target'']"

definition put_error :: "string \<Rightarrow> bytes \<Rightarrow> error_payload \<Rightarrow> error_payload \<times> bool" where
  "put_error f raw p =
     (if f = ''code'' then put_string Code_update (Code p) raw p
      else if f = ''category'' then put_string Category_update (Category p) raw p
      else if f = ''message'' then put_string ErrMessage_update (ErrMessage p) raw p
      else if f = ''retryable'' then (let (b, ok) = decode_bool raw (Retryable p) in (p\<lparr>Retryable := b\<rparr>, ok))
      else if f = ''commandId'' then put_string err_CommandID_update (err_CommandID p) raw p
      else if f = ''resource'' then put_string err_Resource_update (err_Resource p) raw p
      else
        (let (t, ok) = decode_ptr [''nodeName''] put_target \<lparr>NodeName = []\<rparr> raw (err_Target p)
         in (p\<lparr>err_Target := t\<rparr>, ok)))"

definition zero_error :: error_payload where
  "zero_error = \<lparr>Code = [], Category = [], ErrMessage = [], Retryable = False, err_CommandID = [], err_Resource = [],
     err_Target = None\<rparr>"

text \<open>\<^verbatim>\<open>json.Unmarshal(record.ErrorPayload, &payload)\<close>; no bytes are no JSON.\<close>

definition unmarshal_error :: "bytes option \<Rightarrow> error_payload option" where
  "unmarshal_error b = (case b of None \<Rightarrow> None | Some data \<Rightarrow> unmarshal error_fields put_error data zero_error)"

definition recordResponse :: "envelope \<Rightarrow> lrecord \<Rightarrow> prog" where
  "recordResponse message record =
     (let unavailable = errorEnvelope message CodeInternal CatInternal ''Command result is unavailable'' True (rCommandID record);
          stored = (case unmarshal_error (rErrorPayload record) of
                      Some payload \<Rightarrow> error_response message payload | None \<Rightarrow> unavailable)
      in
      case rStatus record of
        StatusSucceeded \<Rightarrow> result_response message (rResultPayload record)
      | StatusDenied \<Rightarrow> stored
      | StatusAuthorizationFailed \<Rightarrow> stored
      | StatusRunning \<Rightarrow>
          result_response message (marshalPayload (response_json
            \<lparr>rsp_CommandID = rCommandID record, rsp_Resource = rResource record, rsp_Command = rCommand record,
             rsp_Target = None, rsp_Parameters = None, rsp_Status = CommandStatusRunning\<rparr>))
      | StatusFailed \<Rightarrow> stored
      | StatusUnknown \<Rightarrow> stored
      | StatusAuthorizationUncertain \<Rightarrow>
          errorEnvelope message CodeAuthorizationOutcomeUnknown CatInternal
            ''Authorization outcome is unknown; use a new command ID after recovery'' False (rCommandID record)
      | StatusAuthorizationPending \<Rightarrow>
          errorEnvelope message CodeInternal CatInternal ''Command is being processed'' True (rCommandID record)
      | StatusAccepted \<Rightarrow>
          errorEnvelope message CodeInternal CatInternal ''Command is being processed'' True (rCommandID record))"

text \<open>
  The polling loop. It ends when the record leaves the two waiting statuses or the context ends;
  \<open>n\<close> is how many polls of it are looked at, and a theorem holds for every \<open>n\<close>.
\<close>

fun awaitRecord :: "nat \<Rightarrow> envelope \<Rightarrow> lrecord \<Rightarrow> bytes \<Rightarrow> prog" where
  "awaitRecord n message record fingerprint =
     (if rStatus record = StatusAuthorizationPending \<or> rStatus record = StatusAccepted then
        (case n of 0 \<Rightarrow> StillPolling
         | Suc m \<Rightarrow>
           AskAdmissionBlocked (\<lambda>blocked.
             if blocked then persistenceError message (rCommandID record)
             else Pause (\<lambda>done.
               if done then errorEnvelope message CodeInternal CatInternal ''Command is still being processed'' True (rCommandID record)
               else CallLookup (rCallerUID record) (rCommandID record) (\<lambda>res.
                 case res of
                   Inl _ \<Rightarrow> persistenceError message (rCommandID record)
                 | Inr None \<Rightarrow> persistenceError message (rCommandID record)
                 | Inr (Some updated) \<Rightarrow>
                     if \<not> equalFingerprint (rRequestFingerprint updated) fingerprint then
                       errorEnvelope message CodeCommandIDConflict CatConflict
                         ''Command ID was already used for a different request'' False (rCommandID record)
                     else awaitRecord m message updated fingerprint))))
      else recordResponse message record)"

declare awaitRecord.simps [simp del]

section \<open>Handling a command\<close>

definition authorizationFailure :: "envelope \<Rightarrow> uint32 \<Rightarrow> string \<Rightarrow> prog" where
  "authorizationFailure message uid commandID =
     (let failure = errorPayload CodeInternal CatInternal ''Authorization information is unavailable'' True commandID in
      CallTransition uid commandID StatusAuthorizationPending StatusAuthorizationFailed
        (no_data\<lparr>tErrorPayload := marshalPayload (error_json failure)\<rparr>) (\<lambda>err.
          case err of Some _ \<Rightarrow> persistenceError message commandID
          | None \<Rightarrow> error_response message failure))"

text \<open>The execution and its record, from \<^verbatim>\<open>s.executor.Execute\<close> to the end of \<^verbatim>\<open>Handle\<close>.\<close>

definition handle_execute ::
  "service \<Rightarrow> user_context \<Rightarrow> envelope \<Rightarrow> node_command_request \<Rightarrow> operation_id \<Rightarrow> string \<Rightarrow> prog" where
  "handle_execute s requester message request operationID reason =
     CallExecute operationID (NodeName (Target request)) reason (\<lambda>res ctx_done.
       case res of
         Inl err \<Rightarrow>
           (let unknown = (err = ExecOutcomeUnknown \<or> err = ExecDeadlineExceeded \<or> err = ExecCanceled \<or> ctx_done);
                st = (if unknown then StatusUnknown else StatusFailed);
                failure =
                  (if unknown then errorPayload CodeCommandOutcomeUnknown CatTimeout
                     ''The Node operation outcome is unknown; do not retry automatically'' False (CommandID request)
                   else errorPayload CodeSlurmCommandFailed CatSlurm ''Slurm rejected the Node operation'' False
                     (CommandID request))
            in
            CallTransition (UID requester) (CommandID request) StatusRunning st
              (no_data\<lparr>tErrorPayload := marshalPayload (error_json failure)\<rparr>) (\<lambda>terr.
                case terr of
                  Some _ \<Rightarrow> persistenceError message (CommandID request)
                | None \<Rightarrow>
                    if st = StatusUnknown then requestNodeRefresh s (error_response message failure)
                    else error_response message failure))
       | Inr _ \<Rightarrow>
           (let result = marshalPayload (response_json
                  \<lparr>rsp_CommandID = CommandID request, rsp_Resource = Resource request, rsp_Command = Command request,
                   rsp_Target = Some (Target request),
                   rsp_Parameters = Some \<lparr>State = State (Parameters request), Reason = None\<rparr>,
                   rsp_Status = CommandStatusSucceeded\<rparr>)
            in
            CallTransition (UID requester) (CommandID request) StatusRunning StatusSucceeded
              (no_data\<lparr>tResultPayload := result\<rparr>) (\<lambda>terr.
                case terr of
                  Some _ \<Rightarrow> persistenceError message (CommandID request)
                | None \<Rightarrow> requestNodeRefresh s (result_response message result))))"

definition authorization_json :: "string \<Rightarrow> string \<Rightarrow> json" where
  "authorization_json cap at = JObj [(''requiredCapability'', JStr cap), (''authorizedAt'', JStr at)]"

text \<open>From the decision of the authorizer to the running record.\<close>

definition handle_decision ::
  "service \<Rightarrow> user_context \<Rightarrow> envelope \<Rightarrow> node_command_request \<Rightarrow> operation_id \<Rightarrow> registry_entry \<Rightarrow> string \<Rightarrow>
   access_error + decision \<Rightarrow> prog" where
  "handle_decision s requester message request operationID entry reason res =
     (case res of
        Inl _ \<Rightarrow>
          (let failure = errorPayload CodeUserLookupFailed CatInternal
                 ''Slurm user information is temporarily unavailable'' True (CommandID request) in
           CallTransition (UID requester) (CommandID request) StatusAuthorizationPending StatusAuthorizationFailed
             (no_data\<lparr>tErrorPayload := marshalPayload (error_json failure)\<rparr>) (\<lambda>terr.
               case terr of Some _ \<Rightarrow> persistenceError message (CommandID request)
               | None \<Rightarrow> error_response message failure))
      | Inr decision \<Rightarrow>
          if dec_RequiredCapability decision \<noteq> RequiredCapability entry \<or>
             UID (dec_UserContext decision) \<noteq> UID requester \<or> GID (dec_UserContext decision) \<noteq> GID requester \<or>
             Username (dec_UserContext decision) \<noteq> Username requester
          then authorizationFailure message (UID requester) (CommandID request)
          else if \<not> Allowed decision then
            (let denied = errorPayload CodeAuthorizationDenied CatAuthorization
                   ''Not authorized to perform this Node operation'' False (CommandID request) in
             CallTransition (UID requester) (CommandID request) StatusAuthorizationPending StatusDenied
               (no_data\<lparr>tErrorPayload := marshalPayload (error_json denied)\<rparr>) (\<lambda>terr.
                 case terr of Some _ \<Rightarrow> persistenceError message (CommandID request)
                 | None \<Rightarrow> error_response message denied))
          else if AdminLevel (dec_UserContext decision) \<noteq> ''admin'' then
            authorizationFailure message (UID requester) (CommandID request)
          else ReadClock (\<lambda>at.
            CallTransition (UID requester) (CommandID request) StatusAuthorizationPending StatusAccepted
              (no_data\<lparr>tAdminLevel := AdminLevel (dec_UserContext decision),
                 tAuthorizationMetadata := marshalPayload (authorization_json (RequiredCapability entry) at)\<rparr>) (\<lambda>terr.
              case terr of Some _ \<Rightarrow> persistenceError message (CommandID request)
              | None \<Rightarrow>
                CallTransition (UID requester) (CommandID request) StatusAccepted StatusRunning
                  (no_data\<lparr>tExecutionUID := Some (xUID (svc_identity s)),
                     tExecutionUsername := xUsername (svc_identity s),
                     tExecutionBoundary := xBoundary (svc_identity s)\<rparr>) (\<lambda>terr.
                  case terr of Some _ \<Rightarrow> persistenceError message (CommandID request)
                  | None \<Rightarrow> handle_execute s requester message request operationID reason))))"

definition claim_of ::
  "service \<Rightarrow> user_context \<Rightarrow> envelope \<Rightarrow> node_command_request \<Rightarrow> operation_id \<Rightarrow> registry_entry \<Rightarrow> claim" where
  "claim_of s requester message request operationID entry =
     \<lparr>cCallerUID = UID requester, cCommandID = CommandID request,
      cRequestFingerprint = hash s (json_text (request_json request)),
      cRequestPayload = json_text (request_json request),
      cRequestingUsername = Username requester, cRequestingGID = GID requester,
      cRequestMessageID = MessageID message, cServiceUID = svc_uid s, cServiceUsername = svc_user s,
      cResource = Resource request, cCommand = Command request, cOperationID = operationID,
      cRequiredCapability = RequiredCapability entry, cTargetNode = NodeName (Target request)\<rparr>"

text \<open>A command identifier that is not in the ledger yet: the checks, the claim, the authorization.\<close>

definition handle_new :: "nat \<Rightarrow> service \<Rightarrow> user_context \<Rightarrow> envelope \<Rightarrow> node_command_request \<Rightarrow> prog" where
  "handle_new n s requester message request =
     (let invalid = (\<lambda>code detail. errorEnvelope message code CatValidation detail False (CommandID request));
          fingerprint = hash s (json_text (request_json request))
      in
      case operationFor (State (Parameters request)) of
        None \<Rightarrow> invalid CodeInvalidCommand ''Unsupported Node operation''
      | Some operationID \<Rightarrow>
        (case registry_Lookup (Some (svc_registry s)) operationID of
           None \<Rightarrow> invalid CodeInvalidCommand ''Unsupported Node operation''
         | Some entry \<Rightarrow>
           if reg_Resource entry \<noteq> Resource request \<or> reg_Command entry \<noteq> Command request then
             invalid CodeInvalidCommand ''Unsupported Node operation''
           else if \<not> validateAgainstRegistry entry request then
             invalid CodeInvalidPayload ''Invalid Node command payload''
           else
             (let reason = (case Reason (Parameters request) of None \<Rightarrow> [] | Some r \<Rightarrow> r) in
              case BuildScontrolArgs operationID (NodeName (Target request)) reason of
                Inl _ \<Rightarrow> invalid CodeInvalidPayload ''Invalid Node command payload''
              | Inr _ \<Rightarrow>
                GetNode (NodeName (Target request)) (\<lambda>known.
                  if \<not> known then invalid CodeInvalidPayload ''Node target is unavailable''
                  else if xUsername (svc_identity s) = [] \<or> xBoundary (svc_identity s) = [] then
                    errorEnvelope message CodeInternal CatInternal ''Command execution boundary is unavailable'' True
                      (CommandID request)
                  else
                    CallReserve (claim_of s requester message request operationID entry) (\<lambda>res.
                      case res of
                        Inl ErrCommandIDConflict \<Rightarrow>
                          errorEnvelope message CodeCommandIDConflict CatConflict
                            ''Command ID was already used for a different request'' False (CommandID request)
                      | Inl _ \<Rightarrow> persistenceError message (CommandID request)
                      | Inr (record, created) \<Rightarrow>
                          if \<not> created then awaitRecord n message record fingerprint
                          else CallAuthorize requester operationID
                            (handle_decision s requester message request operationID entry reason))))))"

definition Handle :: "nat \<Rightarrow> service \<Rightarrow> user_context \<Rightarrow> envelope \<Rightarrow> prog" where
  "Handle n s requester message =
     (case DecodeNodeCommandRequestPayload (Payload message) of
        Inl _ \<Rightarrow> errorEnvelope message CodeInvalidPayload CatValidation ''Invalid Node command payload'' False []
      | Inr request \<Rightarrow>
        if Username requester = [] then
          errorEnvelope message CodeIdentityUnavailable CatAuthentication ''Unable to determine the authenticated user''
            False (CommandID request)
        else AskAdmissionBlocked (\<lambda>blocked.
          if blocked then persistenceError message (CommandID request)
          else
            (let fingerprint = hash s (json_text (request_json request));
                 key = lock_key (UID requester) (CommandID request)
             in
             LockKey key (unlock_after key
               (CallLookup (UID requester) (CommandID request) (\<lambda>res.
                 case res of
                   Inl _ \<Rightarrow> persistenceError message (CommandID request)
                 | Inr (Some record) \<Rightarrow>
                     if \<not> equalFingerprint (rRequestFingerprint record) fingerprint then
                       errorEnvelope message CodeCommandIDConflict CatConflict
                         ''Command ID was already used for a different request'' False (CommandID request)
                     else awaitRecord n message record fingerprint
                 | Inr None \<Rightarrow> handle_new n s requester message request))))))"

definition HandleAuthenticated :: "nat \<Rightarrow> service \<Rightarrow> user_context \<Rightarrow> envelope \<Rightarrow> prog" where
  "HandleAuthenticated n s requester message = Handle n s requester message"

end
