(* ===== verification/Command_System.thy ===== *)
theory Command_System
  imports Command
begin

text \<open>
  The daemon as a system: any number of requests run \<^const>\<open>Handle\<close> at once over one ledger; the
  process may stop at any moment and start again on the same database. The ledger is the interface
  \<^verbatim>\<open>Ledger\<close> of \<^verbatim>\<open>service.go\<close>, a record of its methods; \<open>'l\<close> is its state, \<open>'e\<close> what the outside
  world answers during one call and \<open>'o\<close> during a start.
\<close>

record ('l, 'e, 'o) ledger_ops =
  op_AdmissionBlocked :: "'l \<Rightarrow> bool"
  op_Reconcile :: "'e \<Rightarrow> 'l \<Rightarrow> 'l \<times> ledger_error option"
  op_Lookup :: "'e \<Rightarrow> uint32 \<Rightarrow> string \<Rightarrow> 'l \<Rightarrow> 'l \<times> (ledger_error + lrecord option)"
  op_Reserve :: "'e \<Rightarrow> claim \<Rightarrow> 'l \<Rightarrow> 'l \<times> (ledger_error + lrecord \<times> bool)"
  op_Transition :: "'e \<Rightarrow> uint32 \<Rightarrow> string \<Rightarrow> status \<Rightarrow> status \<Rightarrow> transition_data \<Rightarrow> 'l \<Rightarrow> 'l \<times> ledger_error option"
  op_start :: "'o \<Rightarrow> 'l \<Rightarrow> 'l \<times> bool" \<comment> \<open>opens the database again; whether that succeeded\<close>

type_synonym ckey = "uint32 \<times> string"

datatype event =
    EvAuthorize user_context operation_id "access_error + decision"
  | EvExecute ckey operation_id string string
  | EvRefresh
  | EvRespond envelope envelope \<comment> \<open>the request and the answer\<close>
  | EvStart

text \<open>A request: who sent it, the message, and what is left to do.\<close>

record task =
  t_requester :: user_context
  t_message :: envelope
  t_prog :: prog

record 'l system =
  sys_ledger :: 'l
  sys_up :: bool
  sys_locks :: "string set"
  sys_tasks :: "nat \<Rightarrow> task option"
  sys_log :: "event list"

text \<open>The command a message is about: the caller and the command identifier.\<close>

definition task_key :: "user_context \<Rightarrow> envelope \<Rightarrow> ckey" where
  "task_key requester message =
     (UID requester,
      case DecodeNodeCommandRequestPayload (Payload message) of Inl _ \<Rightarrow> [] | Inr r \<Rightarrow> CommandID r)"

section \<open>Steps\<close>

text \<open>
  One call of one goroutine: the ledger, the locks and the rest of the program before and after,
  and what it did outside. \<open>E\<close> restricts what the world may answer (the clock). The authorizer is
  the program's own, over whatever Slurm says about users at that moment; the executor answers
  anything.
\<close>

inductive call ::
  "('l, 'e, 'o) ledger_ops \<Rightarrow> ('e \<Rightarrow> bool) \<Rightarrow> service \<Rightarrow> ckey \<Rightarrow>
   'l \<Rightarrow> string set \<Rightarrow> prog \<Rightarrow> 'l \<Rightarrow> string set \<Rightarrow> prog \<Rightarrow> event list \<Rightarrow> bool"
for ops E svc k where
  clock: "call ops E svc k l L (ReadClock f) l L (f now) []"
| admission: "call ops E svc k l L (AskAdmissionBlocked f) l L (f (op_AdmissionBlocked ops l)) []"
| reconcile: "E e \<Longrightarrow> op_Reconcile ops e l = (l', err) \<Longrightarrow> call ops E svc k l L (CallReconcile p) l' L p []"
| lookup: "E e \<Longrightarrow> op_Lookup ops e u c l = (l', res) \<Longrightarrow> call ops E svc k l L (CallLookup u c f) l' L (f res) []"
| reserve: "E e \<Longrightarrow> op_Reserve ops e cl l = (l', res) \<Longrightarrow> call ops E svc k l L (CallReserve cl f) l' L (f res) []"
| transition: "E e \<Longrightarrow> op_Transition ops e u c s t d l = (l', err) \<Longrightarrow>
    call ops E svc k l L (CallTransition u c s t d f) l' L (f err) []"
| authorize: "res = Authorize (Some (svc_registry svc)) (Some (Resolve (Some users))) r opn \<Longrightarrow>
    call ops E svc k l L (CallAuthorize r opn f) l L (f res) [EvAuthorize r opn res]"
| execute: "call ops E svc k l L (CallExecute opn node reason f) l L (f res ctx_done) [EvExecute k opn node reason]"
| get_node: "call ops E svc k l L (GetNode node f) l L (f known) []"
| refresh: "call ops E svc k l L (GoRefresh p) l L p [EvRefresh]"
| pause: "call ops E svc k l L (Pause f) l L (f ctx_done) []"
| lock: "j \<notin> L \<Longrightarrow> call ops E svc k l L (LockKey j p) l (insert j L) p []"
| unlock: "call ops E svc k l L (UnlockKey j p) l (L - {j}) p []"

text \<open>
  A request arrives with any poll budget; a goroutine makes a call; a finished one answers; the
  process stops and starts again.
\<close>

inductive sys_step ::
  "('l, 'e, 'o) ledger_ops \<Rightarrow> ('e \<Rightarrow> bool) \<Rightarrow> ('o \<Rightarrow> bool) \<Rightarrow> service \<Rightarrow> 'l system \<Rightarrow> 'l system \<Rightarrow> bool"
for ops E W svc where
  arrive: "sys_up s \<Longrightarrow> sys_tasks s i = None \<Longrightarrow>
    sys_step ops E W svc s
      (s\<lparr>sys_tasks := (sys_tasks s)(i := Some \<lparr>t_requester = r, t_message = m, t_prog = Handle n svc r m\<rparr>)\<rparr>)"
| proceed: "sys_tasks s i = Some t \<Longrightarrow>
    call ops E svc (task_key (t_requester t) (t_message t)) (sys_ledger s) (sys_locks s) (t_prog t) l' L' p' evs \<Longrightarrow>
    sys_step ops E W svc s
      (s\<lparr>sys_ledger := l', sys_locks := L', sys_tasks := (sys_tasks s)(i := Some (t\<lparr>t_prog := p'\<rparr>)),
         sys_log := sys_log s @ evs\<rparr>)"
| answer: "sys_tasks s i = Some t \<Longrightarrow> t_prog t = Return rsp \<Longrightarrow>
    sys_step ops E W svc s
      (s\<lparr>sys_tasks := (sys_tasks s)(i := None), sys_log := sys_log s @ [EvRespond (t_message t) rsp]\<rparr>)"
| restart: "W o' \<Longrightarrow> op_start ops o' (sys_ledger s) = (l', ok) \<Longrightarrow>
    sys_step ops E W svc s
      (s\<lparr>sys_ledger := l', sys_up := ok, sys_locks := {}, sys_tasks := (\<lambda>_. None), sys_log := sys_log s @ [EvStart]\<rparr>)"

inductive sys_run ::
  "('l, 'e, 'o) ledger_ops \<Rightarrow> ('e \<Rightarrow> bool) \<Rightarrow> ('o \<Rightarrow> bool) \<Rightarrow> service \<Rightarrow> 'l system \<Rightarrow> 'l system \<Rightarrow> bool"
for ops E W svc where
  none: "sys_run ops E W svc s s"
| more: "sys_run ops E W svc s s' \<Longrightarrow> sys_step ops E W svc s' s'' \<Longrightarrow> sys_run ops E W svc s s''"

definition initial :: "'l \<Rightarrow> 'l system" where
  "initial l = \<lparr>sys_ledger = l, sys_up = True, sys_locks = {}, sys_tasks = (\<lambda>_. None), sys_log = []\<rparr>"

definition executions :: "ckey \<Rightarrow> event list \<Rightarrow> nat" where
  "executions k evs = length (filter (\<lambda>ev. case ev of EvExecute j _ _ _ \<Rightarrow> j = k | _ \<Rightarrow> False) evs)"

section \<open>The discipline of a goroutine\<close>

text \<open>
  The stages of the goroutine that owns a command: it has created the record; the authorizer has
  granted it; the record says accepted; the record says running; it has executed.
\<close>

datatype stage = NoOwner | Claimed | Granted operation_id decision | Accepted operation_id decision
  | Started operation_id decision | Ran

text \<open>
  \<open>follows p k g\<close>: from stage \<open>g\<close>, whatever the answers, the program touches only the record \<open>k\<close>,
  and executes only in the stage that the earlier calls have reached.
\<close>

definition granted :: "user_context \<Rightarrow> access_error + decision \<Rightarrow> bool" where
  "granted r res =
     (case res of Inl _ \<Rightarrow> False
      | Inr d \<Rightarrow> Allowed d \<and> AdminLevel (dec_UserContext d) = ''admin'' \<and> UID (dec_UserContext d) = UID r \<and>
          GID (dec_UserContext d) = GID r \<and> Username (dec_UserContext d) = Username r)"

primrec stage_grant :: "stage \<Rightarrow> (operation_id \<times> decision) option" where
  "stage_grant NoOwner = None"
| "stage_grant Claimed = None"
| "stage_grant (Granted opn dn) = Some (opn, dn)"
| "stage_grant (Accepted opn dn) = Some (opn, dn)"
| "stage_grant (Started opn dn) = Some (opn, dn)"
| "stage_grant Ran = None"

text \<open>
  What a message asks to execute, after every check of the service.
\<close>

definition requested :: "envelope \<Rightarrow> operation_id \<Rightarrow> string \<Rightarrow> string \<Rightarrow> bool" where
  "requested m opn node reason \<longleftrightarrow>
     (\<exists>q args. DecodeNodeCommandRequestPayload (Payload m) = Inr q \<and> operationFor (State (Parameters q)) = Some opn \<and>
        node = NodeName (Target q) \<and> reason = (case Reason (Parameters q) of None \<Rightarrow> [] | Some r \<Rightarrow> r) \<and>
        BuildScontrolArgs opn node reason = Inr args)"

primrec follows :: "prog \<Rightarrow> user_context \<Rightarrow> (operation_id \<Rightarrow> string \<Rightarrow> string \<Rightarrow> bool) \<Rightarrow> ckey \<Rightarrow> stage \<Rightarrow> bool" where
  "follows (Return e) r X k g = True"
| "follows (ReadClock f) r X k g = (\<forall>x. follows (f x) r X k g)"
| "follows (AskAdmissionBlocked f) r X k g = (\<forall>x. follows (f x) r X k g)"
| "follows (CallReconcile p) r X k g = (follows p r X k NoOwner \<and> g \<in> {NoOwner, Ran})"
| "follows (CallLookup u c f) r X k g = (\<forall>x. follows (f x) r X k g)"
| "follows (CallReserve cl f) r X k g =
     (g = NoOwner \<and> (cCallerUID cl, cCommandID cl) = k \<and>
      (\<forall>x. follows (f x) r X k (case x of Inr (_, True) \<Rightarrow> Claimed | _ \<Rightarrow> NoOwner)))"
| "follows (CallTransition u c s t d f) r X k g =
     ((u, c) = k \<and> (\<forall>e. follows (f (Some e)) r X k (if g = Ran then Ran else NoOwner)) \<and>
      (case g of
         Claimed \<Rightarrow> s = StatusAuthorizationPending \<and> t \<noteq> StatusAccepted \<and> follows (f None) r X k NoOwner
       | Granted opn dn \<Rightarrow> s = StatusAuthorizationPending \<and>
           (if t = StatusAccepted then tAdminLevel d = ''admin'' \<and> follows (f None) r X k (Accepted opn dn)
            else follows (f None) r X k NoOwner)
       | Accepted opn dn \<Rightarrow> s = StatusAccepted \<and> t = StatusRunning \<and> tAdminLevel d = [] \<and> follows (f None) r X k (Started opn dn)
       | Ran \<Rightarrow> s = StatusRunning \<and> follows (f None) r X k Ran
       | _ \<Rightarrow> False))"
| "follows (CallAuthorize r' opn f) r X k g =
     (g = Claimed \<and> r' = r \<and> (\<forall>x. follows (f x) r X k (if granted r x then Granted opn (projr x) else Claimed)))"
| "follows (CallExecute opn node reason f) r X k g =
     (X opn node reason \<and> (\<exists>dn. g = Started opn dn) \<and> (\<forall>x y. follows (f x y) r X k Ran))"
| "follows (GetNode n f) r X k g = (\<forall>x. follows (f x) r X k g)"
| "follows (GoRefresh p) r X k g = follows p r X k g"
| "follows (Pause f) r X k g = (\<forall>x. follows (f x) r X k g)"
| "follows (LockKey j p) r X k g = follows p r X k g"
| "follows (UnlockKey j p) r X k g = follows p r X k g"
| "follows StillPolling r X k g = True"

lemma follows_unlock_after: "follows p r X k g \<Longrightarrow> follows (unlock_after j p) r X k g"
proof (induction p arbitrary: g)
  case (CallExecute opn node reason f)
  then show ?case by simp (metis rangeI)
qed (auto split: stage.splits if_splits)

text \<open>A program that makes no claim may run in the stages after which nothing is owned.\<close>

lemma follows_responses [simp]:
  "follows (error_response m p) r X k g" "follows (errorEnvelope m c cat d b cid) r X k g"
  "follows (result_response m x) r X k g"
  by (simp_all add: error_response_def errorEnvelope_def result_response_def)

lemma follows_persistenceError [simp]: "g \<in> {NoOwner, Ran} \<Longrightarrow> follows (persistenceError m cid) r X k g"
  by (auto simp: persistenceError_def Let_def)

lemma follows_recordResponse [simp]: "follows (recordResponse m rec) r X k g"
  by (auto simp: recordResponse_def Let_def split: status.splits option.splits)

lemma follows_awaitRecord [simp]: "follows (awaitRecord n m rec fp) r X k NoOwner"
proof (induction n arbitrary: rec)
  case 0
  show ?case by (subst awaitRecord.simps) simp
next
  case (Suc n)
  then show ?case
    by (subst awaitRecord.simps) (auto split: sum.splits option.splits)
qed

lemma follows_refresh [simp]: "follows (requestNodeRefresh s p) r X k g = follows p r X k g"
  by (simp add: requestNodeRefresh_def)

lemma follows_authorizationFailure [simp]:
  "k = (u, cid) \<Longrightarrow> follows (authorizationFailure m u cid) r X k Claimed"
  by (auto simp: authorizationFailure_def Let_def)

lemma follows_handle_execute:
  "k = (UID r, CommandID q) \<Longrightarrow> X opn (NodeName (Target q)) reason \<Longrightarrow>
   follows (handle_execute s r m q opn reason) r X k (Started opn dn)"
  by (auto simp: handle_execute_def Let_def split: sum.splits option.splits)

lemma follows_handle_decision:
  assumes "k = (UID r, CommandID q)" "X opn (NodeName (Target q)) reason"
  shows "follows (handle_decision s r m q opn entry reason res) r X k (if granted r res then Granted opn (projr res) else Claimed)"
proof (cases res)
  case (Inl e)
  with assms show ?thesis
    by (auto simp: handle_decision_def granted_def Let_def split: option.splits)
next
  case (Inr d)
  show ?thesis
    using assms Inr follows_handle_execute [of k r q X opn reason, OF assms]
    unfolding handle_decision_def granted_def authorizationFailure_def
    by (auto simp: Let_def no_data_def split: option.splits if_splits)
qed

lemma follows_handle_new:
  assumes "k = (UID r, CommandID q)" "DecodeNodeCommandRequestPayload (Payload m) = Inr q"
  shows "follows (handle_new n s r m q) r (requested m) k NoOwner"
proof -
  have "requested m opn (NodeName (Target q)) (case Reason (Parameters q) of None \<Rightarrow> [] | Some r \<Rightarrow> r)"
    if "operationFor (State (Parameters q)) = Some opn"
      "BuildScontrolArgs opn (NodeName (Target q)) (case Reason (Parameters q) of None \<Rightarrow> [] | Some r \<Rightarrow> r) = Inr args"
    for opn args
    using that assms(2) unfolding requested_def by blast
  note req = this
  have dec: "follows (CallAuthorize r opn (handle_decision s r m q opn entry
        (case Reason (Parameters q) of None \<Rightarrow> [] | Some r \<Rightarrow> r))) r (requested m) k Claimed"
    if "operationFor (State (Parameters q)) = Some opn"
      "BuildScontrolArgs opn (NodeName (Target q)) (case Reason (Parameters q) of None \<Rightarrow> [] | Some r \<Rightarrow> r) = Inr args"
    for opn args entry
    using follows_handle_decision [where X = "requested m", OF assms(1) req [OF that]] by simp
  show ?thesis
    using assms(1) dec unfolding handle_new_def Let_def
    by (auto simp: claim_of_def simp del: follows.simps(8) split: option.split sum.split ledger_error.split bool.split)
qed

lemma Handle_follows: "follows (Handle n s r m) r (requested m) (task_key r m) NoOwner"
  unfolding Handle_def
  by (auto simp: task_key_def Let_def follows_unlock_after follows_handle_new
      intro!: follows_unlock_after split: sum.splits option.splits)

section \<open>The contract of the ledger\<close>

text \<open>
  What the command service relies on. \<open>view l k\<close> is the durable record of a command. \<open>lasting\<close> are
  the records that no clock reading of the window can find expired: they are never removed, a claim
  never takes their place, and they change only by a transition from the expected status or by the
  recovery of an interrupted record.
\<close>

definition recovered :: "row \<Rightarrow> row \<Rightarrow> bool" where
  "recovered a b \<longleftrightarrow> interrupted (status a) \<and> (\<exists>t. b = a\<lparr>status := recover_status (status a), updated_at := t\<rparr>)"

locale command_ledger =
  fixes ops :: "('l, 'e, 'o) ledger_ops"
    and ok :: "'l \<Rightarrow> bool"
    and view :: "'l \<Rightarrow> ckey \<Rightarrow> row option"
    and E :: "'e \<Rightarrow> bool"
    and W :: "'o \<Rightarrow> bool"
    and lasting :: "row \<Rightarrow> bool"
  assumes lookup_law: "ok l \<Longrightarrow> E e \<Longrightarrow> op_Lookup ops e u c l = (l', ans) \<Longrightarrow> ok l' \<and> view l' = view l"
    and reserve_ok: "ok l \<Longrightarrow> E e \<Longrightarrow> op_Reserve ops e cl l = (l', res) \<Longrightarrow> ok l'"
    and reserve_keeps: "ok l \<Longrightarrow> E e \<Longrightarrow> op_Reserve ops e cl l = (l', res) \<Longrightarrow>
      view l k = Some a \<Longrightarrow> lasting a \<Longrightarrow> view l' k = Some a"
    and reserve_creates: "ok l \<Longrightarrow> E e \<Longrightarrow> op_Reserve ops e cl l = (l', Inr (r, True)) \<Longrightarrow>
      (\<forall>a. view l (cCallerUID cl, cCommandID cl) = Some a \<longrightarrow> \<not> lasting a) \<and>
      (\<exists>a. view l' (cCallerUID cl, cCommandID cl) = Some a \<and> lasting a \<and> status a = StatusAuthorizationPending)"
    and transition_ok: "ok l \<Longrightarrow> E e \<Longrightarrow> op_Transition ops e u c s t d l = (l', err) \<Longrightarrow> ok l'"
    and transition_others: "ok l \<Longrightarrow> E e \<Longrightarrow> op_Transition ops e u c s t d l = (l', err) \<Longrightarrow>
      k \<noteq> (u, c) \<Longrightarrow> view l' k = view l k"
    and transition_own: "ok l \<Longrightarrow> E e \<Longrightarrow> op_Transition ops e u c s t d l = (l', err) \<Longrightarrow>
      view l (u, c) = Some a \<Longrightarrow>
      view l' (u, c) = Some a \<or> status a = s \<and> (\<exists>now. view l' (u, c) = Some (transition_row now t d a))"
    and transition_done: "ok l \<Longrightarrow> E e \<Longrightarrow> op_Transition ops e u c s t d l = (l', None) \<Longrightarrow>
      \<exists>a now. view l (u, c) = Some a \<and> status a = s \<and> transition_guard s t d \<and>
        view l' (u, c) = Some (transition_row now t d a)"
    and reconcile_law: "ok l \<Longrightarrow> E e \<Longrightarrow> op_Reconcile ops e l = (l', err) \<Longrightarrow>
      ok l' \<and> (\<forall>k a. view l k = Some a \<longrightarrow> (\<exists>b. view l' k = Some b \<and> (b = a \<or> recovered a b)))"
    and start_law: "ok l \<Longrightarrow> W w \<Longrightarrow> op_start ops w l = (l', up) \<Longrightarrow>
      ok l' \<and> (\<forall>k a. view l k = Some a \<longrightarrow> lasting a \<longrightarrow> (\<exists>b. view l' k = Some b \<and> (b = a \<or> recovered a b)))"
    and lasting_moves: "lasting a \<Longrightarrow> lasting (transition_row now t d a)" "lasting a \<Longrightarrow> recovered a b \<Longrightarrow> lasting b"
begin

text \<open>The record that the owner of a command relies on in each stage.\<close>

definition stage_row :: "stage \<Rightarrow> row \<Rightarrow> bool" where
  "stage_row g a =
     (case g of
        Accepted _ _ \<Rightarrow> status a \<in> {StatusAccepted, StatusAuthorizationUncertain} \<and> admin_level a = Some ''admin''
      | Started _ _ \<Rightarrow> status a \<in> {StatusRunning, StatusUnknown} \<and> admin_level a = Some ''admin'' \<and>
          execution_uid a \<noteq> None
      | _ \<Rightarrow> True)"

definition held :: "'l \<Rightarrow> ckey \<Rightarrow> bool" where
  "held l k \<longleftrightarrow> (\<exists>a. view l k = Some a \<and> lasting a)"

text \<open>
  The stages \<open>G\<close> of the running goroutines: each follows its discipline; two goroutines never own the
  same command; an owned or executed command is held by the ledger; an owner that has not executed
  is the owner of a command that was never executed; nothing is executed twice.
\<close>

definition owner :: "stage \<Rightarrow> bool" where
  "owner g \<longleftrightarrow> g \<noteq> NoOwner"

abbreviation key_of :: "task \<Rightarrow> ckey" where
  "key_of t \<equiv> task_key (t_requester t) (t_message t)"

definition task_ok :: "stage \<Rightarrow> 'l \<Rightarrow> event list \<Rightarrow> task \<Rightarrow> bool" where
  "task_ok g l evs t \<longleftrightarrow>
     follows (t_prog t) (t_requester t) (requested (t_message t)) (key_of t) g \<and>
     (owner g \<longrightarrow> (\<exists>a. view l (key_of t) = Some a \<and> lasting a \<and> stage_row g a)) \<and>
     (owner g \<longrightarrow> g \<noteq> Ran \<longrightarrow> executions (key_of t) evs = 0) \<and>
     (\<forall>opn dn. stage_grant g = Some (opn, dn) \<longrightarrow>
        EvAuthorize (t_requester t) opn (Inr dn) \<in> set evs \<and> granted (t_requester t) (Inr dn))"

definition one_owner :: "(nat \<Rightarrow> stage) \<Rightarrow> (nat \<Rightarrow> task option) \<Rightarrow> bool" where
  "one_owner G ts \<longleftrightarrow>
     (\<forall>i j t u. ts i = Some t \<longrightarrow> ts j = Some u \<longrightarrow> owner (G i) \<longrightarrow> owner (G j) \<longrightarrow> key_of t = key_of u \<longrightarrow> i = j)"

definition log_ok :: "'l \<Rightarrow> event list \<Rightarrow> bool" where
  "log_ok l evs \<longleftrightarrow> (\<forall>k. executions k evs \<le> 1 \<and> (0 < executions k evs \<longrightarrow> held l k))"

definition inv :: "(nat \<Rightarrow> stage) \<Rightarrow> 'l system \<Rightarrow> bool" where
  "inv G s \<longleftrightarrow> ok (sys_ledger s) \<and>
     (\<forall>i t. sys_tasks s i = Some t \<longrightarrow> task_ok (G i) (sys_ledger s) (sys_log s) t) \<and>
     one_owner G (sys_tasks s) \<and> log_ok (sys_ledger s) (sys_log s)"

lemma stage_row_recovered: "stage_row g a \<Longrightarrow> recovered a b \<Longrightarrow> stage_row g b"
  by (auto simp: stage_row_def recovered_def split: stage.splits)

text \<open>What a record may become when its owner did not touch it.\<close>

definition kept :: "row \<Rightarrow> 'l \<Rightarrow> ckey \<Rightarrow> bool" where
  "kept a l k \<longleftrightarrow> (\<exists>b. view l k = Some b \<and> (b = a \<or> recovered a b))"

lemma kept_same: "view l k = Some a \<Longrightarrow> kept a l k"
  by (simp add: kept_def)

lemma kept_stage: "kept a l k \<Longrightarrow> lasting a \<Longrightarrow> stage_row g a \<Longrightarrow> \<exists>b. view l k = Some b \<and> lasting b \<and> stage_row g b"
  by (auto simp: kept_def intro: lasting_moves stage_row_recovered)

text \<open>One call of a goroutine in stage \<open>g\<close> that works on command \<open>k\<close>.\<close>

definition good_call :: "(operation_id \<Rightarrow> string \<Rightarrow> string \<Rightarrow> bool) \<Rightarrow> ckey \<Rightarrow> user_context \<Rightarrow> 'l \<Rightarrow> stage \<Rightarrow> 'l \<Rightarrow> prog \<Rightarrow> event list \<Rightarrow> stage \<Rightarrow> bool" where
  "good_call X k r l g l' p' evs g' \<longleftrightarrow>
     follows p' r X k g' \<and> ok l' \<and>
     (\<forall>k' a. view l k' = Some a \<longrightarrow> lasting a \<longrightarrow> k' \<noteq> k \<or> \<not> owner g \<longrightarrow> kept a l' k') \<and>
     (\<forall>a. view l k = Some a \<longrightarrow> lasting a \<longrightarrow> held l' k) \<and>
     (owner g' \<longrightarrow> (owner g \<longrightarrow> (\<exists>a. view l k = Some a \<and> lasting a \<and> stage_row g a)) \<longrightarrow>
        (\<exists>b. view l' k = Some b \<and> lasting b \<and> stage_row g' b)) \<and>
     (owner g' \<longrightarrow> owner g \<or> \<not> held l k) \<and>
     (\<forall>j. executions j evs = (if j = k \<and> (\<exists>opn dn. g = Started opn dn) \<and> g' = Ran then 1 else 0)) \<and>
     (g = Ran \<longrightarrow> g' \<in> {Ran, NoOwner}) \<and>
     (\<forall>opn dn. stage_grant g' = Some (opn, dn) \<longrightarrow> stage_grant g = Some (opn, dn) \<or>
        EvAuthorize r opn (Inr dn) \<in> set evs \<and> granted r (Inr dn))"

lemma good_call_quiet:
  assumes "follows p' r X k g" "ok l'" "view l' = view l" "\<And>j. executions j evs = 0" "ok l"
  shows "good_call X k r l g l' p' evs g"
  using assms unfolding good_call_def held_def by (auto simp: kept_def)

lemma good_reconcile:
  assumes "ok l" "E e" "op_Reconcile ops e l = (l', err)" "follows (CallReconcile p) r X k g"
  shows "good_call X k r l g l' p [] NoOwner"
proof -
  have l: "ok l'" "view l j = Some a \<Longrightarrow> kept a l' j" for j a
    using reconcile_law [OF assms(1-3)] unfolding kept_def by blast+
  then have "view l j = Some a \<Longrightarrow> lasting a \<Longrightarrow> held l' j" for j a
    by (fastforce simp: kept_def held_def intro: lasting_moves)
  with l assms(4) show ?thesis by (auto simp: good_call_def owner_def executions_def)
qed

lemma good_reserve:
  assumes "ok l" "E e" "op_Reserve ops e cl l = (l', res)" "follows (CallReserve cl f) r X k g"
  shows "\<exists>g'. good_call X k r l g l' (f res) [] g'"
proof -
  have g: "g = NoOwner" "(cCallerUID cl, cCommandID cl) = k" using assms(4) by auto
  have keep: "view l' j = Some a" if "view l j = Some a" "lasting a" for j a
    using reserve_keeps [OF assms(1-3) that] .
  show ?thesis
  proof (cases "\<exists>rc. res = Inr (rc, True)")
    case True
    then obtain rc where rc: "res = Inr (rc, True)" ..
    with assms(3) have "op_Reserve ops e cl l = (l', Inr (rc, True))" by simp
    from reserve_creates [OF assms(1,2) this] g(2)
    have "\<not> held l k" "\<exists>a. view l' k = Some a \<and> lasting a"
      by (auto simp: held_def)
    moreover have "follows (f res) r X k (case res of Inr (_, True) \<Rightarrow> Claimed | _ \<Rightarrow> NoOwner)"
      using assms(4) unfolding follows.simps by blast
    then have "follows (f res) r X k Claimed" using rc by simp
    ultimately have "good_call X k r l g l' (f res) [] Claimed"
      using g(1) keep reserve_ok [OF assms(1-3)]
      by (auto simp: good_call_def owner_def stage_row_def kept_def held_def executions_def)
    then show ?thesis ..
  next
    case False
    then have "(case res of Inr (_, True) \<Rightarrow> Claimed | _ \<Rightarrow> NoOwner) = NoOwner"
      by (auto split: sum.splits prod.splits bool.splits)
    then have "follows (f res) r X k NoOwner" using assms(4) unfolding follows.simps by metis
    then have "good_call X k r l g l' (f res) [] NoOwner"
      using g(1) keep reserve_ok [OF assms(1-3)]
      by (auto simp: good_call_def owner_def kept_def held_def executions_def)
    then show ?thesis ..
  qed
qed

lemma good_transition:
  assumes "ok l" "E e" "op_Transition ops e u c s t d l = (l', err)" "follows (CallTransition u c s t d f) r X k g"
    "owner g \<Longrightarrow> \<exists>a. view l k = Some a \<and> lasting a \<and> stage_row g a"
  shows "\<exists>g'. good_call X k r l g l' (f err) [] g'"
proof -
  have k: "k = (u, c)" "owner g" using assms(4) by (auto simp: owner_def split: stage.splits)
  obtain a where a: "view l k = Some a" "lasting a" "stage_row g a" using assms(5) k by auto
  have others: "view l' j = view l j" if "j \<noteq> k" for j
    using transition_others [OF assms(1-3)] that k by simp
  obtain b where b: "view l' k = Some b" "lasting b"
    using transition_own [OF assms(1-3)] a k lasting_moves by blast
  have fin: "good_call X k r l g l' (f err) [] g'"
    if "follows (f err) r X k g'" "stage_row g' b" "g = Ran \<Longrightarrow> g' \<in> {Ran, NoOwner}"
      "\<not> (\<exists>opn dn. g = Started opn dn)" "stage_grant g' = None \<or> stage_grant g' = stage_grant g" for g'
    using that others b k transition_ok [OF assms(1-3)]
    by (auto simp: good_call_def kept_def held_def executions_def)
  have ns: "\<not> (\<exists>opn dn. g = Started opn dn)" using assms(4) by (auto split: stage.splits)
  show ?thesis
  proof (cases err)
    case (Some x)
    have "follows (f err) r X k (if g = Ran then Ran else NoOwner)" using assms(4) Some by auto
    moreover have "stage_row (if g = Ran then Ran else NoOwner) b" by (simp add: stage_row_def)
    ultimately show ?thesis using fin [OF _ _ _ ns, of "if g = Ran then Ran else NoOwner"] by (auto split: if_splits)
  next
    case None
    then obtain now where now: "status a = s" "transition_guard s t d" "b = transition_row now t d a"
      using transition_done [OF assms(1,2)] assms(3) a b k by fastforce
    consider "follows (f err) r X k NoOwner" | "g = Ran" "follows (f err) r X k Ran"
      | opn dn where "g = Granted opn dn" "t = StatusAccepted" "tAdminLevel d = ''admin''" "follows (f err) r X k (Accepted opn dn)"
      | opn dn where "g = Accepted opn dn" "t = StatusRunning" "tAdminLevel d = []" "follows (f err) r X k (Started opn dn)"
      using assms(4) None by (cases g) (auto split: if_splits)
    then show ?thesis
    proof cases
      case 1 then show ?thesis using fin [OF 1 _ _ ns] by (auto simp: stage_row_def)
    next
      case 2 then show ?thesis using fin [OF 2(2) _ _ ns] by (auto simp: stage_row_def)
    next
      case 3
      then have "stage_row (Accepted opn dn) b"
        using now(3) by (simp add: stage_row_def transition_row_def coalesce_text_def)
      then show ?thesis using fin [OF 3(4) _ _ ns] 3(1) by auto
    next
      case 4
      then have "stage_row (Started opn dn) b"
        using now a(3) by (auto simp: stage_row_def transition_row_def coalesce_text_def transition_guard_def
            coalesce_def split: option.splits)
      then show ?thesis using fin [OF 4(4) _ _ ns] 4(1) by auto
    qed
  qed
qed

lemma call_good:
  assumes "call ops E svc k l L p l' L' p' evs" "ok l" "follows p r X k g"
    "owner g \<Longrightarrow> \<exists>a. view l k = Some a \<and> lasting a \<and> stage_row g a"
  shows "\<exists>g'. good_call X k r l g l' p' evs g'"
  using assms(1)
proof (cases rule: call.cases)
  case (reconcile e err)
  with assms good_reconcile show ?thesis by blast
next
  case (lookup e u c res f)
  with assms lookup_law [of l e] have "good_call X k r l g l' p' evs g"
    by (intro good_call_quiet) (auto simp: executions_def)
  then show ?thesis ..
next
  case (reserve e cl res f)
  with assms good_reserve show ?thesis by blast
next
  case (transition e u c s t d err f)
  with assms good_transition show ?thesis by blast
next
  case (authorize res users r' opn f)
  let ?g = "if granted r res then Granted opn (projr res) else Claimed"
  have "g = Claimed \<and> (\<forall>x. follows (f x) r X k (if granted r x then Granted opn (projr x) else Claimed))"
    using assms(3) unfolding authorize(1) follows.simps by blast
  then have "g = Claimed" "follows p' r X k ?g" unfolding authorize by blast+
  then have "good_call X k r l g l' p' evs ?g"
    using assms authorize by (auto simp: good_call_def owner_def stage_row_def kept_def held_def executions_def
        granted_def split: if_splits sum.splits)
  then show ?thesis ..
next
  case (execute opn node reason f res ctx_done)
  then have "follows p' r X k Ran" "\<exists>dn. g = Started opn dn" using assms(3) by auto
  then have "good_call X k r l g l' p' evs Ran"
    using assms execute by (auto simp: good_call_def owner_def stage_row_def kept_def held_def executions_def)
  then show ?thesis ..
qed (use assms in \<open>auto intro!: exI [of _ g] good_call_quiet simp: executions_def\<close>)

text \<open>The invariant is kept by every step.\<close>

lemma executions_append [simp]: "executions k (xs @ ys) = executions k xs + executions k ys"
  by (simp add: executions_def)

lemma inv_parts:
  assumes "inv G s"
  shows "ok (sys_ledger s)" "sys_tasks s i = Some t \<Longrightarrow> task_ok (G i) (sys_ledger s) (sys_log s) t"
    "one_owner G (sys_tasks s)" "log_ok (sys_ledger s) (sys_log s)"
  using assms by (auto simp: inv_def)

lemma one_ownerD:
  "one_owner G ts \<Longrightarrow> ts i = Some t \<Longrightarrow> ts j = Some u \<Longrightarrow> owner (G i) \<Longrightarrow> owner (G j) \<Longrightarrow> key_of t = key_of u \<Longrightarrow> i = j"
  unfolding one_owner_def by blast

lemma log_okD: "log_ok l evs \<Longrightarrow> \<not> held l k \<Longrightarrow> executions k evs = 0"
  unfolding log_ok_def by (metis gr0I)

lemma task_ok_held: "task_ok g l evs t \<Longrightarrow> owner g \<Longrightarrow> held l (key_of t)"
  unfolding task_ok_def held_def by blast

text \<open>A good call keeps what is held, the task that made it, the other tasks and the log in order.\<close>

lemma good_held:
  assumes "good_call X k r l g l' p' evs g'" "held l j"
  shows "held l' j"
proof (cases "j \<noteq> k \<or> \<not> owner g")
  case True
  obtain a where "view l j = Some a" "lasting a" using assms(2) unfolding held_def by blast
  then have "lasting a" "kept a l' j" using assms(1) True unfolding good_call_def by blast+
  then show ?thesis unfolding kept_def held_def using lasting_moves(2) by blast
next
  case False
  with assms show ?thesis unfolding good_call_def held_def by blast
qed

lemma good_events:
  "good_call X k r l g l' p' evs g' \<Longrightarrow>
   executions j evs = (if j = k \<and> (\<exists>opn dn. g = Started opn dn) \<and> g' = Ran then 1 else 0)"
  unfolding good_call_def by blast

lemma good_own_task:
  assumes "good_call (requested (t_message t)) (key_of t) (t_requester t) l g l' p' evs g'" "task_ok g l log t" "log_ok l log"
  shows "task_ok g' l' (log @ evs) (t\<lparr>t_prog := p'\<rparr>)"
proof -
  have 0: "executions (key_of t) log = 0" if "owner g'" "g' \<noteq> Ran"
  proof (cases "owner g")
    case True
    have "g \<noteq> Ran" using assms(1) that unfolding good_call_def owner_def by blast
    with True assms(2) show ?thesis unfolding task_ok_def by blast
  next
    case False
    then have "\<not> held l (key_of t)" using assms(1) that unfolding good_call_def by blast
    with log_okD [OF assms(3)] show ?thesis by blast
  qed
  have "executions (key_of t) evs = 0" if "g' \<noteq> Ran"
    using good_events [OF assms(1)] that by simp
  moreover have "EvAuthorize (t_requester t) opn (Inr dn) \<in> set (log @ evs) \<and> granted (t_requester t) (Inr dn)"
    if "stage_grant g' = Some (opn, dn)" for opn dn
    using assms(1,2) that unfolding good_call_def task_ok_def set_append by blast
  ultimately show ?thesis
    using 0 assms(1,2) unfolding good_call_def task_ok_def by (simp del: split_paired_All)
qed

lemma good_other_task:
  assumes "good_call X k r l g l' p' evs g'" "task_ok h l log u" "key_of u = k \<Longrightarrow> owner h \<Longrightarrow> \<not> owner g"
  shows "task_ok h l' (log @ evs) u"
proof (cases "owner h")
  case True
  obtain a where a: "view l (key_of u) = Some a" "lasting a" "stage_row h a"
    using assms(2) True unfolding task_ok_def by blast
  have *: "key_of u \<noteq> k \<or> \<not> owner g" using assms(3) True by blast
  then have "kept a l' (key_of u)" using assms(1) a unfolding good_call_def by blast
  then have "\<exists>b. view l' (key_of u) = Some b \<and> lasting b \<and> stage_row h b" using kept_stage a by blast
  moreover have "executions (key_of u) evs = 0"
    using good_events [OF assms(1), of "key_of u"] * by (auto simp: owner_def)
  ultimately show ?thesis using assms(2) unfolding task_ok_def by simp
next
  case False
  then show ?thesis using assms(2) unfolding task_ok_def by simp
qed

lemma good_log:
  assumes gc: "good_call (requested (t_message t)) (key_of t) (t_requester t) l g l' p' evs g'" "task_ok g l log t" "log_ok l log"
  shows "log_ok l' (log @ evs)"
proof -
  have "executions k (log @ evs) \<le> 1 \<and> (0 < executions k (log @ evs) \<longrightarrow> held l' k)" for k
  proof (cases "executions k evs = 0")
    case True
    then show ?thesis using assms(3) good_held [OF gc(1)] unfolding log_ok_def by (simp del: split_paired_All)
  next
    case False
    then have k: "k = key_of t" "executions k evs = 1" "owner g" "g \<noteq> Ran"
      using good_events [OF gc(1), of k] by (auto simp: owner_def split: if_splits)
    then show ?thesis using gc(2) good_held [OF gc(1) task_ok_held [OF gc(2)]] unfolding task_ok_def by simp
  qed
  then show ?thesis unfolding log_ok_def by blast
qed

lemma inv_proceed:
  assumes inv: "inv G s" and t: "sys_tasks s i = Some t"
    and gc: "good_call (requested (t_message t)) (key_of t) (t_requester t) (sys_ledger s) (G i) l' p' evs g'"
  shows "inv (G(i := g'))
    (s\<lparr>sys_ledger := l', sys_locks := L', sys_tasks := (sys_tasks s)(i := Some (t\<lparr>t_prog := p'\<rparr>)), sys_log := sys_log s @ evs\<rparr>)"
proof -
  note parts = inv_parts [OF inv]
  have one: "key_of u = key_of t \<Longrightarrow> owner (G j) \<Longrightarrow> \<not> owner (G i) \<and> \<not> owner g'"
    if "j \<noteq> i" "sys_tasks s j = Some u" for j u
    using one_ownerD [OF parts(3) t that(2)] that task_ok_held [OF parts(2) [OF that(2)]] gc
    unfolding good_call_def by metis
  have tasks: "task_ok ((G(i := g')) j) l' (sys_log s @ evs) u"
    if "((sys_tasks s)(i := Some (t\<lparr>t_prog := p'\<rparr>))) j = Some u" for j u
  proof (cases "j = i")
    case True
    with that show ?thesis using good_own_task [OF gc parts(2) [OF t] parts(4)] by simp
  next
    case False
    with that have u: "sys_tasks s j = Some u" by simp
    show ?thesis using good_other_task [OF gc parts(2) [OF u]] one [OF False u] False by simp
  qed
  have "one_owner (G(i := g')) ((sys_tasks s)(i := Some (t\<lparr>t_prog := p'\<rparr>)))"
    unfolding one_owner_def
  proof (intro allI impI)
    fix j j' u u'
    assume "((sys_tasks s)(i := Some (t\<lparr>t_prog := p'\<rparr>))) j = Some u" "((sys_tasks s)(i := Some (t\<lparr>t_prog := p'\<rparr>))) j' = Some u'"
      "owner ((G(i := g')) j)" "owner ((G(i := g')) j')" "key_of u = key_of u'"
    then show "j = j'"
      using one [of j u] one [of j' u'] one_ownerD [OF parts(3), of j u j' u'] by (auto split: if_split_asm)
  qed
  moreover have "ok l'" using gc by (simp add: good_call_def)
  ultimately show ?thesis
    using tasks good_log [OF gc parts(2) [OF t] parts(4)] unfolding inv_def by simp
qed

lemma inv_step:
  assumes "inv G s" "sys_step ops E W svc s s'"
  shows "\<exists>G'. inv G' s'"
  using assms(2)
proof (cases rule: sys_step.cases)
  case (arrive i r m n)
  have "inv (G(i := NoOwner)) s'"
    using inv_parts [OF assms(1)] arrive Handle_follows [of n svc r m] unfolding inv_def
    by (auto simp: task_ok_def one_owner_def owner_def)
  then show ?thesis by blast
next
  case (proceed i t l' L' p' evs)
  have "\<exists>g'. good_call (requested (t_message t)) (key_of t) (t_requester t) (sys_ledger s) (G i) l' p' evs g'"
    using call_good [OF proceed(3)] inv_parts [OF assms(1)] proceed(2) unfolding task_ok_def by blast
  with inv_proceed [OF assms(1) proceed(2)] proceed(1) show ?thesis by blast
next
  case (answer i t rsp)
  have "inv G s'"
    using inv_parts [OF assms(1)] answer unfolding inv_def
    by (auto simp: task_ok_def one_owner_def log_ok_def executions_def split: if_splits)
  then show ?thesis by blast
next
  case (restart w l' up)
  have l: "ok l'" "held (sys_ledger s) k \<Longrightarrow> held l' k" for k
    using start_law [OF inv_parts(1) [OF assms(1)] restart(2,3)] lasting_moves(2)
    unfolding held_def by metis+
  have "executions k (sys_log s @ [EvStart]) = executions k (sys_log s)" for k
    by (simp add: executions_def)
  then have "inv G s'"
    using inv_parts [OF assms(1)] restart l unfolding inv_def by (simp add: one_owner_def log_ok_def)
  then show ?thesis by blast
qed

lemma inv_initial: "ok l \<Longrightarrow> inv G (initial l)"
  by (simp add: inv_def initial_def one_owner_def log_ok_def executions_def)

lemma inv_run: "sys_run ops E W svc s s' \<Longrightarrow> \<exists>G. inv G s \<Longrightarrow> \<exists>G. inv G s'"
  by (induction rule: sys_run.induct) (auto dest: inv_step)

text \<open>Within the window, no command is executed twice.\<close>

lemma at_most_once: "ok l \<Longrightarrow> sys_run ops E W svc (initial l) s \<Longrightarrow> executions k (sys_log s) \<le> 1"
  using inv_run [of svc "initial l" s] inv_initial [of l] inv_parts(4) [of _ s] unfolding log_ok_def by blast

text \<open>When a goroutine is about to execute, its record is durable, granted and started.\<close>

lemma execute_recorded:
  assumes "ok l" "sys_run ops E W svc (initial l) s" "sys_tasks s i = Some t" "t_prog t = CallExecute opn node reason f"
  shows "(\<exists>a. view (sys_ledger s) (key_of t) = Some a \<and> status a \<in> {StatusRunning, StatusUnknown} \<and>
      admin_level a = Some ''admin'' \<and> execution_uid a \<noteq> None) \<and>
    executions (key_of t) (sys_log s) = 0 \<and> requested (t_message t) opn node reason \<and>
    (\<exists>dn. EvAuthorize (t_requester t) opn (Inr dn) \<in> set (sys_log s) \<and> granted (t_requester t) (Inr dn))"
proof -
  obtain G where "inv G s" using inv_run [OF assms(2)] inv_initial [OF assms(1)] by blast
  then have t: "task_ok (G i) (sys_ledger s) (sys_log s) t" using inv_parts(2) assms(3) by blast
  then obtain dn where dn: "G i = Started opn dn" "requested (t_message t) opn node reason"
    using assms(4) unfolding task_ok_def by auto
  have "EvAuthorize (t_requester t) opn (Inr dn) \<in> set (sys_log s) \<and> granted (t_requester t) (Inr dn)"
    using t dn(1) unfolding task_ok_def by simp
  then show ?thesis using t dn unfolding task_ok_def by (auto simp: owner_def stage_row_def)
qed

end

section \<open>Facts about every run\<close>

text \<open>The decisions in the log are the authorizer's, over what Slurm said of the users at the time.\<close>

lemma call_authorize_log:
  "call ops E svc k l L p l' L' p' evs \<Longrightarrow> EvAuthorize r opn res \<in> set evs \<Longrightarrow>
   \<exists>users. res = Authorize (Some (svc_registry svc)) (Some (Resolve (Some users))) r opn"
  by (induction rule: call.induct) auto

lemma run_authorize_log:
  "sys_run ops E W svc s s' \<Longrightarrow> sys_log s = [] \<Longrightarrow> EvAuthorize r opn res \<in> set (sys_log s') \<Longrightarrow>
   \<exists>users. res = Authorize (Some (svc_registry svc)) (Some (Resolve (Some users))) r opn"
proof (induction rule: sys_run.induct)
  case (more s s' s'')
  from more(2) show ?case
    by (cases rule: sys_step.cases) (use more call_authorize_log in \<open>fastforce+\<close>)
qed simp

section \<open>One request by itself\<close>

text \<open>
  The answers of the world to a request that nobody interrupts: one clock text, one environment for
  the ledger calls, Slurm's users, the outcome of the execution, whether the context ended, the
  known nodes.
\<close>

record 'e world =
  w_clock :: string
  w_env :: 'e
  w_users :: user_lookup_fn
  w_exec :: "exec_error + unit"
  w_ctx :: bool
  w_node :: "string \<Rightarrow> bool"

primrec run_prog ::
  "prog \<Rightarrow> ('l, 'e, 'o) ledger_ops \<Rightarrow> 'e world \<Rightarrow> service \<Rightarrow> ckey \<Rightarrow> 'l \<Rightarrow> string set \<Rightarrow>
   'l \<times> string set \<times> event list \<times> envelope option" where
  "run_prog (Return rsp) ops w svc k l L = (l, L, [], Some rsp)"
| "run_prog (ReadClock f) ops w svc k l L = run_prog (f (w_clock w)) ops w svc k l L"
| "run_prog (AskAdmissionBlocked f) ops w svc k l L = run_prog (f (op_AdmissionBlocked ops l)) ops w svc k l L"
| "run_prog (CallReconcile p) ops w svc k l L = run_prog p ops w svc k (fst (op_Reconcile ops (w_env w) l)) L"
| "run_prog (CallLookup u c f) ops w svc k l L =
     (let (l', res) = op_Lookup ops (w_env w) u c l in run_prog (f res) ops w svc k l' L)"
| "run_prog (CallReserve cl f) ops w svc k l L =
     (let (l', res) = op_Reserve ops (w_env w) cl l in run_prog (f res) ops w svc k l' L)"
| "run_prog (CallTransition u c s t d f) ops w svc k l L =
     (let (l', err) = op_Transition ops (w_env w) u c s t d l in run_prog (f err) ops w svc k l' L)"
| "run_prog (CallAuthorize r opn f) ops w svc k l L =
     (let res = Authorize (Some (svc_registry svc)) (Some (Resolve (Some (w_users w)))) r opn;
          (l', L', evs, rsp) = run_prog (f res) ops w svc k l L
      in (l', L', EvAuthorize r opn res # evs, rsp))"
| "run_prog (CallExecute opn node reason f) ops w svc k l L =
     (let (l', L', evs, rsp) = run_prog (f (w_exec w) (w_ctx w)) ops w svc k l L
      in (l', L', EvExecute k opn node reason # evs, rsp))"
| "run_prog (GetNode node f) ops w svc k l L = run_prog (f (w_node w node)) ops w svc k l L"
| "run_prog (GoRefresh p) ops w svc k l L =
     (let (l', L', evs, rsp) = run_prog p ops w svc k l L in (l', L', EvRefresh # evs, rsp))"
| "run_prog (Pause f) ops w svc k l L = run_prog (f (w_ctx w)) ops w svc k l L"
| "run_prog (LockKey j p) ops w svc k l L =
     (if j \<in> L then (l, L, [], None) else run_prog p ops w svc k l (insert j L))"
| "run_prog (UnlockKey j p) ops w svc k l L = run_prog p ops w svc k l (L - {j})"
| "run_prog StillPolling ops w svc k l L = (l, L, [], None)"

text \<open>Such a run is a run of the system.\<close>

lemma sys_run_trans: "sys_run ops E W svc s' s'' \<Longrightarrow> sys_run ops E W svc s s' \<Longrightarrow> sys_run ops E W svc s s''"
  by (induction rule: sys_run.induct) (auto intro: sys_run.more)

lemma sys_run_first: "sys_step ops E W svc s s' \<Longrightarrow> sys_run ops E W svc s' s'' \<Longrightarrow> sys_run ops E W svc s s''"
  by (rule sys_run_trans) (auto intro: sys_run.intros)

definition advance :: "nat \<Rightarrow> task \<Rightarrow> 'l \<Rightarrow> string set \<Rightarrow> prog \<Rightarrow> event list \<Rightarrow> 'l system \<Rightarrow> 'l system" where
  "advance i t l' L' p' evs s = s\<lparr>sys_ledger := l', sys_locks := L', sys_tasks := (sys_tasks s)(i := Some (t\<lparr>t_prog := p'\<rparr>)),
     sys_log := sys_log s @ evs\<rparr>"

text \<open>One goroutine makes a call.\<close>

inductive tick ::
  "('l, 'e, 'o) ledger_ops \<Rightarrow> ('e \<Rightarrow> bool) \<Rightarrow> service \<Rightarrow> nat \<Rightarrow> 'l system \<Rightarrow> 'l system \<Rightarrow> bool" for ops E svc i where
  "sys_tasks s i = Some t \<Longrightarrow>
   call ops E svc (task_key (t_requester t) (t_message t)) (sys_ledger s) (sys_locks s) (t_prog t) l' L' p' evs \<Longrightarrow>
   tick ops E svc i s (advance i t l' L' p' evs s)"

lemma tick_step: "tick ops E svc i s s' \<Longrightarrow> sys_step ops E W svc s s'"
  by (induction rule: tick.induct) (simp add: advance_def sys_step.proceed)

lemma ticks_run: "(tick ops E svc i)\<^sup>*\<^sup>* s s' \<Longrightarrow> sys_run ops E W svc s s'"
  by (induction rule: rtranclp_induct) (auto intro: sys_run.intros tick_step)

lemma advance_advance:
  "advance i (t\<lparr>t_prog := p\<rparr>) l2 L2 p2 evs2 (advance i t l1 L1 p1 evs1 s) = advance i t l2 L2 p2 (evs1 @ evs2) s"
  by (simp add: advance_def)

lemma advance_task [simp]:
  "sys_tasks (advance i t l' L' p' evs s) i = Some (t\<lparr>t_prog := p'\<rparr>)" "sys_ledger (advance i t l' L' p' evs s) = l'"
  "sys_locks (advance i t l' L' p' evs s) = L'"
  by (simp_all add: advance_def)

lemma advance_more:
  assumes "sys_tasks s i = Some t"
    "call ops E svc (task_key (t_requester t) (t_message t)) (sys_ledger s) (sys_locks s) (t_prog t) l1 L1 p1 ev1"
    "(tick ops E svc i)\<^sup>*\<^sup>* (advance i t l1 L1 p1 ev1 s)
       (advance i (t\<lparr>t_prog := p1\<rparr>) l' L' q evs (advance i t l1 L1 p1 ev1 s))"
  shows "(tick ops E svc i)\<^sup>*\<^sup>* s (advance i t l' L' q (ev1 @ evs) s)"
  using tick.intros [OF assms(1,2)] assms(3) unfolding advance_advance by (rule converse_rtranclp_into_rtranclp)

text \<open>\<open>finishes p\<close>: whenever the interpreter answers, the system can run the goroutine to that answer.\<close>

definition finishes ::
  "('l, 'e, 'o) ledger_ops \<Rightarrow> ('e \<Rightarrow> bool) \<Rightarrow> service \<Rightarrow> 'e world \<Rightarrow> prog \<Rightarrow> bool" where
  "finishes ops E svc w p \<longleftrightarrow>
     (\<forall>s i t l' L' evs rsp. sys_tasks s i = Some t \<longrightarrow> t_prog t = p \<longrightarrow>
        run_prog p ops w svc (task_key (t_requester t) (t_message t)) (sys_ledger s) (sys_locks s) = (l', L', evs, Some rsp) \<longrightarrow>
        (tick ops E svc i)\<^sup>*\<^sup>* s (advance i t l' L' (Return rsp) evs s))"

lemma finishes_step:
  fixes ops :: "('l, 'e, 'o) ledger_ops"
  assumes "\<And>k l L l' L' evs rsp. run_prog p ops w svc k l L = (l', L', evs, Some rsp) \<Longrightarrow>
      \<exists>l1 L1 p1 ev1 evs1. call ops E svc k l L p l1 L1 p1 ev1 \<and> finishes ops E svc w p1 \<and> evs = ev1 @ evs1 \<and>
        run_prog p1 ops w svc k l1 L1 = (l', L', evs1, Some rsp)"
  shows "finishes ops E svc w p"
  unfolding finishes_def
proof (intro allI impI)
  fix s :: "'l system" and i t l' L' evs rsp
  assume t: "sys_tasks s i = Some t" "t_prog t = p"
    and r: "run_prog p ops w svc (task_key (t_requester t) (t_message t)) (sys_ledger s) (sys_locks s) = (l', L', evs, Some rsp)"
  obtain l1 L1 p1 ev1 evs1 where c: "call ops E svc (task_key (t_requester t) (t_message t)) (sys_ledger s) (sys_locks s) p l1 L1 p1 ev1"
      "finishes ops E svc w p1" "evs = ev1 @ evs1"
      "run_prog p1 ops w svc (task_key (t_requester t) (t_message t)) l1 L1 = (l', L', evs1, Some rsp)"
    using assms [OF r] by blast
  have "(tick ops E svc i)\<^sup>*\<^sup>* (advance i t l1 L1 p1 ev1 s)
      (advance i (t\<lparr>t_prog := p1\<rparr>) l' L' (Return rsp) evs1 (advance i t l1 L1 p1 ev1 s))"
    using c(2) [unfolded finishes_def, rule_format, of "advance i t l1 L1 p1 ev1 s" i "t\<lparr>t_prog := p1\<rparr>" l' L' evs1 rsp] c(4) by simp
  then show "(tick ops E svc i)\<^sup>*\<^sup>* s (advance i t l' L' (Return rsp) evs s)"
    using advance_more [OF t(1)] c(1,3) t(2) by blast
qed

lemma finishes_quiet:
  fixes ops :: "('l, 'e, 'o) ledger_ops"
  assumes "\<And>k l L. \<exists>l1 L1 p1. call ops E svc k l L p l1 L1 p1 [] \<and> finishes ops E svc w p1 \<and>
      run_prog p ops w svc k l L = run_prog p1 ops w svc k l1 L1"
  shows "finishes ops E svc w p"
  by (rule finishes_step) (metis assms append_Nil)

lemma finishes_event:
  fixes ops :: "('l, 'e, 'o) ledger_ops"
  assumes c: "\<And>k l L. call ops E svc k l L p l L q [ev k]" and f: "finishes ops E svc w q"
    and p: "\<And>k l L. run_prog p ops w svc k l L =
        (let (l', L', evs, rsp) = run_prog q ops w svc k l L in (l', L', ev k # evs, rsp))"
  shows "finishes ops E svc w p"
proof (rule finishes_step)
  fix k l L l' L' evs rsp
  assume r: "run_prog p ops w svc k l L = (l', L', evs, Some rsp)"
  obtain evs1 where "evs = ev k # evs1" "run_prog q ops w svc k l L = (l', L', evs1, Some rsp)"
    using r p [of k l L] by (auto simp: Let_def case_prod_beta prod_eq_iff)
  with c f show "\<exists>l1 L1 p1 ev1 evs1. call ops E svc k l L p l1 L1 p1 ev1 \<and> finishes ops E svc w p1 \<and>
      evs = ev1 @ evs1 \<and> run_prog p1 ops w svc k l1 L1 = (l', L', evs1, Some rsp)"
    by (intro exI [of _ l] exI [of _ L] exI [of _ q] exI [of _ "[ev k]"] exI [of _ evs1]) simp
qed

lemma run_prog_finishes:
  fixes ops :: "('l, 'e, 'o) ledger_ops"
  assumes E: "E (w_env w)"
  shows "finishes ops E svc w p"
proof (induction p)
  case (Return e)
  have "advance i t (sys_ledger s) (sys_locks s) (Return e) [] s = s"
    if "sys_tasks s i = Some t" "t_prog t = Return e" for s :: "'l system" and i t
    using that by (cases s) (auto simp: advance_def fun_upd_idem)
  then show ?case by (auto simp: finishes_def)
next
  case (ReadClock f)
  then show ?case
    by (intro finishes_quiet) (metis call.clock run_prog.simps(2) rangeI)
next
  case (AskAdmissionBlocked f)
  then show ?case
    by (intro finishes_quiet) (metis call.admission run_prog.simps(3) rangeI)
next
  case (CallReconcile p)
  then show ?case
    by (intro finishes_quiet) (metis call.reconcile [of E "w_env w", OF E] run_prog.simps(4) prod.collapse)
next
  case (CallLookup u c f)
  then show ?case
    by (intro finishes_quiet) (metis (no_types, lifting) call.lookup [of E "w_env w", OF E] run_prog.simps(5) prod.collapse case_prod_conv rangeI)
next
  case (CallReserve cl f)
  then show ?case
    by (intro finishes_quiet) (metis (no_types, lifting) call.reserve [of E "w_env w", OF E] run_prog.simps(6) prod.collapse case_prod_conv rangeI)
next
  case (CallTransition u c s t d f)
  then show ?case
    by (intro finishes_quiet) (metis (no_types, lifting) call.transition [of E "w_env w", OF E] run_prog.simps(7) prod.collapse case_prod_conv rangeI)
next
  case (CallAuthorize r opn f)
  let ?res = "Authorize (Some (svc_registry svc)) (Some (Resolve (Some (w_users w)))) r opn"
  show ?case
  proof (rule finishes_event [where q = "f ?res" and ev = "\<lambda>_. EvAuthorize r opn ?res"])
    show "call ops E svc k l L (CallAuthorize r opn f) l L (f ?res) [EvAuthorize r opn ?res]" for k l L
      by (rule call.authorize) (rule refl)
    show "finishes ops E svc w (f ?res)" using CallAuthorize by blast
  qed (simp only: run_prog.simps Let_def)
next
  case (CallExecute opn node reason f)
  let ?q = "f (w_exec w) (w_ctx w)"
  show ?case
  proof (rule finishes_event [where q = ?q and ev = "\<lambda>k. EvExecute k opn node reason"])
    show "call ops E svc k l L (CallExecute opn node reason f) l L ?q [EvExecute k opn node reason]" for k l L
      by (rule call.execute)
    show "finishes ops E svc w ?q" using CallExecute by blast
  qed (simp only: run_prog.simps)
next
  case (GetNode n f)
  then show ?case
    by (intro finishes_quiet) (metis call.get_node run_prog.simps(10) rangeI)
next
  case (GoRefresh p)
  show ?case
    by (rule finishes_event [where q = p and ev = "\<lambda>_. EvRefresh"]) (rule call.refresh, rule GoRefresh, simp only: run_prog.simps)
next
  case (Pause f)
  then show ?case
    by (intro finishes_quiet) (metis call.pause run_prog.simps(12) rangeI)
next
  case (LockKey j p)
  show ?case
  proof (rule finishes_step)
    fix k l L l' L' evs rsp
    assume "run_prog (LockKey j p) ops w svc k l L = (l', L', evs, Some rsp)"
    then have "j \<notin> L" "run_prog p ops w svc k l (insert j L) = (l', L', evs, Some rsp)" by (auto split: if_splits)
    with LockKey call.lock [of j L] show "\<exists>l1 L1 p1 ev1 evs1. call ops E svc k l L (LockKey j p) l1 L1 p1 ev1 \<and>
        finishes ops E svc w p1 \<and> evs = ev1 @ evs1 \<and> run_prog p1 ops w svc k l1 L1 = (l', L', evs1, Some rsp)"
      by (metis append_Nil)
  qed
next
  case (UnlockKey j p)
  then show ?case
    by (intro finishes_quiet) (metis call.unlock run_prog.simps(14))
next
  case StillPolling
  show ?case by (simp add: finishes_def)
qed

text \<open>A request that arrives in a system, handled to its answer without interruption.\<close>

lemma request_run:
  fixes ops :: "('l, 'e, 'o) ledger_ops"
  assumes "E (w_env w)" "sys_up s" "sys_tasks s i = None"
    "run_prog (Handle n svc r m) ops w svc (task_key r m) (sys_ledger s) (sys_locks s) = (l', L', evs, Some rsp)"
  shows "sys_run ops E W svc s
    (s\<lparr>sys_ledger := l', sys_locks := L', sys_tasks := (sys_tasks s)(i := None), sys_log := sys_log s @ evs @ [EvRespond m rsp]\<rparr>)"
proof -
  let ?t = "\<lparr>t_requester = r, t_message = m, t_prog = Handle n svc r m\<rparr>"
  let ?s1 = "s\<lparr>sys_tasks := (sys_tasks s)(i := Some ?t)\<rparr>"
  let ?s2 = "advance i ?t l' L' (Return rsp) evs ?s1"
  have 1: "sys_step ops E W svc s ?s1" using assms(2,3) by (rule sys_step.arrive)
  have 2: "sys_run ops E W svc ?s1 ?s2"
    using run_prog_finishes [of E w ops svc "Handle n svc r m"] assms(1,4) unfolding finishes_def by (intro ticks_run [of _ _ _ i]) simp
  have "sys_step ops E W svc ?s2
      (?s2\<lparr>sys_tasks := (sys_tasks ?s2)(i := None), sys_log := sys_log ?s2 @ [EvRespond (t_message (?t\<lparr>t_prog := Return rsp\<rparr>)) rsp]\<rparr>)"
    by (rule sys_step.answer) simp_all
  then have "sys_step ops E W svc ?s2
      (s\<lparr>sys_ledger := l', sys_locks := L', sys_tasks := (sys_tasks s)(i := None), sys_log := sys_log s @ evs @ [EvRespond m rsp]\<rparr>)"
    by (simp add: advance_def)
  with sys_run.more [OF 2] sys_run_first [OF 1] show ?thesis by blast
qed

end
