(* ===== verification/Command_Props.thy ===== *)
theory Command_Props
  imports Command_System Ledger_Props Protocol_Props
begin

text \<open>
  The command service over the SQLite ledger. The ledger of \<open>Ledger\<close> satisfies the contract of
  \<open>Command_System\<close>, so the system theorems hold for the program: within the retention period no
  command is executed twice, and a command is executed only when its durable record says that an
  administrator was authorized and that execution has started.
\<close>

section \<open>The ledger as the service's interface\<close>

type_synonym start_env = "open_env \<times> (string \<Rightarrow> string) \<times> string"

definition sqlite_start :: "start_env \<Rightarrow> ledger \<Rightarrow> ledger \<times> bool" where
  "sqlite_start w l =
     (case w of (oe, abs_path, path) \<Rightarrow>
        case Open oe abs_path path (ldb l) of
          (d, Inr l') \<Rightarrow> (l', True)
        | (d, Inl _) \<Rightarrow> (l\<lparr>ldb := d, has_db := False\<rparr>, False))"

definition sqlite_ops :: "(ledger, db_env, start_env) ledger_ops" where
  "sqlite_ops = \<lparr>op_AdmissionBlocked = (\<lambda>l. AdmissionBlocked (Some l)), op_Reconcile = Reconcile, op_Lookup = Lookup,
     op_Reserve = ReserveAuthorization, op_Transition = Transition, op_start = sqlite_start\<rparr>"

text \<open>A window of one retention period from \<open>T\<close> on, in which every clock reading lies.\<close>

definition in_window :: "int \<Rightarrow> int \<Rightarrow> bool" where
  "in_window T now \<longleftrightarrow> T \<le> now \<and> now < T + Retention"

definition call_env :: "int \<Rightarrow> db_env \<Rightarrow> bool" where
  "call_env T e \<longleftrightarrow> in_window T (env_now e)"

definition start_ok :: "int \<Rightarrow> start_env \<Rightarrow> bool" where
  "start_ok T w \<longleftrightarrow> in_window T (env_now (oe_purge (fst w)))"

definition lasts :: "int \<Rightarrow> row \<Rightarrow> bool" where
  "lasts T r \<longleftrightarrow> T + Retention \<le> expires_at r"

definition stored :: "ledger \<Rightarrow> ckey \<Rightarrow> row option" where
  "stored l k = tab_find row_key k (ledger_rows l)"

definition service_ledger_ok :: "ledger \<Rightarrow> bool" where
  "service_ledger_ok l \<longleftrightarrow> ledger_ok l \<and> user_version (ldb l) = SchemaVersion"

lemma lasts_window: "lasts T r \<Longrightarrow> in_window T now \<Longrightarrow> now < expires_at r"
  by (simp add: lasts_def in_window_def)

lemma recover_exact:
  assumes "recoverInterrupted e l = (l', res)" "ledger_ok l" "find_row k l = Some r"
  shows "\<exists>b. find_row k l' = Some b \<and> (b = r \<or> recovered r b)"
proof (cases "env_fault e PUpdate")
  case True
  then show ?thesis using assms by (simp add: recoverInterrupted_def)
next
  case False
  then have "find_row k l' = Some (if interrupted (status r)
      then r\<lparr>status := recover_status (status r), updated_at := env_now e\<rparr> else r)"
    using assms find_update [OF ledger_ok_unique [OF assms(2)], of "\<lambda>r. interrupted (status r)"
        "\<lambda>r. r\<lparr>status := recover_status (status r), updated_at := env_now e\<rparr>" k]
    by (auto simp: recoverInterrupted_def)
  then show ?thesis unfolding recovered_def by auto
qed

lemma Reconcile_exact:
  assumes "Reconcile e l = (l', res)" "ledger_ok l" "find_row k l = Some r"
  shows "\<exists>b. find_row k l' = Some b \<and> (b = r \<or> recovered r b)"
  using assms(1)
proof (cases rule: Reconcile_outcome)
  case (failed l1)
  then show ?thesis using recover_exact [OF _ assms(2,3)] assms(3) by force
next
  case (recovered l1)
  then show ?thesis using recover_exact [OF _ assms(2,3)] by force
qed (use assms(3) in auto)

lemma Open_exact:
  assumes "Open oe abs_path p d = (d', res)" "user_version d = SchemaVersion" "rows_ok (rows d)"
    "tab_find row_key k (rows d) = Some r" "env_now (oe_purge oe) < expires_at r"
  shows "\<exists>b. tab_find row_key k (rows d') = Some b \<and> (b = r \<or> recovered r b)"
proof -
  let ?l = "\<lparr>ldb = d, lpath = abs_path (if p = [] then DefaultPath else p), has_db = True, blocked = False\<rparr>"
  have rec: "\<exists>b. tab_find row_key k (rows (ldb l1)) = Some b \<and> (b = r \<or> recovered r b) \<and> expires_at b = expires_at r"
    if "recoverInterrupted (oe_recover oe) ?l = (l1, None)" for l1
    using recover_exact [OF that, of k r] assms(3,4) by (fastforce simp: ledger_ok_def recovered_def)
  show ?thesis
    using assms(1)
  proof (cases rule: Open_outcome)
    case (failed err d1 l)
    then show ?thesis using assms(2,4) rec migrate_current [OF assms(2)] by fastforce
  next
    case (opened d1 l1 l2)
    then have "d1 = d" using migrate_current [OF assms(2)] by blast
    with opened have l1: "recoverInterrupted (oe_recover oe) ?l = (l1, None)" by simp
    then have "ledger_ok l1" using recoverInterrupted_ok assms(3) by (fastforce simp: ledger_ok_def)
    then show ?thesis using rec [OF l1] opened purge_find assms(5) by metis
  qed
qed

lemma Open_version:
  "Open oe abs_path p d = (d', res) \<Longrightarrow> user_version d = SchemaVersion \<Longrightarrow> user_version d' = SchemaVersion"
  using migrate_current migrate_version user_version_ops(4,5)
  by (erule_tac Open_outcome) fastforce+

lemma Transition_exact:
  assumes "Transition e u c s t d l = (l', err)" "ledger_ok l"
  shows "k \<noteq> (u, c) \<Longrightarrow> find_row k l' = find_row k l"
    and "find_row (u, c) l = Some a \<Longrightarrow> find_row (u, c) l' = Some a \<or>
      status a = s \<and> find_row (u, c) l' = Some (transition_row (env_now e) t d a)"
    and "err = None \<Longrightarrow> \<exists>a. find_row (u, c) l = Some a \<and> status a = s \<and> transition_guard s t d \<and>
      find_row (u, c) l' = Some (transition_row (env_now e) t d a)"
proof -
  let ?P = "\<lambda>r. row_key r = (u, c) \<and> status r = s" and ?f = "transition_row (env_now e) t d"
  note upd = find_update [OF ledger_ok_unique [OF assms(2)], of ?P ?f]
  have upd': "tab_find row_key k rs = map_option (\<lambda>r. if ?P r then ?f r else r) (find_row k l)"
    if "sql_update ?P ?f (ledger_rows l) = (rs, n)" for rs n k
    using upd [of k] that by simp
  show "k \<noteq> (u, c) \<Longrightarrow> find_row k l' = find_row k l"
    using assms(1)
  proof (cases rule: Transition_outcome)
    case (applied rs)
    assume "k \<noteq> (u, c)"
    then show ?thesis using applied upd' [OF applied(5), of k]
      by (cases "find_row k l") (auto dest: tab_find_SomeD)
  next
    case (moved rs)
    assume "k \<noteq> (u, c)"
    then show ?thesis using moved upd' [OF moved(5), of k]
      by (cases "find_row k l") (auto dest: tab_find_SomeD)
  qed auto
  show "find_row (u, c) l' = Some a \<or> status a = s \<and> find_row (u, c) l' = Some (?f a)" if "find_row (u, c) l = Some a"
    using assms(1)
  proof (cases rule: Transition_outcome)
    case (applied rs)
    then show ?thesis using upd' [OF applied(5), of "(u, c)"] that by auto
  next
    case (moved rs)
    then show ?thesis using upd' [OF moved(5), of "(u, c)"] that by auto
  qed (use that in auto)
  show "\<exists>a. find_row (u, c) l = Some a \<and> status a = s \<and> transition_guard s t d \<and> find_row (u, c) l' = Some (?f a)"
    if "err = None"
    using assms(1)
  proof (cases rule: Transition_outcome)
    case (moved rs)
    then have "length (filter ?P (ledger_rows l)) = 1" by (simp add: sql_update_def)
    then obtain a where a: "find_row (u, c) l = Some a" "status a = s"
      using tab_affected_iff [OF ledger_ok_unique [OF assms(2)], of "(u, c)" "\<lambda>r. status r = s"] by auto
    then show ?thesis
      using moved upd' [OF moved(5), of "(u, c)"] tab_find_SomeD [OF a(1)] by auto
  qed (use that in auto)
qed

lemma Reserve_created:
  assumes "ReserveAuthorization e c l = (l', Inr (r, True))" "ledger_ok l"
  shows "find_row (cCallerUID c, cCommandID c) l' = Some (row_of_claim (env_now e) c)"
    and "find_row (cCallerUID c, cCommandID c) l = Some a \<Longrightarrow> expires_at a \<le> env_now e"
proof -
  from assms(1) obtain rs n where *: "l' = set_rows rs l" "n = 1"
      "sql_insert (row_of_claim (env_now e) c) (sql_delete_expired (env_now e) (ledger_rows l)) = Some (rs, n)"
    by (cases rule: Reserve_outcome) auto
  have none: "tab_find row_key (cCallerUID c, cCommandID c) (sql_delete_expired (env_now e) (ledger_rows l)) = None"
    using find_insert(2) [OF *(3)] *(2) by simp
  then show "find_row (cCallerUID c, cCommandID c) l' = Some (row_of_claim (env_now e) c)"
    using find_insert(1) [OF *(3), of "(cCallerUID c, cCommandID c)"] *(1) by simp
  show "find_row (cCallerUID c, cCommandID c) l = Some a \<Longrightarrow> expires_at a \<le> env_now e"
    using none find_delete [OF ledger_ok_unique [OF assms(2)], of "(cCallerUID c, cCommandID c)" "env_now e"]
    by (auto split: if_splits)
qed

interpretation sqlite: command_ledger sqlite_ops service_ledger_ok stored "call_env T" "start_ok T" "lasts T"
proof
  fix l e u c l' ans
  assume "service_ledger_ok l" "op_Lookup sqlite_ops e u c l = (l', ans)"
  then show "service_ledger_ok l' \<and> stored l' = stored l"
    using Lookup_rows [of e u c l l'] Lookup_ok user_version_ops(1)
    by (auto simp: sqlite_ops_def service_ledger_ok_def stored_def)
next
  fix l e cl l' res
  assume "service_ledger_ok l" "op_Reserve sqlite_ops e cl l = (l', res)"
  then show "service_ledger_ok l'"
    using Reserve_ok user_version_ops(2) by (auto simp: sqlite_ops_def service_ledger_ok_def)
next
  fix l e cl l' res k a
  assume "service_ledger_ok l" "call_env T e" "op_Reserve sqlite_ops e cl l = (l', res)" "stored l k = Some a" "lasts T a"
  then show "stored l' k = Some a"
    using Reserve_find [of e cl l l' res k a] lasts_window
    by (auto simp: sqlite_ops_def service_ledger_ok_def stored_def call_env_def)
next
  fix l e cl l' r
  assume "service_ledger_ok l" "call_env T e" "op_Reserve sqlite_ops e cl l = (l', Inr (r, True))"
  then show "(\<forall>a. stored l (cCallerUID cl, cCommandID cl) = Some a \<longrightarrow> \<not> lasts T a) \<and>
      (\<exists>a. stored l' (cCallerUID cl, cCommandID cl) = Some a \<and> lasts T a \<and> status a = StatusAuthorizationPending)"
    using Reserve_created [of e cl l l' r]
    by (fastforce simp: sqlite_ops_def service_ledger_ok_def stored_def call_env_def lasts_def in_window_def row_of_claim_def)
next
  fix l e u c s t d l' err
  assume "service_ledger_ok l" "op_Transition sqlite_ops e u c s t d l = (l', err)"
  then show "service_ledger_ok l'"
    using Transition_ok user_version_ops(3) by (auto simp: sqlite_ops_def service_ledger_ok_def)
next
  fix l e u c s t d l' err k
  assume "service_ledger_ok l" "op_Transition sqlite_ops e u c s t d l = (l', err)" "k \<noteq> (u, c)"
  then show "stored l' k = stored l k"
    using Transition_exact(1) [of e u c s t d l l' err k] by (simp add: sqlite_ops_def service_ledger_ok_def stored_def)
next
  fix l e u c s t d l' err a
  assume "service_ledger_ok l" "op_Transition sqlite_ops e u c s t d l = (l', err)" "stored l (u, c) = Some a"
  then show "stored l' (u, c) = Some a \<or> status a = s \<and> (\<exists>now. stored l' (u, c) = Some (transition_row now t d a))"
    using Transition_exact(2) [of e u c s t d l l' err a] by (auto simp: sqlite_ops_def service_ledger_ok_def stored_def)
next
  fix l e u c s t d l'
  assume "service_ledger_ok l" "op_Transition sqlite_ops e u c s t d l = (l', None)"
  then show "\<exists>a now. stored l (u, c) = Some a \<and> status a = s \<and> transition_guard s t d \<and>
      stored l' (u, c) = Some (transition_row now t d a)"
    using Transition_exact(3) [of e u c s t d l l' None] by (auto simp: sqlite_ops_def service_ledger_ok_def stored_def)
next
  fix l e l' err
  assume "service_ledger_ok l" "op_Reconcile sqlite_ops e l = (l', err)"
  then show "service_ledger_ok l' \<and>
      (\<forall>k a. stored l k = Some a \<longrightarrow> (\<exists>b. stored l' k = Some b \<and> (b = a \<or> recovered a b)))"
    using Reconcile_exact [of e l l' err] Reconcile_ok [of e l l' err] user_version_ops(6) [of e l l' err]
    unfolding sqlite_ops_def service_ledger_ok_def stored_def by simp
next
  fix l w l' up
  assume *: "service_ledger_ok l" "start_ok T w" "op_start sqlite_ops w l = (l', up)"
  obtain oe f p where w: "w = (oe, f, p)" by (metis surj_pair)
  obtain d' res where o: "Open oe f p (ldb l) = (d', res)" by fastforce
  have d': "ldb l' = d'" using *(3) w o Open_db by (auto simp: sqlite_ops_def sqlite_start_def split: sum.splits)
  have v: "user_version (ldb l) = SchemaVersion" "rows_ok (rows (ldb l))"
    using *(1) by (auto simp: service_ledger_ok_def ledger_ok_def)
  have "env_now (oe_purge oe) < expires_at a" if "lasts T a" for a
    using lasts_window [OF that] *(2) w by (simp add: start_ok_def)
  then show "service_ledger_ok l' \<and>
      (\<forall>k a. stored l k = Some a \<longrightarrow> lasts T a \<longrightarrow> (\<exists>b. stored l' k = Some b \<and> (b = a \<or> recovered a b)))"
    using Open_exact [OF o v] Open_version [OF o v(1)] Open_rows_ok [OF o v(2)] d'
    unfolding service_ledger_ok_def ledger_ok_def stored_def by simp
next
  show "lasts T a \<Longrightarrow> lasts T (transition_row now t d a)" for a now t d
    by (simp add: lasts_def transition_row_def)
  show "lasts T a \<Longrightarrow> recovered a b \<Longrightarrow> lasts T b" for a b
    by (auto simp: lasts_def recovered_def)
qed

end
