(* ===== verification/Command_Outcomes.thy ===== *)
theory Command_Outcomes
  imports Command_Props
begin

text \<open>
  What the command service answers over the SQLite ledger. While the database works, a new command
  is settled in one of five ways, each with its durable record and its answer; a repeated command
  gets the recorded answer and nothing is executed. Together with the contract of the ledger this
  gives the properties of the whole system: no command is executed twice, and none without an
  administrator's authorization.
\<close>

section \<open>Stored error payloads\<close>

definition error_utf8 :: "error_payload \<Rightarrow> bool" where
  "error_utf8 p \<longleftrightarrow> valid_utf8 (Code p) \<and> valid_utf8 (Category p) \<and> valid_utf8 (ErrMessage p) \<and>
     valid_utf8 (err_CommandID p) \<and> valid_utf8 (err_Resource p) \<and>
     (\<forall>t. err_Target p = Some t \<longrightarrow> valid_utf8 (NodeName t))"

lemma decode_bool_text: "decode_bool (json_text (JBool b)) old = (b, True)"
  by (simp add: decode_bool_def read_text_json_text del: json_text.simps)

lemma read_target_text: "valid_utf8 (NodeName t) \<Longrightarrow> read_text (json_text (target_json t)) \<noteq> Some JNull"
  by (simp add: target_json_def read_text_json_text del: json_text.simps)

lemma put_ptr_target_text:
  "valid_utf8 (NodeName t) \<Longrightarrow>
   decode_ptr [''nodeName''] put_target z (json_text (target_json t)) old = (Some t, True)"
  using put_target_text [of t] by (simp add: decode_ptr_def read_target_text)

lemma unmarshal_object_text:
  assumes "json_ok (JObj ms)" "jdepth (JObj ms) \<le> max_depth" "\<forall>k \<in> fst ` set ms. k \<in> set names"
  shows "unmarshal names put (json_text (JObj ms)) x =
    (let (y, ok) = decode_members names put (map (\<lambda>(k, v). (k, json_text v)) ms) x in if ok then Some y else None)"
proof -
  have "filter (\<lambda>(k, raw). find_field names k \<noteq> None) (map (\<lambda>(k, v). (k, json_text v)) ms) =
      map (\<lambda>(k, v). (k, json_text v)) ms"
    using assms(3) by (intro filter_True) (auto simp: find_field_exact)
  then show ?thesis
    using assms(1,2) by (simp add: unmarshal_def read_text_json_text object_members_text del: json_text.simps jdepth.simps)
qed

lemma unmarshal_error_text:
  assumes "error_utf8 p"
  shows "unmarshal_error (Some (json_text (error_json p))) = Some p"
proof -
  have t: "json_ok (target_json t)" "jdepth (target_json t) = 1" if "err_Target p = Some t" for t
    using assms that by (auto simp: error_utf8_def target_json_def)
  have v: "json_ok (error_json p)" "jdepth (error_json p) \<le> max_depth"
    using assms t by (auto simp: error_utf8_def error_json_def opt_field_def opt_target_def max_depth_def split: option.splits)
  obtain ms where ms: "error_json p = JObj ms" "\<forall>k \<in> fst ` set ms. k \<in> set error_fields"
    by (auto simp: error_json_def opt_field_def opt_target_def error_fields_def split: option.splits)
  have "decode_members error_fields put_error (map (\<lambda>(k, v). (k, json_text v)) ms) zero_error = (p, True)"
    using ms(1) assms
    by (cases p) (auto simp: error_json_def opt_field_def opt_target_def error_fields_def find_field_exact put_error_def
        put_string_def decode_string_text decode_bool_text zero_error_def error_utf8_def put_ptr_target_text
        simp del: json_text.simps(2,5,6) split: option.splits)
  then show ?thesis
    using v ms unfolding ms(1) by (simp add: unmarshal_error_def unmarshal_object_text del: json_text.simps jdepth.simps)
qed

section \<open>The ledger while the database works\<close>

definition healthy :: "ledger \<Rightarrow> bool" where
  "healthy l \<longleftrightarrow> service_ledger_ok l \<and> has_db l \<and> \<not> blocked l"

text \<open>The record of a command that has not expired.\<close>

definition live :: "int \<Rightarrow> ledger \<Rightarrow> ckey \<Rightarrow> row option" where
  "live now l k = (case stored l k of None \<Rightarrow> None | Some r \<Rightarrow> if now < expires_at r then Some r else None)"

lemma healthy_set_rows [simp]:
  "healthy (set_rows rs l) \<longleftrightarrow> rows_ok rs \<and> user_version (ldb l) = SchemaVersion \<and> has_db l \<and> \<not> blocked l"
  by (auto simp: healthy_def service_ledger_ok_def set_rows_def ledger_ok_def)

lemma Lookup_quiet:
  "healthy l \<Longrightarrow> Lookup (quiet_env t) u c l = (l, Inr (map_option scanRecord (live t l (u, c))))"
  by (auto simp: Lookup_def healthy_def live_def stored_def sql_select_def split: option.splits)

lemma Reserve_quiet:
  assumes l: "healthy l" and c: "validateClaim c = None" "live t l (cCallerUID c, cCommandID c) = None"
  shows "\<exists>l'. ReserveAuthorization (quiet_env t) c l = (l', Inr (scanRecord (row_of_claim t c), True)) \<and>
    healthy l' \<and> stored l' (cCallerUID c, cCommandID c) = Some (row_of_claim t c) \<and>
    (\<forall>k. k \<noteq> (cCallerUID c, cCommandID c) \<longrightarrow> live t l' k = live t l k)"
proof -
  let ?r = "row_of_claim t c" and ?k = "(cCallerUID c, cCommandID c)"
  let ?rs = "sql_delete_expired t (ledger_rows l)"
  have ok: "rows_ok (ledger_rows l)" using l by (simp add: healthy_def service_ledger_ok_def ledger_ok_def)
  note del = find_delete [OF rows_ok_unique [OF ok], of _ t]
  have none: "tab_find row_key ?k ?rs = None"
    using c(2) by (auto simp: del live_def stored_def split: option.splits if_splits)
  then have "?k \<notin> set (map row_key ?rs)" by (simp add: tab_find_None_iff)
  then have ins: "sql_insert ?r ?rs = Some (?rs @ [?r], 1)"
    using row_check_of_claim [OF c(1)] by (simp add: sql_insert_def)
  have find: "tab_find row_key k (?rs @ [?r]) = (if k = ?k then Some ?r else tab_find row_key k ?rs)" for k
    using find_insert(1) [OF ins, of k] none by (auto split: option.splits)
  have "rows_ok (?rs @ [?r])"
    using rows_ok_insert [OF rows_ok_delete [OF ok] row_ok_of_claim [OF c(1)] ins] .
  then show ?thesis
    using l c(1) ins find
    by (intro exI [of _ "set_rows (?rs @ [?r]) l"])
      (auto simp: ReserveAuthorization_def Let_def healthy_def service_ledger_ok_def isBlocked_def selectRecord_def
        sql_select_def commit_def stored_def live_def del scanRecord_def split: option.splits)
qed

lemma Transition_quiet:
  assumes l: "healthy l" and a: "stored l (u, c) = Some a" "status a = s" and g: "transition_guard s nx d"
  shows "\<exists>l'. Transition (quiet_env t) u c s nx d l = (l', None) \<and> healthy l' \<and>
    stored l' (u, c) = Some (transition_row t nx d a) \<and> (\<forall>k. k \<noteq> (u, c) \<longrightarrow> stored l' k = stored l k)"
proof -
  let ?P = "\<lambda>r. row_key r = (u, c) \<and> status r = s"
  have ok: "ledger_ok l" using l by (simp add: healthy_def service_ledger_ok_def)
  obtain rs where rs: "sql_update ?P (transition_row t nx d) (ledger_rows l) = (rs, 1)"
    using tab_affected_iff [OF ledger_ok_unique [OF ok], of "(u, c)" "\<lambda>r. status r = s"] a
    by (auto simp: sql_update_def stored_def)
  then have T: "Transition (quiet_env t) u c s nx d l = (set_rows rs l, None)"
    using l g by (simp add: Transition_def Let_def healthy_def isBlocked_def commit_def)
  show ?thesis
    using T Transition_exact [OF T ok] Transition_ok [OF T ok] l a
    by (auto simp: healthy_def service_ledger_ok_def stored_def set_rows_def)
qed

section \<open>How a new command is settled\<close>

text \<open>
  The specification: from the authorizer's answer and the outcome of the execution, the status of
  the durable record, the type of the answer and its payload, which is also what the record keeps.
\<close>

definition settled_error :: "error_code \<Rightarrow> error_category \<Rightarrow> string \<Rightarrow> bool \<Rightarrow> node_command_request \<Rightarrow> json" where
  "settled_error code cat msg retry q = error_json (errorPayload code cat msg retry (CommandID q))"

definition success_json :: "node_command_request \<Rightarrow> json" where
  "success_json q = response_json
     \<lparr>rsp_CommandID = CommandID q, rsp_Resource = Resource q, rsp_Command = Command q, rsp_Target = Some (Target q),
      rsp_Parameters = Some \<lparr>State = State (Parameters q), Reason = None\<rparr>, rsp_Status = CommandStatusSucceeded\<rparr>"

definition uncertain :: "exec_error \<Rightarrow> bool \<Rightarrow> bool" where
  "uncertain err ctx_done \<longleftrightarrow> err \<in> {ExecOutcomeUnknown, ExecDeadlineExceeded, ExecCanceled} \<or> ctx_done"

fun settle_execution :: "node_command_request \<Rightarrow> exec_error + unit \<Rightarrow> bool \<Rightarrow> status \<times> string \<times> json" where
  "settle_execution q (Inr _) ctx_done = (StatusSucceeded, MessageCommandResponse, success_json q)"
| "settle_execution q (Inl err) ctx_done =
     (if uncertain err ctx_done
      then (StatusUnknown, MessageError, settled_error CodeCommandOutcomeUnknown CatTimeout
        ''The Node operation outcome is unknown; do not retry automatically'' False q)
      else (StatusFailed, MessageError, settled_error CodeSlurmCommandFailed CatSlurm
        ''Slurm rejected the Node operation'' False q))"

fun settle :: "node_command_request \<Rightarrow> access_error + decision \<Rightarrow> exec_error + unit \<Rightarrow> bool \<Rightarrow> status \<times> string \<times> json" where
  "settle q (Inl _) ex ctx_done = (StatusAuthorizationFailed, MessageError,
     settled_error CodeUserLookupFailed CatInternal ''Slurm user information is temporarily unavailable'' True q)"
| "settle q (Inr d) ex ctx_done =
     (if Allowed d then settle_execution q ex ctx_done
      else (StatusDenied, MessageError, settled_error CodeAuthorizationDenied CatAuthorization
        ''Not authorized to perform this Node operation'' False q))"

text \<open>
  Program \<open>p\<close>, run alone from a ledger whose record of \<open>k\<close> grew from \<open>base\<close>, settles the command as
  \<open>x\<close> says, with the events \<open>evs\<close>, and leaves every other record and every lock alone.
\<close>

definition answer :: "string \<Rightarrow> envelope \<Rightarrow> status \<times> string \<times> json \<Rightarrow> envelope" where
  "answer now m x = (case x of (st, ty, js) \<Rightarrow> NewEnvelope now (MessageID m) ty (Some (json_text js)))"

definition settled :: "ckey \<Rightarrow> row \<Rightarrow> ledger \<Rightarrow> status \<times> string \<times> json \<Rightarrow> ledger \<Rightarrow> bool" where
  "settled k base l x l' \<longleftrightarrow>
     (case x of (st, ty, js) \<Rightarrow> healthy l' \<and>
       (\<exists>a. stored l' k = Some a \<and> same_claim base a \<and> status a = st \<and>
          (if st = StatusSucceeded then result_payload a else error_payload a) = Some (json_text js)) \<and>
       (\<forall>j. j \<noteq> k \<longrightarrow> stored l' j = stored l j))"

definition settles ::
  "db_env world \<Rightarrow> service \<Rightarrow> ckey \<Rightarrow> envelope \<Rightarrow> row \<Rightarrow> prog \<Rightarrow> ledger \<Rightarrow> event list \<Rightarrow> status \<times> string \<times> json \<Rightarrow> bool" where
  "settles w svc k m base p l evs x \<longleftrightarrow>
     (\<forall>L. \<exists>l'. run_prog p sqlite_ops w svc k l L = (l', L, evs, Some (answer (w_clock w) m x)) \<and> settled k base l x l')"

lemma sqlite_ops_simps [simp]:
  "op_AdmissionBlocked sqlite_ops l = blocked l" "op_Reconcile sqlite_ops = Reconcile" "op_Lookup sqlite_ops = Lookup"
  "op_Reserve sqlite_ops = ReserveAuthorization" "op_Transition sqlite_ops = Transition" "op_start sqlite_ops = sqlite_start"
  by (simp_all add: sqlite_ops_def AdmissionBlocked_def)

lemma error_text_nonempty [simp]: "json_text (error_json p) \<noteq> []"
  by (simp add: error_json_def)

text \<open>A transition that is the last step before the answer.\<close>

lemma settles_last:
  assumes "healthy l" "stored l k = Some a" "status a = s" "same_claim base a" "k = (u, c)" "w_env w = quiet_env t"
    "transition_guard s st d" "(if st = StatusSucceeded then tResultPayload d else tErrorPayload d) = Some (json_text js)"
    "\<And>l' L. run_prog (f None) sqlite_ops w svc k l' L =
       (l', L, evs, Some (answer (w_clock w) m (st, ty, js)))"
  shows "settles w svc k m base (CallTransition u c s st d f) l evs (st, ty, js)"
proof -
  obtain l' where l': "Transition (quiet_env t) u c s st d l = (l', None)" "healthy l'"
      "stored l' k = Some (transition_row t st d a)" "\<forall>j. j \<noteq> k \<longrightarrow> stored l' j = stored l j"
    using Transition_quiet [of l u c a s st d t] assms by auto
  moreover have "same_claim base (transition_row t st d a)"
    using assms(4) same_claim_transition by (rule same_claim_trans)
  ultimately show ?thesis
    using assms(6,8,9) unfolding settles_def settled_def
    by (auto simp: transition_row_def coalesce_def)
qed

lemma settles_transition:
  assumes "healthy l" "stored l k = Some a" "status a = s" "same_claim base a" "k = (u, c)" "w_env w = quiet_env t"
    "transition_guard s st d"
    "\<And>l' b. healthy l' \<Longrightarrow> stored l' k = Some b \<Longrightarrow> status b = st \<Longrightarrow> same_claim base b \<Longrightarrow>
       settles w svc k m base (f None) l' evs x"
  shows "settles w svc k m base (CallTransition u c s st d f) l evs x"
proof -
  obtain l' where l': "Transition (quiet_env t) u c s st d l = (l', None)" "healthy l'"
      "stored l' k = Some (transition_row t st d a)" "\<forall>j. j \<noteq> k \<longrightarrow> stored l' j = stored l j"
    using Transition_quiet [of l u c a s st d t] assms by auto
  moreover have "same_claim base (transition_row t st d a)"
    using assms(4) same_claim_transition by (rule same_claim_trans)
  ultimately have "settles w svc k m base (f None) l' evs x" using assms(8) by simp
  then show ?thesis
    using l'(1,4) assms(6) unfolding settles_def settled_def by (auto split: prod.splits)
qed

definition refresh_events :: "service \<Rightarrow> status \<Rightarrow> event list" where
  "refresh_events svc st = (if has_refresh svc \<and> st \<in> {StatusSucceeded, StatusUnknown} then [EvRefresh] else [])"

lemma run_responses [simp]:
  "run_prog (error_response m p) ops w svc k l L =
     (l, L, [], Some (NewEnvelope (w_clock w) (MessageID m) MessageError (Some (json_text (error_json p)))))"
  "run_prog (result_response m x) ops w svc k l L =
     (l, L, [], Some (NewEnvelope (w_clock w) (MessageID m) MessageCommandResponse x))"
  by (simp_all add: error_response_def result_response_def NewErrorEnvelope_def)

lemma run_refresh [simp]:
  "run_prog (requestNodeRefresh s p) ops w svc k l L =
     (let (l', L', evs, rsp) = run_prog p ops w svc k l L in (l', L', (if has_refresh s then EvRefresh # evs else evs), rsp))"
  by (auto simp: requestNodeRefresh_def split: prod.splits)

lemma settles_execute:
  assumes "healthy l" "stored l k = Some a" "status a = StatusRunning" "same_claim base a" "k = (UID r, CommandID q)"
    "w_env w = quiet_env t"
  shows "settles w svc k m base (handle_execute svc r m q opn reason) l
    (EvExecute k opn (NodeName (Target q)) reason #
       refresh_events svc (fst (settle_execution q (w_exec w) (w_ctx w))))
    (settle_execution q (w_exec w) (w_ctx w))"
proof -
  have ev: "settles w svc k m base (CallExecute opn node reason g) l (EvExecute k opn node reason # evs) x"
    if "settles w svc k m base (g (w_exec w) (w_ctx w)) l evs x" for g node evs x
    using that unfolding settles_def by (metis (no_types, lifting) case_prod_conv run_prog.simps(9))
  note last = settles_last [OF assms]
  show ?thesis
    unfolding handle_execute_def
    by (rule ev, cases "w_exec w")
      (auto simp: Let_def uncertain_def settled_error_def success_json_def refresh_events_def transition_guard_def
        marshalPayload_def no_data_def answer_def intro!: last)
qed

text \<open>A decision of the authorizer is about the requester, and only an administrator is allowed.\<close>

lemma Authorize_decision:
  assumes "Authorize (Some reg) (Some (Resolve users)) r opn = Inr d" "registry_Lookup (Some reg) opn = Some entry"
  shows "dec_RequiredCapability d = RequiredCapability entry" "UID (dec_UserContext d) = UID r"
    "GID (dec_UserContext d) = GID r" "Username (dec_UserContext d) = Username r"
    "Allowed d \<Longrightarrow> AdminLevel (dec_UserContext d) = ''admin''"
proof -
  from assms obtain c where c: "Resolve users r = Inr c"
      "d = \<lparr>Allowed = has_capability (Capabilities c) (RequiredCapability entry),
        dec_RequiredCapability = RequiredCapability entry, dec_UserContext = c\<rparr>"
    by (auto simp: Authorize_def split: option.splits sum.splits if_splits)
  with Resolve_ok [OF c(1)]
  show "dec_RequiredCapability d = RequiredCapability entry" "UID (dec_UserContext d) = UID r"
    "GID (dec_UserContext d) = GID r" "Username (dec_UserContext d) = Username r"
    "Allowed d \<Longrightarrow> AdminLevel (dec_UserContext d) = ''admin''" by auto
qed

definition new_events :: "service \<Rightarrow> db_env world \<Rightarrow> user_context \<Rightarrow> node_command_request \<Rightarrow> operation_id \<Rightarrow> string \<Rightarrow>
  access_error + decision \<Rightarrow> event list" where
  "new_events svc w r q opn reason res =
     EvAuthorize r opn res #
     (if granted r res
      then EvExecute (UID r, CommandID q) opn (NodeName (Target q)) reason #
        refresh_events svc (fst (settle_execution q (w_exec w) (w_ctx w)))
      else [])"

lemma settles_decision:
  assumes l: "healthy l" "stored l k = Some a" "status a = StatusAuthorizationPending" "same_claim base a" "k = (UID r, CommandID q)"
    "w_env w = quiet_env t"
    and res: "res = Authorize (Some (svc_registry svc)) (Some (Resolve (Some (w_users w)))) r opn"
    and e: "registry_Lookup (Some (svc_registry svc)) opn = Some entry"
    and i: "xUsername (svc_identity svc) \<noteq> []" "xBoundary (svc_identity svc) \<noteq> []"
  shows "settles w svc k m base (handle_decision svc r m q opn entry reason res) l
    (tl (new_events svc w r q opn reason res)) (settle q res (w_exec w) (w_ctx w))"
proof (cases res)
  case (Inl err)
  then show ?thesis
    by (auto simp: handle_decision_def new_events_def granted_def Let_def settled_error_def transition_guard_def marshalPayload_def
        no_data_def answer_def intro!: settles_last [OF l])
next
  case (Inr d)
  note d = Authorize_decision [OF res [unfolded Inr, symmetric] e]
  show ?thesis
  proof (cases "Allowed d")
    case False
    then show ?thesis using Inr d
      by (auto simp: handle_decision_def new_events_def granted_def Let_def settled_error_def transition_guard_def
          marshalPayload_def no_data_def answer_def intro!: settles_last [OF l])
  next
    case True
    have clock: "settles w svc k m base (ReadClock f) l evs x" if "settles w svc k m base (f (w_clock w)) l evs x" for f evs x
      using that by (simp add: settles_def)
    have "settles w svc k m base (handle_decision svc r m q opn entry reason res) l
        (EvExecute k opn (NodeName (Target q)) reason # refresh_events svc (fst (settle_execution q (w_exec w) (w_ctx w))))
        (settle_execution q (w_exec w) (w_ctx w))"
      unfolding handle_decision_def Inr using True d i
      by (auto intro!: clock settles_transition [OF l] settles_transition [OF _ _ _ _ l(5,6)] settles_execute [OF _ _ _ _ l(5,6)]
          simp: transition_guard_def marshalPayload_def no_data_def authorization_json_def)
    with True Inr d l(5) show ?thesis by (simp add: new_events_def granted_def)
  qed
qed

text \<open>A service as the daemon builds it; \<^verbatim>\<open>sha256.Sum256\<close> always gives 32 bytes.\<close>

definition service_ok :: "service \<Rightarrow> bool" where
  "service_ok svc \<longleftrightarrow> NewNodeRegistry = Inr (svc_registry svc) \<and> svc_user svc \<noteq> [] \<and>
     xUsername (svc_identity svc) \<noteq> [] \<and> xBoundary (svc_identity svc) \<noteq> [] \<and> (\<forall>b. hash svc b \<noteq> [])"

text \<open>An authenticated message with the node command \<open>q\<close>, which asks for \<open>opn\<close> and gives \<open>reason\<close>.\<close>

definition asks :: "user_context \<Rightarrow> envelope \<Rightarrow> node_command_request \<Rightarrow> operation_id \<Rightarrow> string \<Rightarrow> bool" where
  "asks r m q opn reason \<longleftrightarrow>
     Username r \<noteq> [] \<and> MessageID m \<noteq> [] \<and> DecodeNodeCommandRequestPayload (Payload m) = Inr q \<and>
     operationFor (State (Parameters q)) = Some opn \<and>
     reason = (case Reason (Parameters q) of None \<Rightarrow> [] | Some s \<Rightarrow> s) \<and> validNodeName (NodeName (Target q))"

lemma asks_request:
  assumes "asks r m q opn reason"
  shows "CommandID q \<noteq> []" "Resource q = ''node''" "Command q = ''update''" "NodeName (Target q) \<noteq> []"
    "\<exists>args. BuildScontrolArgs opn (NodeName (Target q)) reason = Inr args"
    "opn = OperationNodeDrain \<and> Reason (Parameters q) = Some reason \<or>
     opn = OperationNodeResume \<and> Reason (Parameters q) = None"
    "task_key r m = (UID r, CommandID q)"
proof -
  have q: "request_ok q" using assms decode_request_sound by (auto simp: asks_def)
  then show "CommandID q \<noteq> []" "Resource q = ''node''" "Command q = ''update''" "NodeName (Target q) \<noteq> []"
    by (auto simp: request_ok_def)
  show "task_key r m = (UID r, CommandID q)" using assms by (simp add: asks_def task_key_def)
  show "opn = OperationNodeDrain \<and> Reason (Parameters q) = Some reason \<or>
     opn = OperationNodeResume \<and> Reason (Parameters q) = None"
    using assms q by (auto simp: asks_def request_ok_def operationFor_def)
  then show "\<exists>args. BuildScontrolArgs opn (NodeName (Target q)) reason = Inr args"
    using assms q by (auto simp: asks_def request_ok_def BuildScontrolArgs_def validateDrainReason_def drain_reason_ok_def
        list_all_iff list_ex_iff operationFor_def operation_names)
qed

text \<open>The registry entry of a requested operation.\<close>

lemma service_entry:
  assumes "service_ok svc" "asks r m q opn reason"
  obtains entry where "registry_Lookup (Some (svc_registry svc)) opn = Some entry" "reg_OperationID entry = opn"
    "reg_Resource entry = ''node''" "reg_Command entry = ''update''" "validateAgainstRegistry entry q"
    "validateClaim (claim_of svc r m q opn entry) = None"
proof -
  have reg: "svc_registry svc = [(OperationNodeDrain, drain_entry), (OperationNodeResume, resume_entry)]"
    using assms(1) by (simp add: service_ok_def NewNodeRegistry_ok)
  note a = asks_request [OF assms(2)]
  have payload: "json_text (request_json q) \<noteq> []" by (simp add: request_json_def)
  let ?e = "if opn = OperationNodeDrain then drain_entry else resume_entry"
  show thesis
  proof (rule that [of ?e])
    show "registry_Lookup (Some (svc_registry svc)) opn = Some ?e"
      using a(6) by (auto simp: reg registry_Lookup_def operation_names)
    show "validateAgainstRegistry ?e q" "reg_OperationID ?e = opn"
      using a(6) by (auto simp: validateAgainstRegistry_def drain_entry_def resume_entry_def operation_names)
    show "validateClaim (claim_of svc r m q opn ?e) = None"
      using a assms payload
      by (auto simp: validateClaim_def claim_of_def service_ok_def asks_def drain_entry_def resume_entry_def operation_names)
  qed (auto simp: drain_entry_def resume_entry_def)
qed

lemma run_unlock_after:
  "run_prog (unlock_after j p) ops w svc k l L =
     (let (l', L', evs, rsp) = run_prog p ops w svc k l L in (l', (if rsp = None then L' else L' - {j}), evs, rsp))"
proof (induction p arbitrary: l L)
  case (CallExecute opn node reason f)
  have "run_prog (unlock_after j (f (w_exec w) (w_ctx w))) ops w svc k l L =
      (let (l', L', evs, rsp) = run_prog (f (w_exec w) (w_ctx w)) ops w svc k l L
       in (l', (if rsp = None then L' else L' - {j}), evs, rsp))"
    using CallExecute by blast
  then show ?case by (simp add: Let_def case_prod_beta)
qed (simp_all add: Let_def case_prod_beta)

text \<open>A command that the ledger has no live record of is settled as the specification says.\<close>

lemma run_new_command:
  assumes l: "healthy l" "live t l (UID r, CommandID q) = None"
    and m: "service_ok svc" "asks r m q opn reason"
    and w: "w_env w = quiet_env t" "w_node w (NodeName (Target q))" "lock_key (UID r) (CommandID q) \<notin> L"
    and res: "res = Authorize (Some (svc_registry svc)) (Some (Resolve (Some (w_users w)))) r opn"
  obtains l1 l' base where
    "run_prog (Handle n svc r m) sqlite_ops w svc (UID r, CommandID q) l L =
       (l', L, new_events svc w r q opn reason res, Some (answer (w_clock w) m (settle q res (w_exec w) (w_ctx w))))"
    "settled (UID r, CommandID q) base l1 (settle q res (w_exec w) (w_ctx w)) l'"
    "request_fingerprint base = hash svc (json_text (request_json q))" "expires_at base = t + Retention"
    "\<And>j. j \<noteq> (UID r, CommandID q) \<Longrightarrow> live t l1 j = live t l j"
proof -
  let ?k = "(UID r, CommandID q)" and ?j = "lock_key (UID r) (CommandID q)"
  obtain entry where e: "registry_Lookup (Some (svc_registry svc)) opn = Some entry" "reg_OperationID entry = opn"
    "reg_Resource entry = ''node''" "reg_Command entry = ''update''" "validateAgainstRegistry entry q"
    "validateClaim (claim_of svc r m q opn entry) = None"
    using service_entry [OF m] .
  let ?c = "claim_of svc r m q opn entry"
  have ck: "(cCallerUID ?c, cCommandID ?c) = ?k" "cRequestFingerprint ?c = hash svc (json_text (request_json q))"
    by (simp_all add: claim_of_def)
  obtain l1 where l1: "ReserveAuthorization (quiet_env t) ?c l = (l1, Inr (scanRecord (row_of_claim t ?c), True))"
      "healthy l1" "stored l1 ?k = Some (row_of_claim t ?c)" "\<forall>j. j \<noteq> ?k \<longrightarrow> live t l1 j = live t l j"
    using Reserve_quiet [OF l(1) e(6), of t] l(2) unfolding ck(1) by blast
  have i: "xUsername (svc_identity svc) \<noteq> []" "xBoundary (svc_identity svc) \<noteq> []" using m(1) by (auto simp: service_ok_def)
  have "settles w svc ?k m (row_of_claim t ?c) (handle_decision svc r m q opn entry reason res) l1
      (tl (new_events svc w r q opn reason res)) (settle q res (w_exec w) (w_ctx w))"
    by (rule settles_decision [OF l1(2,3) _ _ refl w(1) res e(1) i]) simp_all
  then obtain l' where l': "run_prog (handle_decision svc r m q opn entry reason res) sqlite_ops w svc ?k l1 (insert ?j L) =
        (l', insert ?j L, tl (new_events svc w r q opn reason res), Some (answer (w_clock w) m (settle q res (w_exec w) (w_ctx w))))"
      "settled ?k (row_of_claim t ?c) l1 (settle q res (w_exec w) (w_ctx w)) l'"
    unfolding settles_def by blast
  have ev: "new_events svc w r q opn reason res = EvAuthorize r opn res # tl (new_events svc w r q opn reason res)"
    by (simp add: new_events_def)
  obtain args where b: "BuildScontrolArgs opn (NodeName (Target q)) reason = Inr args" using asks_request(5) [OF m(2)] by blast
  have h: "run_prog (handle_new n svc r m q) sqlite_ops w svc ?k l (insert ?j L) =
      (l', insert ?j L, new_events svc w r q opn reason res, Some (answer (w_clock w) m (settle q res (w_exec w) (w_ctx w))))"
    using m(2) e b asks_request(2,3) [OF m(2)] w(1,2) l1(1) l'(1) res i ev unfolding handle_new_def asks_def
    by (simp add: Let_def)
  have "run_prog (Handle n svc r m) sqlite_ops w svc ?k l L =
      (l', L, new_events svc w r q opn reason res, Some (answer (w_clock w) m (settle q res (w_exec w) (w_ctx w))))"
    using m(2) l w h unfolding Handle_def asks_def
    by (simp add: Let_def healthy_def run_unlock_after Lookup_quiet)
  moreover have "request_fingerprint (row_of_claim t ?c) = hash svc (json_text (request_json q))"
      "expires_at (row_of_claim t ?c) = t + Retention"
    using ck(2) by (simp_all add: row_of_claim_def)
  ultimately show thesis using that l'(2) l1(4) by blast
qed

section \<open>Repeated commands\<close>

lemma text_utf8:
  "valid_utf8 (code_text c)" "valid_utf8 (category_text k)"
  by (cases c; simp) (cases k; simp)

lemma errorPayload_utf8: "valid_utf8 msg \<Longrightarrow> valid_utf8 cid \<Longrightarrow> error_utf8 (errorPayload c k msg retry cid)"
  by (simp add: error_utf8_def errorPayload_def plain_error_def text_utf8)

lemma settled_error_form:
  "valid_utf8 msg \<Longrightarrow> valid_utf8 (CommandID q) \<Longrightarrow> \<exists>p. settled_error c k msg retry q = error_json p \<and> error_utf8 p"
  unfolding settled_error_def using errorPayload_utf8 by blast

lemma settle_payload:
  assumes "settle q res ex ctx = (st, ty, js)" "valid_utf8 (CommandID q)"
  shows "\<not> interrupted st"
    "st = StatusSucceeded \<and> ty = MessageCommandResponse \<or>
     st \<in> {StatusDenied, StatusAuthorizationFailed, StatusFailed, StatusUnknown} \<and> ty = MessageError \<and>
       (\<exists>p. js = error_json p \<and> error_utf8 p)"
  using assms(1) by (cases res; cases ex; auto split: if_splits)
    (use assms in \<open>cases res; cases ex; auto intro!: settled_error_form split: if_splits\<close>)

text \<open>A message about a command with a live record, in any status: the ledger is left alone and nothing runs.\<close>

lemma run_recorded_command:
  assumes l: "healthy l" "live t l (UID r, CommandID q) = Some a"
    and m: "asks r m q opn reason"
    and w: "w_env w = quiet_env t" "lock_key (UID r) (CommandID q) \<notin> L"
  shows "run_prog (Handle n svc r m) sqlite_ops w svc (UID r, CommandID q) l L =
    (let (l', L', evs, rsp) =
       run_prog (if request_fingerprint a = hash svc (json_text (request_json q))
         then awaitRecord n m (scanRecord a) (hash svc (json_text (request_json q)))
         else errorEnvelope m CodeCommandIDConflict CatConflict
           ''Command ID was already used for a different request'' False (CommandID q))
         sqlite_ops w svc (UID r, CommandID q) l (insert (lock_key (UID r) (CommandID q)) L)
     in (l', (if rsp = None then L' else L' - {lock_key (UID r) (CommandID q)}), evs, rsp))"
  using m l w unfolding Handle_def asks_def
  by (simp add: Let_def healthy_def run_unlock_after Lookup_quiet equalFingerprint_def scanRecord_def)

lemma run_awaitRecord_done:
  "\<not> interrupted (rStatus rec) \<or> rStatus rec = StatusRunning \<Longrightarrow>
   run_prog (awaitRecord n m rec fp) ops w svc k l L = run_prog (recordResponse m rec) ops w svc k l L"
  by (subst awaitRecord.simps) (auto simp: interrupted_def)

lemma run_settled_record:
  assumes "settle q res ex ctx = (st, ty, js)" "valid_utf8 (CommandID q)" "status a = st"
    "(if st = StatusSucceeded then result_payload a else error_payload a) = Some (json_text js)"
  shows "run_prog (recordResponse m (scanRecord a)) ops w svc k l L = (l, L, [], Some (answer (w_clock w) m (st, ty, js)))"
  using settle_payload(2) [OF assms(1,2)] assms(3,4)
  by (auto simp: recordResponse_def scanRecord_def Let_def answer_def unmarshal_error_text)

lemma run_repeated_command:
  assumes l: "healthy l" "settled (UID r, CommandID q) base l1 (settle q res ex ctx) l"
    "request_fingerprint base = hash svc (json_text (request_json q))" "t < expires_at base"
    and m: "asks r m q opn reason"
    and w: "w_env w = quiet_env t" "lock_key (UID r) (CommandID q) \<notin> L"
  shows "run_prog (Handle n svc r m) sqlite_ops w svc (UID r, CommandID q) l L =
    (l, L, [], Some (answer (w_clock w) m (settle q res ex ctx)))"
proof -
  obtain st ty js where x: "settle q res ex ctx = (st, ty, js)" by (metis surj_pair)
  from l(2) obtain a where a: "stored l (UID r, CommandID q) = Some a" "same_claim base a" "status a = st"
      "(if st = StatusSucceeded then result_payload a else error_payload a) = Some (json_text js)"
    unfolding settled_def x by auto
  have v: "valid_utf8 (CommandID q)"
    using m decode_request_sound command_id_utf8 by (fastforce simp: asks_def request_ok_def)
  have "live t l (UID r, CommandID q) = Some a" using a(1,2) l(4) by (simp add: live_def same_claim_def)
  moreover have "request_fingerprint a = hash svc (json_text (request_json q))" using a(2) l(3) by (simp add: same_claim_def)
  moreover have "\<not> interrupted (rStatus (scanRecord a))"
    using settle_payload(1) [OF x v] a(3) by (simp add: scanRecord_def)
  ultimately show ?thesis
    using run_recorded_command [OF l(1) _ m w, of a n svc] w(2)
    by (simp add: run_awaitRecord_done x run_settled_record [OF x v a(3,4)])
qed

end
