(* ===== verification/Command_Theorems.thy ===== *)
theory Command_Theorems
  imports Command_Outcomes
begin

text \<open>
  The properties of the command service over the SQLite ledger, as they follow from the contract of
  the ledger (\<open>Command_System\<close>, \<open>Command_Props\<close>) and from the answers of a single request
  (\<open>Command_Outcomes\<close>), each with an application to a concrete request.
\<close>

section \<open>Sample inputs\<close>

definition sample_service :: service where
  "sample_service = \<lparr>svc_registry = [(OperationNodeDrain, drain_entry), (OperationNodeResume, resume_entry)],
     svc_identity = \<lparr>xUID = 64030, xUsername = ''slurm'', xBoundary = ''dbus:'' @ HelperInterface\<rparr>, has_refresh = True,
     svc_uid = 201, svc_user = ''cockpit-slurm'', hash = (\<lambda>b. CHR ''h'' # b)\<rparr>"

definition sample_user :: user_context where
  "sample_user = \<lparr>UID = 1008, GID = 100, Username = ''alice'', AdminLevel = [], Accounts = [], CoordinatorAccounts = [],
     Capabilities = []\<rparr>"

definition sample_message :: "string \<Rightarrow> envelope" where
  "sample_message mid = NewEnvelope ''2026-01-01T00:00:00Z'' mid MessageCommand (Some (json_text (request_json sample_request)))"

definition sample_world :: "int \<Rightarrow> string \<Rightarrow> exec_error + unit \<Rightarrow> db_env world" where
  "sample_world now level ex = \<lparr>w_clock = ''2026-01-01T00:00:00Z'', w_env = quiet_env now,
     w_users = (\<lambda>u. Inr (Some \<lparr>su_Username = u, su_AdminLevel = level, su_Accounts = [], su_CoordinatorAccounts = []\<rparr>)),
     w_exec = ex, w_ctx = False, w_node = (\<lambda>_. True)\<rparr>"

lemma sample_world_simps [simp]:
  "w_clock (sample_world now level ex) = ''2026-01-01T00:00:00Z''" "w_env (sample_world now level ex) = quiet_env now"
  "w_exec (sample_world now level ex) = ex" "w_ctx (sample_world now level ex) = False"
  "w_node (sample_world now level ex) x = True"
  by (simp_all add: sample_world_def)

lemma sample_service_ok: "service_ok sample_service"
  by (simp add: service_ok_def sample_service_def NewNodeRegistry_ok)

lemma validNodeName_sample: "validNodeName ''n1''"
  by (simp add: validNodeName_def EqualFold_word_def name_rune_def alnum_def is_lower_def is_digit_def ascii_upper_def)

lemma sample_asks:
  "mid \<noteq> [] \<Longrightarrow> asks sample_user (sample_message mid) sample_request OperationNodeDrain ''bad disk''"
  using decode_request_complete [OF sample_request_ok] validNodeName_sample
  by (simp add: asks_def sample_user_def sample_message_def NewEnvelope_def operationFor_def)
    (simp add: sample_request_def)

lemma sample_key: "UID sample_user = 1008" "CommandID sample_request = ''cmd-1''" "NodeName (Target sample_request) = ''n1''"
  by (simp_all add: sample_user_def sample_request_def)

lemma sample_healthy: "healthy (sample_ledger [])" "service_ledger_ok (sample_ledger [])" "live t (sample_ledger []) k = None"
  by (simp_all add: healthy_def service_ledger_ok_def ledger_ok_def rows_ok_def SchemaVersion_def live_def stored_def)

definition sample_decision :: "access_error + decision" where
  "sample_decision = Authorize (Some (svc_registry sample_service)) (Some (Resolve (Some (w_users (sample_world 0 ''administrator'' (Inr ()))))))
     sample_user OperationNodeDrain"

lemma normalize_sample: "normalizeAdminLevel ''administrator'' = Inr ''admin''" "normalizeAdminLevel ''none'' = Inr ''none''"
proof -
  have t: "TrimSpace ''administrator'' = ''administrator''" "TrimSpace ''none'' = ''none''"
    using TrimSpace_id [of "CHR ''a''" "CHR ''r''" "''dministrato''"] TrimSpace_id [of "CHR ''n''" "CHR ''e''" "''on''"]
    by (simp_all add: IsSpace_def)
  have "ToLower ''administrator'' = ''administrator''" "ToLower ''none'' = ''none''"
    by (rule ToLower_id, simp add: is_upper_def)+
  with t show "normalizeAdminLevel ''administrator'' = Inr ''admin''" "normalizeAdminLevel ''none'' = Inr ''none''"
    by (simp_all add: normalizeAdminLevel_def)
qed

lemma sample_granted: "granted sample_user sample_decision"
  using normalize_sample
  by (simp add: granted_def sample_decision_def Authorize_def registry_Lookup_def sample_service_def Resolve_def sample_world_def
      sample_user_def drain_entry_def)

text \<open>The sample request, handled alone on an empty ledger, executes once and succeeds.\<close>

lemma sample_run:
  obtains l' where
    "run_prog (Handle 0 sample_service sample_user (sample_message ''MSG1'')) sqlite_ops (sample_world now ''administrator'' (Inr ()))
       sample_service (1008, ''cmd-1'') (sample_ledger []) {} =
     (l', {}, [EvAuthorize sample_user OperationNodeDrain sample_decision,
        EvExecute (1008, ''cmd-1'') OperationNodeDrain ''n1'' ''bad disk'', EvRefresh],
      Some (answer ''2026-01-01T00:00:00Z'' (sample_message ''MSG1'')
        (StatusSucceeded, MessageCommandResponse, success_json sample_request)))" "healthy l'"
proof -
  have res: "sample_decision = Authorize (Some (svc_registry sample_service))
      (Some (Resolve (Some (w_users (sample_world now ''administrator'' (Inr ())))))) sample_user OperationNodeDrain"
    by (simp add: sample_decision_def sample_world_def)
  obtain d where d: "sample_decision = Inr d" "Allowed d"
    using sample_granted by (auto simp: granted_def split: sum.splits)
  have ev: "new_events sample_service (sample_world now ''administrator'' (Inr ())) sample_user sample_request OperationNodeDrain
      ''bad disk'' sample_decision = [EvAuthorize sample_user OperationNodeDrain sample_decision,
        EvExecute (1008, ''cmd-1'') OperationNodeDrain ''n1'' ''bad disk'', EvRefresh]"
    using sample_granted by (simp add: new_events_def refresh_events_def sample_key sample_service_def)
  have x: "settle sample_request sample_decision (Inr ()) False =
      (StatusSucceeded, MessageCommandResponse, success_json sample_request)"
    unfolding d(1) by (simp add: d(2))
  show thesis
  proof (rule run_new_command [OF sample_healthy(1,3) sample_service_ok sample_asks [of "''MSG1''"] _ _ _ res, of now "{}" 0])
    fix l1 l' base
    assume "run_prog (Handle 0 sample_service sample_user (sample_message ''MSG1'')) sqlite_ops
        (sample_world now ''administrator'' (Inr ())) sample_service (UID sample_user, CommandID sample_request) (sample_ledger []) {} =
      (l', {}, new_events sample_service (sample_world now ''administrator'' (Inr ())) sample_user sample_request
         OperationNodeDrain ''bad disk'' sample_decision,
       Some (answer (w_clock (sample_world now ''administrator'' (Inr ()))) (sample_message ''MSG1'')
         (settle sample_request sample_decision (w_exec (sample_world now ''administrator'' (Inr ())))
           (w_ctx (sample_world now ''administrator'' (Inr ()))))))"
      "settled (UID sample_user, CommandID sample_request) base l1 (settle sample_request sample_decision
         (w_exec (sample_world now ''administrator'' (Inr ()))) (w_ctx (sample_world now ''administrator'' (Inr ())))) l'"
    then show thesis using that [of l'] by (simp add: ev x sample_key settled_def)
  qed (simp_all add: sample_key)
qed

section \<open>Safety of the system\<close>

text \<open>An execution in the log was made by a goroutine that was about to make it.\<close>

lemma call_log:
  "call ops E svc k l L p l' L' p' evs \<Longrightarrow>
   evs = [] \<or> (\<exists>ev. evs = [ev] \<and>
     (\<forall>j opn node reason. ev = EvExecute j opn node reason \<longrightarrow> j = k \<and> (\<exists>f. p = CallExecute opn node reason f)))"
  by (induction rule: call.induct) auto

lemma step_log:
  assumes "sys_step ops E W svc s s'"
  shows "sys_log s' = sys_log s \<or> (\<exists>ev. sys_log s' = sys_log s @ [ev] \<and>
    (\<forall>k opn node reason. ev = EvExecute k opn node reason \<longrightarrow>
       (\<exists>i t f. sys_tasks s i = Some t \<and> t_prog t = CallExecute opn node reason f \<and>
          task_key (t_requester t) (t_message t) = k)))"
  using assms
proof (cases rule: sys_step.cases)
  case (proceed i t l' L' p' evs)
  then show ?thesis using call_log [OF proceed(3)] by (fastforce simp del: split_paired_All)
qed auto

lemma execution_origin:
  assumes "sys_run ops E W svc s1 s" "sys_log s1 = []" "sys_log s = xs @ EvExecute k opn node reason # ys"
  shows "\<exists>s0 i t f. sys_run ops E W svc s1 s0 \<and> sys_run ops E W svc s0 s \<and> sys_log s0 = xs \<and>
    sys_tasks s0 i = Some t \<and> t_prog t = CallExecute opn node reason f \<and> task_key (t_requester t) (t_message t) = k"
  using assms
proof (induction arbitrary: ys rule: sys_run.induct)
  case (more s s' s'')
  consider "sys_log s'' = sys_log s'" | ev where "sys_log s'' = sys_log s' @ [ev]"
      "\<forall>k opn node reason. ev = EvExecute k opn node reason \<longrightarrow>
        (\<exists>i t f. sys_tasks s' i = Some t \<and> t_prog t = CallExecute opn node reason f \<and> task_key (t_requester t) (t_message t) = k)"
    using step_log [OF more(2)] by blast
  then show ?case
  proof cases
    case 1
    then show ?thesis using more sys_run.more [OF _ more(2)] by metis
  next
    case 2
    show ?thesis
    proof (cases ys rule: rev_cases)
      case Nil
      then have "sys_log s' = xs" "ev = EvExecute k opn node reason" using 2(1) more(5) by auto
      then show ?thesis using 2(2) more(1,2) sys_run.intros by metis
    next
      case (snoc zs z)
      then have "sys_log s' = xs @ EvExecute k opn node reason # zs" using 2(1) more(5) by auto
      from more.IH [OF more(4) this] show ?thesis using sys_run.more [OF _ more(2)] by metis
    qed
  qed
qed simp

text \<open>
  C2: However the requests of any number of clients, the failures of the database, and stops and
  restarts of the daemon interleave, within one retention period no command (caller and command
  identifier) is executed more than once.\<close>

theorem command_at_most_once:
  assumes "service_ledger_ok l" "sys_run sqlite_ops (call_env T) (start_ok T) svc (initial l) s"
  shows "executions k (sys_log s) \<le> 1"
  using assms by (rule sqlite.at_most_once)

lemma sample_system_run:
  obtains s where "sys_run sqlite_ops (call_env 0) (start_ok 0) sample_service (initial (sample_ledger [])) s"
    "sys_log s = [EvAuthorize sample_user OperationNodeDrain sample_decision] @
        EvExecute (1008, ''cmd-1'') OperationNodeDrain ''n1'' ''bad disk'' #
        [EvRefresh, EvRespond (sample_message ''MSG1'') (answer ''2026-01-01T00:00:00Z'' (sample_message ''MSG1'')
           (StatusSucceeded, MessageCommandResponse, success_json sample_request))]"
proof -
  have E: "call_env 0 (w_env (sample_world 5 ''administrator'' (Inr ())))"
    by (simp add: call_env_def in_window_def Retention_def)
  have k: "task_key sample_user (sample_message ''MSG1'') = (1008, ''cmd-1'')"
    using asks_request(7) [OF sample_asks [of "''MSG1''"]] by (simp add: sample_key)
  show thesis
  proof (rule sample_run [of 5])
    fix l'
    assume "run_prog (Handle 0 sample_service sample_user (sample_message ''MSG1'')) sqlite_ops
        (sample_world 5 ''administrator'' (Inr ())) sample_service (1008, ''cmd-1'') (sample_ledger []) {} =
      (l', {}, [EvAuthorize sample_user OperationNodeDrain sample_decision,
        EvExecute (1008, ''cmd-1'') OperationNodeDrain ''n1'' ''bad disk'', EvRefresh],
       Some (answer ''2026-01-01T00:00:00Z'' (sample_message ''MSG1'')
         (StatusSucceeded, MessageCommandResponse, success_json sample_request)))"
    with request_run [where s = "initial (sample_ledger [])" and i = 0 and E = "call_env 0" and W = "start_ok 0" and ops = sqlite_ops
        and n = 0 and svc = sample_service and r = sample_user and m = "sample_message ''MSG1''", OF E] k that
    show thesis by (simp add: initial_def)
  qed
qed

theorem command_at_most_once_witness:
  "\<exists>s. sys_run sqlite_ops (call_env 0) (start_ok 0) sample_service (initial (sample_ledger [])) s \<and>
     executions (1008, ''cmd-1'') (sys_log s) = 1"
proof -
  obtain s where s: "sys_run sqlite_ops (call_env 0) (start_ok 0) sample_service (initial (sample_ledger [])) s"
      "0 < executions (1008, ''cmd-1'') (sys_log s)"
    by (rule sample_system_run) (auto simp: executions_def)
  with command_at_most_once [OF sample_healthy(2) s(1), of "(1008, ''cmd-1'')"] show ?thesis
    by (intro exI [of _ s]) simp
qed

text \<open>
  C3: Every execution in the log of a run was asked for by a message that passed every check of the
  service, and when it was made the log already held an authorization of exactly this user for this
  operation that rested on Slurm calling the user an administrator, the durable record of the
  command named the administrator level and an execution identity and said running (or unknown, after
  a recovery meanwhile), and the command had never been executed before.\<close>

theorem execution_authorized:
  assumes "service_ledger_ok l" "NewGlobalRegistry es H V = Inr (svc_registry svc)"
    "sys_run sqlite_ops (call_env T) (start_ok T) svc (initial l) s"
    "sys_log s = before @ EvExecute k opn node reason # after"
  shows "\<exists>r m dn users u s0 a.
    task_key r m = k \<and> requested m opn node reason \<and>
    EvAuthorize r opn (Inr dn) \<in> set before \<and> granted r (Inr dn) \<and>
    users (Username r) = Inr (Some u) \<and> su_Username u = Username r \<and> normalizeAdminLevel (su_AdminLevel u) = Inr ''admin'' \<and>
    Inr dn = Authorize (Some (svc_registry svc)) (Some (Resolve (Some users))) r opn \<and>
    sys_run sqlite_ops (call_env T) (start_ok T) svc (initial l) s0 \<and>
    sys_run sqlite_ops (call_env T) (start_ok T) svc s0 s \<and> sys_log s0 = before \<and>
    stored (sys_ledger s0) k = Some a \<and> status a \<in> {StatusRunning, StatusUnknown} \<and>
    admin_level a = Some ''admin'' \<and> execution_uid a \<noteq> None \<and> executions k before = 0"
proof -
  have "sys_log (initial l) = []" by (simp add: initial_def)
  from execution_origin [OF assms(3) this assms(4)]
  obtain s0 i t f where o: "sys_run sqlite_ops (call_env T) (start_ok T) svc (initial l) s0"
      "sys_run sqlite_ops (call_env T) (start_ok T) svc s0 s" "sys_log s0 = before" "sys_tasks s0 i = Some t"
      "t_prog t = CallExecute opn node reason f" "task_key (t_requester t) (t_message t) = k"
    by blast
  from sqlite.execute_recorded [OF assms(1) o(1,4,5)] obtain a dn where a:
      "stored (sys_ledger s0) k = Some a" "status a \<in> {StatusRunning, StatusUnknown}" "admin_level a = Some ''admin''"
      "execution_uid a \<noteq> None" "executions k before = 0" "requested (t_message t) opn node reason"
      "EvAuthorize (t_requester t) opn (Inr dn) \<in> set before" "granted (t_requester t) (Inr dn)"
    unfolding o(3,6) by blast
  obtain users where users: "Inr dn = Authorize (Some (svc_registry svc)) (Some (Resolve (Some users))) (t_requester t) opn"
    using run_authorize_log [OF o(1), of "t_requester t" opn "Inr dn"] a(7) o(3) by (auto simp: initial_def)
  have "Allowed dn" using a(8) by (simp add: granted_def)
  from Authorize_allowed [OF assms(2) users [symmetric] this] obtain u where
    "users (Username (t_requester t)) = Inr (Some u)" "su_Username u = Username (t_requester t)"
    "normalizeAdminLevel (su_AdminLevel u) = Inr ''admin''" by auto
  with a users o show ?thesis by blast
qed

theorem execution_authorized_witness:
  "\<exists>s r m dn. sys_run sqlite_ops (call_env 0) (start_ok 0) sample_service (initial (sample_ledger [])) s \<and>
     EvExecute (1008, ''cmd-1'') OperationNodeDrain ''n1'' ''bad disk'' \<in> set (sys_log s) \<and>
     task_key r m = (1008, ''cmd-1'') \<and> requested m OperationNodeDrain ''n1'' ''bad disk'' \<and>
     EvAuthorize r OperationNodeDrain (Inr dn) \<in> set (sys_log s)"
proof -
  obtain s before after where s: "sys_run sqlite_ops (call_env 0) (start_ok 0) sample_service (initial (sample_ledger [])) s"
      "sys_log s = before @ EvExecute (1008, ''cmd-1'') OperationNodeDrain ''n1'' ''bad disk'' # after"
    by (rule sample_system_run) blast
  have "NewNodeRegistry = Inr (svc_registry sample_service)" using sample_service_ok by (simp add: service_ok_def)
  note reg = this [unfolded NewNodeRegistry_def]
  have e: "EvExecute (1008, ''cmd-1'') OperationNodeDrain ''n1'' ''bad disk'' \<in> set (sys_log s)" "set before \<subseteq> set (sys_log s)"
    unfolding s(2) by auto
  from execution_authorized [OF sample_healthy(2) reg s] e s(1) show ?thesis by blast
qed

text \<open>
  C10: While the database works, a new command is settled as the specification says: refused,
  failed, unknown or succeeded, according to the authorizer and the execution; the record, its
  payload and the answer agree, other live records and all locks stay as they were. From then on,
  until the record expires, the same command of the same caller gets the same type and payload
  back under its own message identifier, the ledger does not change, and nothing is authorized or
  executed.\<close>

theorem command_settled_and_replayed:
  assumes "healthy l" "live t l (UID r, CommandID q) = None" "service_ok svc" "asks r m q opn reason"
    "w_env w = quiet_env t" "w_node w (NodeName (Target q))" "lock_key (UID r) (CommandID q) \<notin> L"
    "res = Authorize (Some (svc_registry svc)) (Some (Resolve (Some (w_users w)))) r opn"
    "settle q res (w_exec w) (w_ctx w) = (st, ty, payload)"
  shows "\<exists>l' a. run_prog (Handle n svc r m) sqlite_ops w svc (UID r, CommandID q) l L =
      (l', L, new_events svc w r q opn reason res,
       Some (NewEnvelope (w_clock w) (MessageID m) ty (Some (json_text payload)))) \<and>
    healthy l' \<and> stored l' (UID r, CommandID q) = Some a \<and> status a = st \<and> expires_at a = t + Retention \<and>
    (\<forall>k. k \<noteq> (UID r, CommandID q) \<longrightarrow> live t l' k = live t l k) \<and>
    (\<forall>r2 m2 w2 n2 t2 L2. asks r2 m2 q opn reason \<and> UID r2 = UID r \<and> w_env w2 = quiet_env t2 \<and> t2 < t + Retention \<and>
       lock_key (UID r) (CommandID q) \<notin> L2 \<longrightarrow>
       run_prog (Handle n2 svc r2 m2) sqlite_ops w2 svc (UID r2, CommandID q) l' L2 =
         (l', L2, [], Some (NewEnvelope (w_clock w2) (MessageID m2) ty (Some (json_text payload)))))"
proof -
  obtain l1 l' base where l': "run_prog (Handle n svc r m) sqlite_ops w svc (UID r, CommandID q) l L =
       (l', L, new_events svc w r q opn reason res, Some (answer (w_clock w) m (st, ty, payload)))"
    "settled (UID r, CommandID q) base l1 (st, ty, payload) l'"
    "request_fingerprint base = hash svc (json_text (request_json q))" "expires_at base = t + Retention"
    "\<And>j. j \<noteq> (UID r, CommandID q) \<Longrightarrow> live t l1 j = live t l j"
    by (rule run_new_command [OF assms(1-8), of n, unfolded assms(9)]) blast
  obtain a where a: "stored l' (UID r, CommandID q) = Some a" "status a = st" "expires_at a = t + Retention" "healthy l'"
      "\<And>j. j \<noteq> (UID r, CommandID q) \<Longrightarrow> stored l' j = stored l1 j"
    using l'(2,4) by (auto simp: settled_def same_claim_def)
  have others: "live t l' k = live t l k" if "k \<noteq> (UID r, CommandID q)" for k
    using a(5) [OF that] l'(5) [OF that] by (simp add: live_def)
  have "run_prog (Handle n2 svc r2 m2) sqlite_ops w2 svc (UID r2, CommandID q) l' L2 =
         (l', L2, [], Some (answer (w_clock w2) m2 (st, ty, payload)))"
    if "asks r2 m2 q opn reason" "UID r2 = UID r" "w_env w2 = quiet_env t2" "t2 < t + Retention"
      "lock_key (UID r) (CommandID q) \<notin> L2" for r2 m2 w2 n2 t2 L2
    using run_repeated_command [OF a(4) _ l'(3) _ that(1,3), of l1 res "w_exec w" "w_ctx w" L2 n2] l'(2,4) that(2,4,5) assms(9)
    by simp
  then show ?thesis
    using l'(1) a(1-4) others unfolding answer_def prod.case by blast
qed

theorem command_settled_and_replayed_witness:
  "\<exists>l'. snd (run_prog (Handle 0 sample_service sample_user (sample_message ''MSG1'')) sqlite_ops
       (sample_world 5 ''administrator'' (Inr ())) sample_service (1008, ''cmd-1'') (sample_ledger []) {}) =
     ({}, [EvAuthorize sample_user OperationNodeDrain sample_decision,
        EvExecute (1008, ''cmd-1'') OperationNodeDrain ''n1'' ''bad disk'', EvRefresh],
      Some (NewEnvelope ''2026-01-01T00:00:00Z'' ''MSG1'' MessageCommandResponse (Some (json_text (success_json sample_request))))) \<and>
     run_prog (Handle 0 sample_service sample_user (sample_message ''MSG2'')) sqlite_ops
       (sample_world 900 ''none'' (Inr ())) sample_service (1008, ''cmd-1'') l' {} =
     (l', {}, [], Some (NewEnvelope ''2026-01-01T00:00:00Z'' ''MSG2'' MessageCommandResponse
        (Some (json_text (success_json sample_request)))))"
proof -
  let ?w = "sample_world 5 ''administrator'' (Inr ())"
  obtain d where d: "sample_decision = Inr d" "Allowed d" using sample_granted by (auto simp: granted_def split: sum.splits)
  have res: "sample_decision = Authorize (Some (svc_registry sample_service)) (Some (Resolve (Some (w_users ?w)))) sample_user
      OperationNodeDrain"
    by (simp add: sample_decision_def sample_world_def)
  have x: "settle sample_request sample_decision (w_exec ?w) (w_ctx ?w) =
      (StatusSucceeded, MessageCommandResponse, success_json sample_request)"
    unfolding d(1) by (simp add: d(2))
  have ev: "new_events sample_service ?w sample_user sample_request OperationNodeDrain ''bad disk'' sample_decision =
      [EvAuthorize sample_user OperationNodeDrain sample_decision,
        EvExecute (1008, ''cmd-1'') OperationNodeDrain ''n1'' ''bad disk'', EvRefresh]"
    using sample_granted by (simp add: new_events_def refresh_events_def sample_key sample_service_def)
  have mid: "MessageID (sample_message i) = i" for i by (simp add: sample_message_def NewEnvelope_def)
  from command_settled_and_replayed [OF sample_healthy(1,3) sample_service_ok sample_asks [of "''MSG1''"] _ _ _ res x, of 5 "{}" 0]
  obtain l' where "run_prog (Handle 0 sample_service sample_user (sample_message ''MSG1'')) sqlite_ops ?w sample_service
        (1008, ''cmd-1'') (sample_ledger []) {} = (l', {}, new_events sample_service ?w sample_user sample_request
          OperationNodeDrain ''bad disk'' sample_decision, Some (NewEnvelope ''2026-01-01T00:00:00Z'' ''MSG1''
            MessageCommandResponse (Some (json_text (success_json sample_request)))))"
      "\<forall>r2 m2 w2 n2 t2 L2. asks r2 m2 sample_request OperationNodeDrain ''bad disk'' \<and> UID r2 = 1008 \<and> w_env w2 = quiet_env t2 \<and>
         t2 < 5 + Retention \<and> lock_key 1008 ''cmd-1'' \<notin> L2 \<longrightarrow>
         run_prog (Handle n2 sample_service r2 m2) sqlite_ops w2 sample_service (UID r2, ''cmd-1'') l' L2 =
         (l', L2, [], Some (NewEnvelope (w_clock w2) (MessageID m2) MessageCommandResponse
            (Some (json_text (success_json sample_request)))))"
    by (auto simp: sample_key mid)
  note first = this(1) and again = this(2) [rule_format, of sample_user "sample_message ''MSG2''" "sample_world 900 ''none'' (Inr ())" 900 "{}" 0]
  from again have "run_prog (Handle 0 sample_service sample_user (sample_message ''MSG2'')) sqlite_ops
       (sample_world 900 ''none'' (Inr ())) sample_service (1008, ''cmd-1'') l' {} =
     (l', {}, [], Some (NewEnvelope ''2026-01-01T00:00:00Z'' ''MSG2'' MessageCommandResponse
        (Some (json_text (success_json sample_request)))))"
    using sample_asks [of "''MSG2''"] by (simp add: sample_key mid Retention_def)
  with first show ?thesis unfolding ev by auto
qed

text \<open>
  C37: A message that reuses the identifier of a live command of the same caller for a different
  request is refused with command-id-conflict, whatever became of that command; the ledger does not
  change and nothing is authorized or executed. The requests are told apart by their fingerprints,
  so the hash must not collide on the two texts.\<close>

theorem command_id_conflict:
  assumes "healthy l" "live t l (UID r, CommandID q) = Some a" "asks r m q opn reason"
    "w_env w = quiet_env t" "lock_key (UID r) (CommandID q) \<notin> L"
    and "request_fingerprint a = hash svc (json_text (request_json q0))" "q0 \<noteq> q"
    "request_ok q0" "request_utf8 q0" "request_utf8 q"
    "hash svc (json_text (request_json q0)) = hash svc (json_text (request_json q)) \<Longrightarrow>
       json_text (request_json q0) = json_text (request_json q)"
  shows "run_prog (Handle n svc r m) sqlite_ops w svc (UID r, CommandID q) l L =
    (l, L, [], Some (NewErrorEnvelope (w_clock w) (MessageID m)
      (errorPayload CodeCommandIDConflict CatConflict ''Command ID was already used for a different request'' False
        (CommandID q))))"
proof -
  have "request_ok q" using assms(3) decode_request_sound by (auto simp: asks_def)
  then have "json_text (request_json q0) \<noteq> json_text (request_json q)"
    using decode_request_complete [OF assms(8,9)] decode_request_complete [of q] assms(7,10) by auto
  then have "request_fingerprint a \<noteq> hash svc (json_text (request_json q))" using assms(6,11) by auto
  then show ?thesis
    using run_recorded_command [OF assms(1-5), of n svc] assms(5)
    by (simp add: errorEnvelope_def NewErrorEnvelope_def)
qed

definition other_request :: node_command_request where
  "other_request = sample_request\<lparr>Target := \<lparr>NodeName = ''n2''\<rparr>\<rparr>"

definition recorded_row :: "node_command_request \<Rightarrow> status \<Rightarrow> row" where
  "recorded_row q st = (row_of_claim 5 (claim_of sample_service sample_user (sample_message ''MSG0'') q OperationNodeDrain drain_entry))
     \<lparr>status := st, admin_level := Some ''admin'', authorization_metadata := Some ''{}'', execution_uid := Some 64030,
      execution_username := Some ''slurm'', execution_boundary := Some ''dbus''\<rparr>"

lemma recorded_row_ok: "st \<in> {StatusRunning, StatusUnknown} \<Longrightarrow> q \<in> {sample_request, other_request} \<Longrightarrow>
  healthy (sample_ledger [recorded_row q st]) \<and> stored (sample_ledger [recorded_row q st]) (1008, ''cmd-1'') = Some (recorded_row q st)"
  by (auto simp: healthy_def service_ledger_ok_def ledger_ok_def rows_ok_def SchemaVersion_def stored_def recorded_row_def
      row_of_claim_def row_key_def row_ok_def row_check_def claim_of_def sample_service_def sample_user_def sample_request_def
      other_request_def drain_entry_def operation_names Retention_def request_json_def)

theorem command_id_conflict_witness:
  "snd (run_prog (Handle 0 sample_service sample_user (sample_message ''MSG1'')) sqlite_ops
     (sample_world 9 ''administrator'' (Inr ())) sample_service (1008, ''cmd-1'')
     (sample_ledger [recorded_row other_request StatusUnknown]) {}) =
   ({}, [], Some (NewErrorEnvelope ''2026-01-01T00:00:00Z'' ''MSG1''
      (errorPayload CodeCommandIDConflict CatConflict ''Command ID was already used for a different request'' False ''cmd-1'')))"
proof -
  have o: "request_ok other_request" "request_utf8 other_request" "other_request \<noteq> sample_request"
    using sample_request_ok by (simp_all add: other_request_def request_ok_def request_utf8_def sample_request_def)
  have l: "live 9 (sample_ledger [recorded_row other_request StatusUnknown]) (UID sample_user, CommandID sample_request) =
      Some (recorded_row other_request StatusUnknown)"
    using recorded_row_ok [of StatusUnknown other_request]
    by (simp add: live_def sample_key) (simp add: recorded_row_def row_of_claim_def Retention_def)
  have f: "request_fingerprint (recorded_row other_request StatusUnknown) = hash sample_service (json_text (request_json other_request))"
    by (simp add: recorded_row_def row_of_claim_def claim_of_def)
  show ?thesis
    using command_id_conflict [OF _ l sample_asks [of "''MSG1''"] _ _ f o(3,1,2) sample_request_ok(2), of "sample_world 9 ''administrator'' (Inr ())" "{}" 0]
      recorded_row_ok [of StatusUnknown other_request]
    by (simp add: sample_key) (simp add: sample_service_def sample_message_def NewEnvelope_def NewErrorEnvelope_def)
qed

section \<open>After a crash during an execution\<close>

lemma restart_quiet:
  assumes "healthy l" "stored l k = Some a" "status a = StatusRunning" "now < expires_at a"
  obtains l' where "sqlite_start (quiet_open now, f, p) l = (l', True)" "healthy l'"
    "stored l' k = Some (a\<lparr>status := StatusUnknown, updated_at := now\<rparr>)"
proof -
  let ?l = "\<lparr>ldb = ldb l, lpath = f (if p = [] then DefaultPath else p), has_db = True, blocked = False\<rparr>"
  have ok: "ledger_ok ?l" "user_version (ldb l) = SchemaVersion"
    using assms(1) by (simp_all add: healthy_def service_ledger_ok_def ledger_ok_def)
  obtain l1 where l1: "recoverInterrupted (quiet_env now) ?l = (l1, None)" by (simp add: recoverInterrupted_def)
  have rows1: "ledger_rows l1 = fst (sql_update (\<lambda>r. interrupted (status r))
      (\<lambda>r. r\<lparr>status := recover_status (status r), updated_at := now\<rparr>) (ledger_rows l))"
    using l1 by (auto simp: recoverInterrupted_def)
  have ok1: "ledger_ok l1" using recoverInterrupted_ok [OF l1 ok(1)] .
  have f1: "find_row k l1 = Some (a\<lparr>status := StatusUnknown, updated_at := now\<rparr>)"
    using assms(2,3) find_update [OF ledger_ok_unique [OF ok(1)], of "\<lambda>r. interrupted (status r)"
        "\<lambda>r. r\<lparr>status := recover_status (status r), updated_at := now\<rparr>" k]
    by (simp add: rows1 stored_def)
  obtain l2 where l2: "purgeExpired (quiet_env now) l1 = (l2, None)" by (simp add: purgeExpired_def)
  have "migrate False (\<lambda>_. False) (ldb l) = (ldb l, None)"
    using ok(2) by (simp add: migrate_def migrate_loop.simps)
  then have "sqlite_start (quiet_open now, f, p) l = (l2, True)"
    using l1 l2 by (simp add: sqlite_start_def Open_def quiet_open_def configure_def integrityCheck_def Let_def)
  moreover have "healthy l2"
    using ok(2) ok1 l1 l2 purgeExpired_ok [OF l2 ok1] user_version_ops(5) [OF l2] user_version_ops(4) [OF l1]
    by (auto simp: healthy_def service_ledger_ok_def recoverInterrupted_def purgeExpired_def)
  moreover have "stored l2 k = Some (a\<lparr>status := StatusUnknown, updated_at := now\<rparr>)"
    using f1 l2 assms(4) find_delete [OF ledger_ok_unique [OF ok1], of k now]
    by (auto simp: stored_def purgeExpired_def)
  ultimately show thesis using that by blast
qed

text \<open>
  If the daemon stops while a command is being executed, the restart marks its record unknown but
  stores no error payload, so a repetition of the command by its caller is answered with
  internal-error and retryable true, not with command-outcome-unknown and retryable false as after
  an execution whose outcome the daemon could not learn.\<close>

theorem interrupted_execution_answer:
  assumes "healthy l" "stored l (UID r, CommandID q) = Some a" "status a = StatusRunning" "error_payload a = None"
    "request_fingerprint a = hash svc (json_text (request_json q))" "now < expires_at a" "asks r m q opn reason"
    "w_env w = quiet_env now" "lock_key (UID r) (CommandID q) \<notin> L"
  shows "\<exists>l' b. sqlite_start (quiet_open now, f, p) l = (l', True) \<and>
    stored l' (UID r, CommandID q) = Some b \<and> status b = StatusUnknown \<and>
    run_prog (Handle n svc r m) sqlite_ops w svc (UID r, CommandID q) l' L =
      (l', L, [], Some (NewErrorEnvelope (w_clock w) (MessageID m)
        (errorPayload CodeInternal CatInternal ''Command result is unavailable'' True (CommandID q))))"
proof -
  let ?b = "a\<lparr>status := StatusUnknown, updated_at := now\<rparr>"
  obtain l' where l': "sqlite_start (quiet_open now, f, p) l = (l', True)" "healthy l'"
      "stored l' (UID r, CommandID q) = Some ?b"
    using restart_quiet [OF assms(1,2,3,6), of f p] by blast
  have live: "live now l' (UID r, CommandID q) = Some ?b" using l'(3) assms(6) by (simp add: live_def)
  have "rCommandID (scanRecord ?b) = CommandID q"
    using assms(1,2) tab_find_SomeD by (fastforce simp: stored_def scanRecord_def row_key_def)
  then have "run_prog (Handle n svc r m) sqlite_ops w svc (UID r, CommandID q) l' L =
      (l', L, [], Some (NewErrorEnvelope (w_clock w) (MessageID m)
        (errorPayload CodeInternal CatInternal ''Command result is unavailable'' True (CommandID q))))"
    using run_recorded_command [OF l'(2) live assms(7-9), of n svc] assms(4,5,9)
    by (simp add: run_awaitRecord_done scanRecord_def recordResponse_def unmarshal_error_def errorEnvelope_def NewErrorEnvelope_def)
  with l' show ?thesis by (intro exI [of _ l'] exI [of _ ?b]) simp
qed

theorem interrupted_execution_answer_witness:
  "\<exists>l' b. sqlite_start (quiet_open 9, id, []) (sample_ledger [recorded_row sample_request StatusRunning]) = (l', True) \<and>
    stored l' (1008, ''cmd-1'') = Some b \<and> status b = StatusUnknown \<and>
    run_prog (Handle 0 sample_service sample_user (sample_message ''MSG1'')) sqlite_ops
      (sample_world 9 ''administrator'' (Inr ())) sample_service (1008, ''cmd-1'') l' {} =
      (l', {}, [], Some (NewErrorEnvelope ''2026-01-01T00:00:00Z'' ''MSG1''
        (errorPayload CodeInternal CatInternal ''Command result is unavailable'' True ''cmd-1'')))"
proof -
  note ok = recorded_row_ok [of StatusRunning sample_request, simplified]
  have a: "status (recorded_row sample_request StatusRunning) = StatusRunning"
    "error_payload (recorded_row sample_request StatusRunning) = None"
    "request_fingerprint (recorded_row sample_request StatusRunning) = hash sample_service (json_text (request_json sample_request))"
    "9 < expires_at (recorded_row sample_request StatusRunning)"
    by (simp_all add: recorded_row_def row_of_claim_def claim_of_def Retention_def)
  have s: "stored (sample_ledger [recorded_row sample_request StatusRunning]) (UID sample_user, CommandID sample_request) =
      Some (recorded_row sample_request StatusRunning)" using ok by (simp add: sample_key)
  have mid: "MessageID (sample_message ''MSG1'') = ''MSG1''" by (simp add: sample_message_def NewEnvelope_def)
  from interrupted_execution_answer [OF conjunct1 [OF ok] s a sample_asks [of "''MSG1''"], of "sample_world 9 ''administrator'' (Inr ())"
      "{}" id "[]" 0]
  show ?thesis by (simp add: sample_key mid)
qed

end
