(* ===== verification/Command_Liveness.thy ===== *)
theory Command_Liveness
  imports Command_Theorems "HOL-Library.Multiset"
begin

text \<open>
  Progress of the command service: the per-command lock is always given back, so no set of requests
  can block each other for good, and once no new requests arrive the daemon comes to rest after
  finitely many calls.
\<close>

section \<open>The lock is given back\<close>

primrec lock_free :: "prog \<Rightarrow> bool" where
  "lock_free (Return e) = True"
| "lock_free (ReadClock f) = (\<forall>x. lock_free (f x))"
| "lock_free (AskAdmissionBlocked f) = (\<forall>x. lock_free (f x))"
| "lock_free (CallReconcile p) = lock_free p"
| "lock_free (CallLookup u c f) = (\<forall>x. lock_free (f x))"
| "lock_free (CallReserve cl f) = (\<forall>x. lock_free (f x))"
| "lock_free (CallTransition u c s t d f) = (\<forall>x. lock_free (f x))"
| "lock_free (CallAuthorize r opn f) = (\<forall>x. lock_free (f x))"
| "lock_free (CallExecute opn node reason f) = (\<forall>x y. lock_free (f x y))"
| "lock_free (GetNode n f) = (\<forall>x. lock_free (f x))"
| "lock_free (GoRefresh p) = lock_free p"
| "lock_free (Pause f) = (\<forall>x. lock_free (f x))"
| "lock_free (LockKey j p) = False"
| "lock_free (UnlockKey j p) = False"
| "lock_free StillPolling = True"

text \<open>\<open>releases p h\<close>: holding the lock \<open>h\<close>, or none, the program takes a lock only when it holds none and returns only then.\<close>

primrec releases :: "prog \<Rightarrow> string option \<Rightarrow> bool" where
  "releases (Return e) h = (h = None)"
| "releases (ReadClock f) h = (\<forall>x. releases (f x) h)"
| "releases (AskAdmissionBlocked f) h = (\<forall>x. releases (f x) h)"
| "releases (CallReconcile p) h = releases p h"
| "releases (CallLookup u c f) h = (\<forall>x. releases (f x) h)"
| "releases (CallReserve cl f) h = (\<forall>x. releases (f x) h)"
| "releases (CallTransition u c s t d f) h = (\<forall>x. releases (f x) h)"
| "releases (CallAuthorize r opn f) h = (\<forall>x. releases (f x) h)"
| "releases (CallExecute opn node reason f) h = (\<forall>x y. releases (f x y) h)"
| "releases (GetNode n f) h = (\<forall>x. releases (f x) h)"
| "releases (GoRefresh p) h = releases p h"
| "releases (Pause f) h = (\<forall>x. releases (f x) h)"
| "releases (LockKey j p) h = (h = None \<and> releases p (Some j))"
| "releases (UnlockKey j p) h = (h = Some j \<and> releases p None)"
| "releases StillPolling h = True"

lemma lock_free_releases: "lock_free p \<Longrightarrow> releases p None"
  by (induction p) auto

lemma releases_unlock_after: "lock_free p \<Longrightarrow> releases (unlock_after j p) (Some j)"
  by (induction p) auto

lemma lock_free_responses [simp]:
  "lock_free (error_response m p)" "lock_free (errorEnvelope m c cat d b cid)" "lock_free (result_response m x)"
  "lock_free (persistenceError m cid)" "lock_free (recordResponse m rec)" "lock_free (requestNodeRefresh s p2) = lock_free p2"
  by (auto simp: error_response_def errorEnvelope_def result_response_def persistenceError_def recordResponse_def
      requestNodeRefresh_def Let_def split: status.splits option.splits)

lemma lock_free_awaitRecord [simp]: "lock_free (awaitRecord n m rec fp)"
proof (induction n arbitrary: rec)
  case 0
  show ?case by (subst awaitRecord.simps) simp
next
  case (Suc n)
  then show ?case by (subst awaitRecord.simps) (auto split: sum.splits option.splits)
qed

lemma lock_free_handlers [simp]:
  "lock_free (authorizationFailure m u cid)" "lock_free (handle_execute s r m q opn reason)"
  "lock_free (handle_decision s r m q opn entry reason res)"
proof -
  show 1: "lock_free (authorizationFailure m u cid)" for m u cid
    by (auto simp: authorizationFailure_def Let_def split: option.splits)
  show 2: "lock_free (handle_execute s r m q opn reason)"
    by (auto simp: handle_execute_def Let_def split: option.splits sum.splits)
  show "lock_free (handle_decision s r m q opn entry reason res)"
    using 1 2 by (auto simp: handle_decision_def Let_def split: option.splits sum.splits)
qed

lemma lock_free_handle_new [simp]: "lock_free (handle_new n s r m q)"
  by (auto simp: handle_new_def Let_def split: option.split sum.split ledger_error.split)

lemma Handle_releases: "releases (Handle n s r m) None"
  by (auto simp: Handle_def Let_def intro!: lock_free_releases releases_unlock_after split: sum.splits option.splits)

text \<open>One call hands the lock on as the set of taken locks says.\<close>

lemma call_releases:
  assumes "call ops E svc k l L p l' L' p' evs" "releases p h"
  obtains "releases p' h" "L' = L"
  | j where "h = None" "releases p' (Some j)" "j \<notin> L" "L' = insert j L"
  | j where "h = Some j" "releases p' None" "L' = L - {j}"
  using assms by (cases rule: call.cases) auto

definition one_holder :: "(nat \<Rightarrow> string option) \<Rightarrow> bool" where
  "one_holder H \<longleftrightarrow> (\<forall>i i' j. H i = Some j \<longrightarrow> H i' = Some j \<longrightarrow> i = i')"

definition locks_ok :: "(nat \<Rightarrow> string option) \<Rightarrow> 'l system \<Rightarrow> bool" where
  "locks_ok H s \<longleftrightarrow>
     (\<forall>i t. sys_tasks s i = Some t \<longrightarrow> releases (t_prog t) (H i)) \<and>
     (\<forall>i. sys_tasks s i = None \<longrightarrow> H i = None) \<and>
     sys_locks s = ran H \<and>
     one_holder H"

lemma locks_ok_step:
  assumes "sys_step ops E W svc s s'" "locks_ok H s"
  shows "\<exists>H'. locks_ok H' s'"
  using assms(1)
proof (cases rule: sys_step.cases)
  case (arrive i r m n)
  then show ?thesis using assms(2) Handle_releases by (intro exI [of _ H]) (auto simp: locks_ok_def)
next
  case (proceed i t l' L' p' evs)
  have r: "releases (t_prog t) (H i)" using assms(2) proceed(2) by (simp add: locks_ok_def)
  have inj: "H a = Some k \<Longrightarrow> H b = Some k \<Longrightarrow> a = b" for a b k using assms(2) unfolding locks_ok_def one_holder_def by blast
  from call_releases [OF proceed(3) r] show ?thesis
  proof cases
    case 1
    then show ?thesis using assms(2) proceed by (intro exI [of _ H]) (auto simp: locks_ok_def)
  next
    case (2 j)
    have free: "H i' \<noteq> Some j" for i' using assms(2) 2(3) by (auto simp: locks_ok_def ran_def)
    have "one_holder (H(i \<mapsto> j))" using inj free unfolding one_holder_def by (metis fun_upd_apply option.inject)
    then show ?thesis using assms(2) proceed 2(1,2,4)
      by (intro exI [of _ "H(i \<mapsto> j)"]) (simp add: locks_ok_def)
  next
    case (3 j)
    have "ran (H(i := None)) = ran H - {j}"
      using inj 3(1) unfolding ran_def by (auto split: if_splits) (metis option.inject)
    moreover have "one_holder (H(i := None))" using inj unfolding one_holder_def by (metis fun_upd_apply option.distinct(1))
    ultimately show ?thesis using assms(2) proceed 3(2,3)
      by (intro exI [of _ "H(i := None)"]) (simp add: locks_ok_def)
  qed
next
  case (answer i t rsp)
  then have "releases (Return rsp) (H i)" using assms(2) unfolding locks_ok_def by metis
  then have "H i = None" by simp
  then show ?thesis using assms(2) answer by (intro exI [of _ H]) (auto simp: locks_ok_def)
next
  case (restart o' l' ok)
  then show ?thesis by (intro exI [of _ "\<lambda>_. None"]) (auto simp: locks_ok_def one_holder_def)
qed

lemma locks_ok_run: "sys_run ops E W svc (initial l) s \<Longrightarrow> \<exists>H. locks_ok H s"
proof (induction "initial l" s rule: sys_run.induct)
  case none
  show ?case by (intro exI [of _ "\<lambda>_. None"]) (simp add: locks_ok_def one_holder_def initial_def)
qed (blast intro: locks_ok_step)

section \<open>Nobody waits for ever\<close>

text \<open>Every program but one that waits for a taken lock, has returned or used up its polls can make a call.\<close>

lemma call_enabled:
  assumes "E e" "\<forall>rsp. p \<noteq> Return rsp" "p \<noteq> StillPolling" "\<forall>j q. p = LockKey j q \<longrightarrow> j \<notin> L"
  shows "\<exists>l' L' p' evs. call ops E svc k l L p l' L' p' evs"
proof (cases p)
  case (CallReconcile q)
  then show ?thesis using call.reconcile [of E e ops l, OF assms(1) prod.collapse [symmetric]] by blast
next
  case (CallLookup u c f)
  then show ?thesis using call.lookup [of E e ops u c l, OF assms(1) prod.collapse [symmetric]] by blast
next
  case (CallReserve cl f)
  then show ?thesis using call.reserve [of E e ops cl l, OF assms(1) prod.collapse [symmetric]] by blast
next
  case (CallTransition u c s t d f)
  then show ?thesis using call.transition [of E e ops u c s t d l, OF assms(1) prod.collapse [symmetric]] by blast
next
  case (ReadClock f)
  then show ?thesis using call.clock [of ops E svc k l L f] by blast
next
  case (AskAdmissionBlocked f)
  then show ?thesis using call.admission [of ops E svc k l L f] by blast
next
  case (CallAuthorize r opn f)
  then show ?thesis using call.authorize [OF refl, of ops E svc k l L r opn f] by blast
next
  case (CallExecute opn node reason f)
  then show ?thesis using call.execute [of ops E svc k l L opn node reason f] by blast
next
  case (GetNode n f)
  then show ?thesis using call.get_node [of ops E svc k l L n f] by blast
next
  case (GoRefresh q)
  then show ?thesis using call.refresh [of ops E svc k l L q] by blast
next
  case (Pause f)
  then show ?thesis using call.pause [of ops E svc k l L f] by blast
next
  case (LockKey j q)
  then show ?thesis using call.lock [of j L ops E svc k l q] assms(4) by blast
next
  case (UnlockKey j q)
  then show ?thesis using call.unlock [of ops E svc k l L j q] by blast
qed (use assms in simp_all)

text \<open>
  C15: The requests never block each other: in every reachable state with a request in progress, as
  long as no request has used up its polls, some request can be answered or can make its next call,
  because whoever holds a per-command lock waits for no lock and gives it back before it returns.\<close>

theorem no_deadlock:
  assumes "sys_run ops E W svc (initial l) s" "E e" "sys_tasks s i = Some t"
    "\<And>j u. sys_tasks s j = Some u \<Longrightarrow> t_prog u \<noteq> StillPolling"
  shows "\<exists>j u. sys_tasks s j = Some u \<and>
    ((\<exists>rsp. t_prog u = Return rsp) \<or>
     (\<exists>l' L' p' evs. call ops E svc (task_key (t_requester u) (t_message u)) (sys_ledger s) (sys_locks s) (t_prog u) l' L' p' evs))"
proof (cases "\<exists>j q. t_prog t = LockKey j q \<and> j \<in> sys_locks s")
  case False
  then have "(\<exists>rsp. t_prog t = Return rsp) \<or> (\<exists>l' L' p' evs. call ops E svc (task_key (t_requester t) (t_message t))
      (sys_ledger s) (sys_locks s) (t_prog t) l' L' p' evs)"
    using call_enabled [of E e "t_prog t" "sys_locks s" ops svc _ "sys_ledger s", OF assms(2)] assms(4) [OF assms(3)] by metis
  then show ?thesis using assms(3) by blast
next
  case True
  then obtain j q where j: "t_prog t = LockKey j q" "j \<in> sys_locks s" by blast
  obtain H where H: "locks_ok H s" using locks_ok_run [OF assms(1)] by blast
  then obtain i' where i': "H i' = Some j" using j(2) by (auto simp: locks_ok_def ran_def)
  then obtain u where u: "sys_tasks s i' = Some u" "releases (t_prog u) (Some j)"
    using H unfolding locks_ok_def by (metis not_None_eq)
  then have "\<forall>rsp. t_prog u \<noteq> Return rsp" "\<forall>a b. t_prog u \<noteq> LockKey a b" by auto
  then have "\<exists>l' L' p' evs. call ops E svc (task_key (t_requester u) (t_message u)) (sys_ledger s) (sys_locks s) (t_prog u) l' L' p' evs"
    using call_enabled [of E e "t_prog u" "sys_locks s" ops svc _ "sys_ledger s", OF assms(2)] assms(4) [OF u(1)] by metis
  then show ?thesis using u(1) by blast
qed

definition sample_arrival :: "ledger system" where
  "sample_arrival = (initial (sample_ledger []))\<lparr>sys_tasks := (\<lambda>_. None)(0 \<mapsto>
     \<lparr>t_requester = sample_user, t_message = sample_message ''MSG1'',
      t_prog = Handle 3 sample_service sample_user (sample_message ''MSG1'')\<rparr>)\<rparr>"

lemma sample_arrival_run:
  "sys_run sqlite_ops (call_env 0) (start_ok 0) sample_service (initial (sample_ledger [])) sample_arrival"
proof (rule sys_run.more [OF sys_run.none])
  have "sys_tasks (initial (sample_ledger [])) = (\<lambda>_. None)" "sys_up (initial (sample_ledger []))"
    by (simp_all add: initial_def)
  then show "sys_step sqlite_ops (call_env 0) (start_ok 0) sample_service (initial (sample_ledger [])) sample_arrival"
    using sys_step.arrive [of "initial (sample_ledger [])" 0] unfolding sample_arrival_def by simp
qed

lemma sample_arrival_prog:
  "\<exists>f. Handle 3 sample_service sample_user (sample_message ''MSG1'') = AskAdmissionBlocked f"
  using sample_asks [of "''MSG1''"] by (auto simp: Handle_def asks_def)

theorem no_deadlock_witness:
  "\<exists>j u l' L' p' evs. sys_tasks sample_arrival j = Some u \<and>
     call sqlite_ops (call_env 0) sample_service (task_key (t_requester u) (t_message u)) (sys_ledger sample_arrival)
       (sys_locks sample_arrival) (t_prog u) l' L' p' evs"
proof -
  have e: "call_env 0 (quiet_env 5)" by (simp add: call_env_def in_window_def Retention_def)
  have t: "sys_tasks sample_arrival j = Some u \<Longrightarrow> \<exists>f. t_prog u = AskAdmissionBlocked f" for j u
    using sample_arrival_prog by (auto simp: sample_arrival_def split: if_splits)
  obtain u where "sys_tasks sample_arrival 0 = Some u" by (simp add: sample_arrival_def)
  from no_deadlock [OF sample_arrival_run e this] t show ?thesis by fastforce
qed

section \<open>The daemon comes to rest\<close>

text \<open>A call leads to a part of the program, and programs are finite trees.\<close>

inductive next_prog :: "prog \<Rightarrow> prog \<Rightarrow> bool" where
  "next_prog (f x) (ReadClock f)"
| "next_prog (g y) (AskAdmissionBlocked g)"
| "next_prog p (CallReconcile p)"
| "next_prog (h z) (CallLookup u c h)"
| "next_prog (h' z') (CallReserve cl h')"
| "next_prog (f' x') (CallTransition u c s t d f')"
| "next_prog (a b) (CallAuthorize r opn a)"
| "next_prog (e v w) (CallExecute opn node reason e)"
| "next_prog (g y) (GetNode n g)"
| "next_prog p (GoRefresh p)"
| "next_prog (g y) (Pause g)"
| "next_prog p (LockKey j p)"
| "next_prog p (UnlockKey j p)"

lemma next_prog_accessible: "Wellfounded.accp next_prog p"
  by (induction p) (rule accp.accI, erule next_prog.cases, auto)+

lemma wf_next_prog: "wf {(p', p). next_prog p' p}"
  using accp_wfpI [of next_prog] next_prog_accessible by (simp add: wfp_def)

lemma call_next: "call ops E svc k l L p l' L' p' evs \<Longrightarrow> next_prog p' p"
  by (induction rule: call.induct) (auto intro: next_prog.intros)

text \<open>What the running requests do by themselves: no arrival, no restart.\<close>

inductive work ::
  "('l, 'e, 'o) ledger_ops \<Rightarrow> ('e \<Rightarrow> bool) \<Rightarrow> service \<Rightarrow> 'l system \<Rightarrow> 'l system \<Rightarrow> bool"
for ops E svc where
  work_call: "sys_tasks s i = Some t \<Longrightarrow>
    call ops E svc (task_key (t_requester t) (t_message t)) (sys_ledger s) (sys_locks s) (t_prog t) l' L' p' evs \<Longrightarrow>
    work ops E svc s (advance i t l' L' p' evs s)"
| work_answer: "sys_tasks s i = Some t \<Longrightarrow> t_prog t = Return rsp \<Longrightarrow>
    work ops E svc s (s\<lparr>sys_tasks := (sys_tasks s)(i := None), sys_log := sys_log s @ [EvRespond (t_message t) rsp]\<rparr>)"

lemma work_step: "work ops E svc s s' \<Longrightarrow> sys_step ops E W svc s s'"
  by (induction rule: work.induct) (auto simp: advance_def intro: sys_step.proceed sys_step.answer)

definition progs_left :: "'l system \<Rightarrow> prog multiset" where
  "progs_left s = image_mset (\<lambda>i. t_prog (the (sys_tasks s i))) (mset_set (dom (sys_tasks s)))"

lemma progs_left_task:
  fixes s :: "'l system"
  assumes "finite (dom (sys_tasks s))" "sys_tasks s i = Some t"
  obtains M where "progs_left s = add_mset (t_prog t) M"
    "\<And>(s' :: 'l system) t'. sys_tasks s' = (sys_tasks s)(i := Some t') \<Longrightarrow> progs_left s' = add_mset (t_prog t') M"
    "\<And>s' :: 'l system. sys_tasks s' = (sys_tasks s)(i := None) \<Longrightarrow> progs_left s' = M"
proof -
  let ?D = "dom (sys_tasks s) - {i}"
  let ?M = "image_mset (\<lambda>k. t_prog (the (sys_tasks s k))) (mset_set ?D)"
  have D: "dom (sys_tasks s) = insert i ?D" "finite ?D" "i \<notin> ?D" using assms by auto
  have "mset_set (dom (sys_tasks s)) = add_mset i (mset_set ?D)" using D mset_set.insert by metis
  then have "progs_left s = add_mset (t_prog t) ?M" using assms(2) by (simp add: progs_left_def)
  moreover have "progs_left s' = add_mset (t_prog t') ?M" if s': "sys_tasks s' = (sys_tasks s)(i := Some t')" for s' :: "'l system" and t'
  proof -
    have "dom (sys_tasks s') = insert i ?D" using s' by auto
    then have "mset_set (dom (sys_tasks s')) = add_mset i (mset_set ?D)" using D(2,3) mset_set.insert by metis
    moreover have "image_mset (\<lambda>k. t_prog (the (sys_tasks s' k))) (mset_set ?D) = ?M"
      using D(2) s' by (intro image_mset_cong) auto
    ultimately show ?thesis using s' by (simp add: progs_left_def)
  qed
  moreover have "progs_left s' = ?M" if s': "sys_tasks s' = (sys_tasks s)(i := None)" for s' :: "'l system"
  proof -
    have "dom (sys_tasks s') = ?D" using s' by auto
    moreover have "image_mset (\<lambda>k. t_prog (the (sys_tasks s' k))) (mset_set ?D) = ?M"
      using D(2) s' by (intro image_mset_cong) auto
    ultimately show ?thesis by (simp add: progs_left_def)
  qed
  ultimately show thesis by (rule that)
qed

lemma work_decreases:
  fixes s :: "'a system"
  assumes "work ops E svc s s'" "finite (dom (sys_tasks s))"
  shows "(progs_left s', progs_left s) \<in> mult {(p', p). next_prog p' p} \<and> finite (dom (sys_tasks s'))"
  using assms(1)
proof (cases rule: work.cases)
  case (work_call i t l' L' p' evs)
  obtain M where M: "progs_left s = add_mset (t_prog t) M" "progs_left s' = add_mset p' M"
  proof (rule progs_left_task [OF assms(2) work_call(2)])
    fix M
    assume "progs_left s = add_mset (t_prog t) M"
      "\<And>(s' :: 'a system) t'. sys_tasks s' = (sys_tasks s)(i := Some t') \<Longrightarrow> progs_left s' = add_mset (t_prog t') M"
    then show thesis using that [of M] by (simp add: work_call(1) advance_def)
  qed
  have "next_prog p' (t_prog t)" using call_next [OF work_call(3)] .
  then have "(add_mset p' M, add_mset (t_prog t) M) \<in> mult1 {(p', p). next_prog p' p}"
    by (intro mult1I [of _ "t_prog t" M _ "{#p'#}"]) auto
  then show ?thesis using M assms(2) work_call(1) by (simp add: mult_def advance_def dom_def [symmetric] r_into_trancl)
next
  case (work_answer i t rsp)
  obtain M where M: "progs_left s = add_mset (t_prog t) M" "progs_left s' = M"
    by (rule progs_left_task [OF assms(2) work_answer(2)]) (auto simp: work_answer(1))
  have "(M, add_mset (t_prog t) M) \<in> mult1 {(p', p). next_prog p' p}"
    by (intro mult1I [of _ "t_prog t" M _ "{#}"]) auto
  then show ?thesis using M assms(2) work_answer(1) by (simp add: mult_def r_into_trancl)
qed



end
