(* ===== verification/Node.thy ===== *)
theory Node
  imports Go_Json Prelude "HOL-Library.List_Lexorder" "HOL-Library.Char_ord"
begin

text \<open>
  The node read model (\<^verbatim>\<open>internal/resource\<close>): the canonical node, snapshots and changes
  (\<^verbatim>\<open>node.go\<close>, \<^verbatim>\<open>node_snapshot.go\<close>, \<^verbatim>\<open>node_change.go\<close>), the cache (\<^verbatim>\<open>node_cache.go\<close>) and its
  synchronizer (\<^verbatim>\<open>node_synchronizer.go\<close>).

  A Go map is a list of entries with unique keys whose order stands for the order in which a loop
  over the map happens to visit them; every theorem holds for every order. Strings are compared
  byte by byte, which is the lexicographic order of character lists. Generations are 64-bit words.
\<close>

section \<open>Nodes\<close>

record node_metadata =
  meta_Name :: string
  meta_Kind :: string
  meta_Generation :: uint64
  meta_ObservedAt :: string
  meta_Source :: string

record node_spec =
  spec_NodeName :: string
  spec_Address :: string
  spec_Hostname :: string
  spec_CPULoad :: int
  spec_RealMemory :: int
  spec_AllocMemory :: int
  spec_FreeMemory :: int

record node_status =
  st_State :: string
  st_StateFlags :: "string list"
  st_Reason :: string

record node =
  Metadata :: node_metadata
  Spec :: node_spec
  NStatus :: node_status

text \<open>\<open>now\<close> is the text of \<^verbatim>\<open>time.Now().UTC()\<close>.\<close>

definition NewNode :: "string \<Rightarrow> string \<Rightarrow> uint64 \<Rightarrow> node" where
  "NewNode now name generation =
     \<lparr>Metadata = \<lparr>meta_Name = name, meta_Kind = ''Node'', meta_Generation = generation, meta_ObservedAt = now,
        meta_Source = ''cockpit-slurm''\<rparr>,
      Spec = \<lparr>spec_NodeName = name, spec_Address = [], spec_Hostname = [], spec_CPULoad = 0, spec_RealMemory = 0,
        spec_AllocMemory = 0, spec_FreeMemory = 0\<rparr>,
      NStatus = \<lparr>st_State = [], st_StateFlags = [], st_Reason = []\<rparr>\<rparr>"

definition Identity :: "node \<Rightarrow> string" where
  "Identity n = (if spec_NodeName (Spec n) \<noteq> [] then spec_NodeName (Spec n) else meta_Name (Metadata n))"

section \<open>Mapping Slurm's nodes\<close>

text \<open>The part of the generated \<^verbatim>\<open>V0043Node\<close> that the mapping reads; a nil pointer is \<open>None\<close>.\<close>

record slurm_node =
  sn_Address :: "string option"
  sn_Hostname :: "string option"
  sn_Name :: "string option"
  sn_CpuLoad :: "int option"
  sn_RealMemory :: "int option"
  sn_AllocMemory :: "int option"
  sn_FreeMem :: "(int option \<times> bool option) option" \<comment> \<open>number and set\<close>
  sn_Reason :: "string option"
  sn_State :: "string list option"

definition nodeNameFromGenerated :: "slurm_node \<Rightarrow> string" where
  "nodeNameFromGenerated i =
     (case sn_Name i of Some (c # cs) \<Rightarrow> c # cs
      | _ \<Rightarrow> (case sn_Hostname i of Some (c # cs) \<Rightarrow> c # cs
             | _ \<Rightarrow> (case sn_Address i of Some (c # cs) \<Rightarrow> c # cs | _ \<Rightarrow> [])))"

definition primary_state :: "string \<Rightarrow> bool" where
  "primary_state s \<longleftrightarrow> s \<in> {''ALLOCATED'', ''DOWN'', ''ERROR'', ''FAIL'', ''FUTURE'', ''IDLE'', ''MIXED'', ''PLANNED'', ''UNKNOWN''}"

definition summarizeNodeState :: "string list \<Rightarrow> string" where
  "summarizeNodeState states =
     (if states = [] then []
      else if length (filter primary_state states) > 1 then ''MIXED''
      else (case List.find primary_state states of Some s \<Rightarrow> s | None \<Rightarrow> hd states))"

definition stateFlagsFromGenerated :: "string list \<Rightarrow> string list" where
  "stateFlagsFromGenerated states = filter (\<lambda>s. \<not> primary_state s) states"

text \<open>\<^verbatim>\<open>if p != nil\<close>: assign to a field of the node.\<close>

definition if_given :: "'a option \<Rightarrow> ('a \<Rightarrow> node \<Rightarrow> node) \<Rightarrow> node \<Rightarrow> node" where
  "if_given p assign n = (case p of None \<Rightarrow> n | Some x \<Rightarrow> assign x n)"

definition MapSlurmNode :: "string \<Rightarrow> slurm_node \<Rightarrow> node" where
  "MapSlurmNode now i =
     (let n0 = NewNode now (nodeNameFromGenerated i) 0;
          n1 = if_given (sn_Address i) (\<lambda>x. Spec_update (\<lambda>s. s\<lparr>spec_Address := x\<rparr>)) n0;
          n2 = if_given (sn_Hostname i) (\<lambda>x. Spec_update (\<lambda>s. s\<lparr>spec_Hostname := x\<rparr>)) n1;
          n3 = if_given (sn_Name i) (\<lambda>x n. Metadata_update (\<lambda>m. m\<lparr>meta_Name := x\<rparr>) (Spec_update (\<lambda>s. s\<lparr>spec_NodeName := x\<rparr>) n)) n2;
          n4 = if_given (sn_CpuLoad i) (\<lambda>x. Spec_update (\<lambda>s. s\<lparr>spec_CPULoad := x\<rparr>)) n3;
          n5 = if_given (sn_RealMemory i) (\<lambda>x. Spec_update (\<lambda>s. s\<lparr>spec_RealMemory := x\<rparr>)) n4;
          n6 = if_given (sn_AllocMemory i) (\<lambda>x. Spec_update (\<lambda>s. s\<lparr>spec_AllocMemory := x\<rparr>)) n5;
          free = (case sn_FreeMem i of Some (Some x, Some True) \<Rightarrow> Some x | _ \<Rightarrow> None);
          n7 = if_given free (\<lambda>x. Spec_update (\<lambda>s. s\<lparr>spec_FreeMemory := x\<rparr>)) n6;
          n8 = if_given (sn_Reason i) (\<lambda>x. NStatus_update (\<lambda>s. s\<lparr>st_Reason := x\<rparr>)) n7
      in
      if_given (sn_State i) (\<lambda>ss. NStatus_update (\<lambda>s. s\<lparr>st_State := summarizeNodeState ss,
        st_StateFlags := stateFlagsFromGenerated ss\<rparr>)) n8)"

section \<open>Snapshots and changes\<close>

record snapshot =
  snap_Generation :: uint64
  snap_Resource :: string
  snap_Nodes :: "node list"

text \<open>The clone of the slice has the same nodes; nodes are values.\<close>

definition NewSnapshot :: "string \<Rightarrow> uint64 \<Rightarrow> node list \<Rightarrow> snapshot" where
  "NewSnapshot resource generation nodes =
     \<lparr>snap_Generation = generation, snap_Resource = resource, snap_Nodes = nodes\<rparr>"

datatype change_kind = NodeAdded | NodeUpdated | NodeRemoved

record node_change =
  chg_Kind :: change_kind
  chg_Node :: node

record node_change_batch =
  bat_Resource :: string
  bat_Event :: string
  bat_Generation :: uint64
  bat_Changes :: "node_change list"

definition sameNodeState :: "node \<Rightarrow> node \<Rightarrow> bool" where
  "sameNodeState a b \<longleftrightarrow>
     Spec a = Spec b \<and> st_State (NStatus a) = st_State (NStatus b) \<and>
     st_StateFlags (NStatus a) = st_StateFlags (NStatus b) \<and> st_Reason (NStatus a) = st_Reason (NStatus b)"

text \<open>\<^verbatim>\<open>sort.Slice\<close> by identity. It need not be stable; the identities of a batch are distinct.\<close>

definition sortNodeChanges :: "node_change list \<Rightarrow> node_change list" where
  "sortNodeChanges changes = sort_key (\<lambda>c. Identity (chg_Node c)) changes"

section \<open>The cache\<close>

record node_cache =
  generation :: uint64
  cached :: "(string \<times> node) list"

definition NewNodeCache :: node_cache where
  "NewNodeCache = \<lparr>generation = 0, cached = []\<rparr>"

text \<open>\<^verbatim>\<open>m[k] = v\<close> on a Go map.\<close>

definition map_put :: "'k \<Rightarrow> 'v \<Rightarrow> ('k \<times> 'v) list \<Rightarrow> ('k \<times> 'v) list" where
  "map_put k v m = (if map_of m k = None then m @ [(k, v)] else map (\<lambda>e. if fst e = k then (k, v) else e) m)"

definition incoming_map :: "node list \<Rightarrow> (string \<times> node) list" where
  "incoming_map nodes = fold (\<lambda>n. map_put (Identity n) n) nodes []"

definition set_generation :: "uint64 \<Rightarrow> node \<Rightarrow> node" where
  "set_generation g n = n\<lparr>Metadata := (Metadata n)\<lparr>meta_Generation := g\<rparr>\<rparr>"

text \<open>The changes of \<^verbatim>\<open>replaceSnapshot\<close> before they are stamped and sorted.\<close>

definition raw_changes :: "(string \<times> node) list \<Rightarrow> (string \<times> node) list \<Rightarrow> node_change list" where
  "raw_changes old incoming =
     concat (map (\<lambda>(i, n). case map_of old i of
         None \<Rightarrow> [\<lparr>chg_Kind = NodeAdded, chg_Node = n\<rparr>]
       | Some prev \<Rightarrow> if \<not> sameNodeState prev n then [\<lparr>chg_Kind = NodeUpdated, chg_Node = n\<rparr>] else []) incoming) @
     concat (map (\<lambda>(i, n). if map_of incoming i = None then [\<lparr>chg_Kind = NodeRemoved, chg_Node = n\<rparr>] else []) old)"

definition stamp_change :: "uint64 \<Rightarrow> node_change \<Rightarrow> node_change" where
  "stamp_change g c = (if chg_Kind c \<noteq> NodeRemoved then c\<lparr>chg_Node := set_generation g (chg_Node c)\<rparr> else c)"

definition updated_nodes :: "uint64 \<Rightarrow> (string \<times> node) list \<Rightarrow> (string \<times> node) list \<Rightarrow> (string \<times> node) list" where
  "updated_nodes g old incoming =
     map (\<lambda>(i, n). (i, case map_of old i of
         Some prev \<Rightarrow> if sameNodeState prev n then prev else set_generation g n
       | None \<Rightarrow> set_generation g n)) incoming"

text \<open>\<open>None\<close> is \<^verbatim>\<open>changed = false\<close>.\<close>

definition replaceSnapshot :: "node list \<Rightarrow> node_cache \<Rightarrow> node_cache \<times> node_change_batch option" where
  "replaceSnapshot nodes c =
     (let incoming = incoming_map nodes;
          changes = raw_changes (cached c) incoming
      in
      if changes = [] then (c, None)
      else
        (let g = generation c + 1 in
         (c\<lparr>generation := g, cached := updated_nodes g (cached c) incoming\<rparr>,
          Some \<lparr>bat_Resource = ''node'', bat_Event = ''changes'', bat_Generation = g,
            bat_Changes = sortNodeChanges (map (stamp_change g) changes)\<rparr>)))"

definition ReplaceSnapshot :: "node list \<Rightarrow> node_cache \<Rightarrow> node_cache \<times> node_change_batch option" where
  "ReplaceSnapshot nodes c = replaceSnapshot nodes c"

text \<open>With a publisher, which changes a state of its own.\<close>

definition ReplaceSnapshotAndPublish ::
  "node list \<Rightarrow> (node_change_batch \<Rightarrow> 's \<Rightarrow> 's) option \<Rightarrow> node_cache \<times> 's \<Rightarrow> (node_cache \<times> 's) \<times> node_change_batch option" where
  "ReplaceSnapshotAndPublish nodes publisher cs =
     (case cs of (c, s) \<Rightarrow>
        case replaceSnapshot nodes c of
          (c', None) \<Rightarrow> ((c', s), None)
        | (c', Some batch) \<Rightarrow> ((c', case publisher of None \<Rightarrow> s | Some publish \<Rightarrow> publish batch s), Some batch))"

definition cache_Snapshot :: "node_cache \<Rightarrow> snapshot" where
  "cache_Snapshot c = NewSnapshot ''nodes'' (generation c) (map snd (cached c))"

definition WithSnapshotBoundary :: "(snapshot \<Rightarrow> 's \<Rightarrow> 's) \<Rightarrow> node_cache \<times> 's \<Rightarrow> node_cache \<times> 's" where
  "WithSnapshotBoundary register cs = (case cs of (c, s) \<Rightarrow> (c, register (cache_Snapshot c) s))"

definition cache_Get :: "string \<Rightarrow> node_cache \<Rightarrow> node option" where
  "cache_Get name c = map_of (cached c) name"

definition cache_Generation :: "node_cache \<Rightarrow> uint64" where
  "cache_Generation c = generation c"

section \<open>The synchronizer\<close>

datatype sync_error = ErrNoAdapter | ErrNoCache | ErrInterval | ErrNotInitialized | ErrListNodes | ErrContext
  | ErrNoIdentity nat | ErrDuplicateNode string

text \<open>\<open>seen\<close> are the identities of the nodes before index \<open>i\<close>.\<close>

fun validate_from :: "nat \<Rightarrow> string set \<Rightarrow> node list \<Rightarrow> sync_error option" where
  "validate_from i seen [] = None"
| "validate_from i seen (n # ns) =
     (if Identity n = [] then Some (ErrNoIdentity i)
      else if Identity n \<in> seen then Some (ErrDuplicateNode (Identity n))
      else validate_from (Suc i) (insert (Identity n) seen) ns)"

definition validateNodeSnapshot :: "node list \<Rightarrow> sync_error option" where
  "validateNodeSnapshot nodes = validate_from 0 {} nodes"

record synchronizer =
  sync_interval :: int

text \<open>The arguments say whether an adapter and a cache were given.\<close>

definition NewNodeSynchronizer :: "bool \<Rightarrow> bool \<Rightarrow> int \<Rightarrow> sync_error + synchronizer" where
  "NewNodeSynchronizer adapter cache interval =
     (if \<not> adapter then Inl ErrNoAdapter
      else if \<not> cache then Inl ErrNoCache
      else if interval \<le> 0 then Inl ErrInterval
      else Inr \<lparr>sync_interval = interval\<rparr>)"

text \<open>
  One refresh under \<^verbatim>\<open>refreshMu\<close>: \<open>nodes\<close> is what the adapter answers, \<open>ctx_done\<close> whether the
  context has ended by then.
\<close>

definition Refresh ::
  "synchronizer option \<Rightarrow> (node_change_batch \<Rightarrow> 's \<Rightarrow> 's) option \<Rightarrow> (unit + node list) \<Rightarrow> bool \<Rightarrow> node_cache \<times> 's \<Rightarrow>
   (node_cache \<times> 's) \<times> sync_error option" where
  "Refresh s publisher nodes ctx_done cs =
     (case s of None \<Rightarrow> (cs, Some ErrNotInitialized)
      | Some _ \<Rightarrow>
        (case nodes of Inl _ \<Rightarrow> (cs, Some ErrListNodes)
         | Inr ns \<Rightarrow>
           if ctx_done then (cs, Some ErrContext)
           else
             (case validateNodeSnapshot ns of
                Some err \<Rightarrow> (cs, Some err)
              | None \<Rightarrow> (fst (ReplaceSnapshotAndPublish ns publisher cs), None))))"

text \<open>
  \<^verbatim>\<open>Run\<close>: per turn of the loop either the context is done, which ends it, or a tick refreshes with
  what the adapter answers then. A refresh that fails is only logged. The list is what happens at
  each turn; \<open>None\<close> as the result means that the loop is still running after these turns.
\<close>

datatype tick = CtxDone | Tick "unit + node list" bool

fun sync_loop ::
  "synchronizer \<Rightarrow> (node_change_batch \<Rightarrow> 's \<Rightarrow> 's) option \<Rightarrow> tick list \<Rightarrow> node_cache \<times> 's \<Rightarrow> (node_cache \<times> 's) \<times> bool option" where
  "sync_loop s publisher [] cs = (cs, None)"
| "sync_loop s publisher (CtxDone # ts) cs = (cs, Some True)"
| "sync_loop s publisher (Tick nodes ctx_done # ts) cs = sync_loop s publisher ts (fst (Refresh (Some s) publisher nodes ctx_done cs))"

definition sync_Run ::
  "synchronizer option \<Rightarrow> (node_change_batch \<Rightarrow> 's \<Rightarrow> 's) option \<Rightarrow> tick list \<Rightarrow> node_cache \<times> 's \<Rightarrow>
   (node_cache \<times> 's) \<times> (sync_error + unit) option" where
  "sync_Run s publisher ts cs =
     (case s of None \<Rightarrow> (cs, Some (Inl ErrNotInitialized))
      | Some y \<Rightarrow>
        if sync_interval y \<le> 0 then (cs, Some (Inl ErrNotInitialized))
        else (let (cs', r) = sync_loop y publisher ts cs in (cs', map_option (\<lambda>_. Inr ()) r)))"

end
