(* ===== verification/Node_Stream.thy ===== *)
theory Node_Stream
  imports Node Protocol
begin

text \<open>
  The registry of node streams (\<^verbatim>\<open>internal/stream/node_registry.go\<close>): each connection gets one
  snapshot and then every committed batch, through its bounded outbound queue, or it is closed.

  A stream object has an address; the registry holds a set of addresses, whose order in the list
  stands for the order of a loop over the Go map. \<open>outbox\<close> is the sender that the IPC server gives
  to a stream: the outbound channel of the connection with its capacity, what has been written to
  the socket, and whether the context of the connection is cancelled.
\<close>

section \<open>JSON of nodes\<close>

definition int_json :: "int \<Rightarrow> json" where
  "int_json x = JNum (if x < 0 then ''-'' @ dec (nat (- x)) else dec (nat x))"

definition opt_int :: "string \<Rightarrow> int \<Rightarrow> (string \<times> json) list" where
  "opt_int k x = (if x = 0 then [] else [(k, int_json x)])"

definition opt_strings :: "string \<Rightarrow> string list \<Rightarrow> (string \<times> json) list" where
  "opt_strings k xs = (if xs = [] then [] else [(k, JArr (map JStr xs))])"

definition uint_json :: "uint64 \<Rightarrow> json" where
  "uint_json g = JNum (dec (unat g))"

definition metadata_json :: "node_metadata \<Rightarrow> json" where
  "metadata_json m = JObj [(''name'', JStr (meta_Name m)), (''kind'', JStr (meta_Kind m)),
     (''generation'', uint_json (meta_Generation m)), (''observedAt'', JStr (meta_ObservedAt m)), (''source'', JStr (meta_Source m))]"

definition spec_json :: "node_spec \<Rightarrow> json" where
  "spec_json s = JObj ([(''nodeName'', JStr (spec_NodeName s))] @ opt_field ''address'' (spec_Address s) @
     opt_field ''hostname'' (spec_Hostname s) @ opt_int ''cpuLoad'' (spec_CPULoad s) @ opt_int ''realMemory'' (spec_RealMemory s) @
     opt_int ''allocMemory'' (spec_AllocMemory s) @ opt_int ''freeMemory'' (spec_FreeMemory s))"

definition status_node_json :: "node_status \<Rightarrow> json" where
  "status_node_json s = JObj (opt_field ''state'' (st_State s) @ opt_strings ''stateFlags'' (st_StateFlags s) @
     opt_field ''reason'' (st_Reason s))"

definition node_json :: "node \<Rightarrow> json" where
  "node_json n = JObj [(''metadata'', metadata_json (Metadata n)), (''spec'', spec_json (Spec n)),
     (''status'', status_node_json (NStatus n))]"

fun kind_json :: "change_kind \<Rightarrow> json" where
  "kind_json NodeAdded = JStr ''added''"
| "kind_json NodeUpdated = JStr ''updated''"
| "kind_json NodeRemoved = JStr ''removed''"

definition change_json :: "node_change \<Rightarrow> json" where
  "change_json c = JObj [(''kind'', kind_json (chg_Kind c)), (''node'', node_json (chg_Node c))]"

definition batch_json :: "node_change_batch \<Rightarrow> json" where
  "batch_json b = JObj [(''resource'', JStr (bat_Resource b)), (''event'', JStr (bat_Event b)),
     (''generation'', uint_json (bat_Generation b)), (''changes'', JArr (map change_json (bat_Changes b)))]"

text \<open>\<^verbatim>\<open>nodeSnapshotPayload\<close>; the nodes of a snapshot are never a nil slice.\<close>

definition snapshot_json :: "snapshot \<Rightarrow> json" where
  "snapshot_json s = JObj [(''resource'', JStr ''node''), (''event'', JStr ''snapshot''),
     (''generation'', uint_json (snap_Generation s)), (''nodes'', JArr (map node_json (snap_Nodes s)))]"

section \<open>The outbound queue of a connection\<close>

record outbox =
  ob_cap :: nat
  ob_queue :: "envelope list"
  ob_wire :: "envelope list"
  ob_cancelled :: bool

text \<open>
  The non-blocking send: with the context cancelled and room in the channel, \<^verbatim>\<open>select\<close> may take
  either branch, as \<open>pick\<close> says.
\<close>

definition ob_enqueue :: "bool \<Rightarrow> envelope \<Rightarrow> outbox \<Rightarrow> outbox \<times> bool" where
  "ob_enqueue pick e ob =
     (if length (ob_queue ob) < ob_cap ob \<and> (\<not> ob_cancelled ob \<or> pick)
      then (ob\<lparr>ob_queue := ob_queue ob @ [e]\<rparr>, True)
      else (ob, False))"

section \<open>Streams\<close>

type_synonym sid = nat

record nstream =
  s_done :: bool
  s_closer :: bool \<comment> \<open>whether a function to close the connection was given\<close>
  s_out :: outbox

definition newNodeStream :: "outbox \<Rightarrow> bool \<Rightarrow> nstream" where
  "newNodeStream out closer = \<lparr>s_done = False, s_closer = closer, s_out = out\<rparr>"

definition stream_enqueue :: "bool \<Rightarrow> envelope \<Rightarrow> nstream \<Rightarrow> nstream \<times> bool" where
  "stream_enqueue pick e s =
     (if s_done s then (s, False)
      else (let (out, ok) = ob_enqueue pick e (s_out s) in (s\<lparr>s_out := out\<rparr>, ok)))"

record stream_registry =
  queueSize :: int
  messageSeq :: uint64
  objs :: "sid \<Rightarrow> nstream option"
  streams :: "sid list"

datatype registry_error = ErrCacheRequired | ErrQueueSize

definition NewNodeStreamRegistry :: "bool \<Rightarrow> int \<Rightarrow> registry_error + stream_registry" where
  "NewNodeStreamRegistry cache n =
     (if \<not> cache then Inl ErrCacheRequired
      else if n \<le> 0 then Inl ErrQueueSize
      else Inr \<lparr>queueSize = n, messageSeq = 0, objs = (\<lambda>_. None), streams = []\<rparr>)"

definition QueueSize :: "stream_registry option \<Rightarrow> int" where
  "QueueSize r = (case r of None \<Rightarrow> 0 | Some x \<Rightarrow> queueSize x)"

definition Unregister_stream :: "sid \<Rightarrow> stream_registry \<Rightarrow> stream_registry" where
  "Unregister_stream i r = r\<lparr>streams := filter (\<lambda>j. j \<noteq> i) (streams r)\<rparr>"

text \<open>\<^verbatim>\<open>Close\<close> and \<^verbatim>\<open>Unregister\<close> of a stream share one \<^verbatim>\<open>sync.Once\<close>.\<close>

definition stream_Close :: "sid \<Rightarrow> stream_registry \<Rightarrow> stream_registry" where
  "stream_Close i r =
     (case objs r i of None \<Rightarrow> r
      | Some s \<Rightarrow>
        if s_done s then r
        else Unregister_stream i (r\<lparr>objs := (objs r)(i \<mapsto>
          s\<lparr>s_done := True, s_out := (s_out s)\<lparr>ob_cancelled := ob_cancelled (s_out s) \<or> s_closer s\<rparr>\<rparr>)\<rparr>))"

definition stream_Unregister :: "sid \<Rightarrow> stream_registry \<Rightarrow> stream_registry" where
  "stream_Unregister i r =
     (case objs r i of None \<Rightarrow> r
      | Some s \<Rightarrow> if s_done s then r else Unregister_stream i (r\<lparr>objs := (objs r)(i \<mapsto> s\<lparr>s_done := True\<rparr>)\<rparr>))"

section \<open>Messages\<close>

definition nextMessageID :: "stream_registry \<Rightarrow> stream_registry \<times> string" where
  "nextMessageID r = (let n = messageSeq r + 1 in (r\<lparr>messageSeq := n\<rparr>, ''NODE-'' @ dec_pad 12 (unat n)))"

text \<open>Marshalling these payloads cannot fail.\<close>

definition snapshotEnvelope :: "string \<Rightarrow> snapshot \<Rightarrow> stream_registry \<Rightarrow> stream_registry \<times> envelope" where
  "snapshotEnvelope now s r =
     (let (r', mid) = nextMessageID r in (r', NewEnvelope now mid MessageEvent (Some (json_text (snapshot_json s)))))"

definition eventEnvelope :: "string \<Rightarrow> node_change_batch \<Rightarrow> stream_registry \<Rightarrow> stream_registry \<times> envelope" where
  "eventEnvelope now b r =
     (let (r', mid) = nextMessageID r in (r', NewEnvelope now mid MessageEvent (Some (json_text (batch_json b)))))"

section \<open>Registration and publication\<close>

text \<open>
  \<^verbatim>\<open>Register\<close> inside the snapshot boundary, for the snapshot taken there; \<open>i\<close> is the address of the
  new stream object. Without a sender the connection is closed, which the caller sees as no stream.
\<close>

definition Register_stream ::
  "bool \<Rightarrow> string \<Rightarrow> sid \<Rightarrow> outbox option \<Rightarrow> bool \<Rightarrow> snapshot \<Rightarrow> stream_registry \<Rightarrow> stream_registry \<times> sid option" where
  "Register_stream pick now i out closer snap r =
     (case out of None \<Rightarrow> (r, None)
      | Some ob \<Rightarrow>
        (let (r1, envelope) = snapshotEnvelope now snap r;
             (s, ok) = stream_enqueue pick envelope (newNodeStream ob closer);
             r2 = r1\<lparr>objs := (objs r1)(i \<mapsto> s), streams := i # streams r1\<rparr>
         in
         if \<not> ok then (stream_Close i (Unregister_stream i r2), None)
         else (r2, Some i)))"

definition batch_valid :: "node_change_batch \<Rightarrow> bool" where
  "batch_valid b \<longleftrightarrow> \<not> (bat_Resource b \<noteq> ''node'' \<or> bat_Event b \<noteq> ''changes'' \<or> bat_Generation b = 0 \<or> length (bat_Changes b) = 0)"

text \<open>The loop over the streams, and then the closing of those whose queue was full or whose connection had ended.\<close>

fun publish_loop :: "(sid \<Rightarrow> bool) \<Rightarrow> envelope \<Rightarrow> sid list \<Rightarrow> stream_registry \<Rightarrow> stream_registry \<times> sid list" where
  "publish_loop picks e [] r = (r, [])"
| "publish_loop picks e (i # js) r =
     (case objs r i of
        None \<Rightarrow> publish_loop picks e js r
      | Some s \<Rightarrow>
        (let (s', ok) = stream_enqueue (picks i) e s;
             r1 = r\<lparr>objs := (objs r)(i \<mapsto> s')\<rparr>;
             r2 = (if ok then r1 else Unregister_stream i r1);
             (r3, slow) = publish_loop picks e js r2
         in (r3, if ok then slow else i # slow)))"

definition Publish :: "(sid \<Rightarrow> bool) \<Rightarrow> string \<Rightarrow> node_change_batch \<Rightarrow> stream_registry option \<Rightarrow> stream_registry option" where
  "Publish picks now b r =
     (case r of None \<Rightarrow> None
      | Some r0 \<Rightarrow>
        if \<not> batch_valid b then Some r0
        else
          (let (r1, envelope) = eventEnvelope now b r0;
               (r2, slow) = publish_loop picks envelope (streams r1) r1
           in Some (fold stream_Close slow r2)))"

definition CloseAll_streams :: "stream_registry option \<Rightarrow> stream_registry option" where
  "CloseAll_streams r =
     (case r of None \<Rightarrow> None
      | Some r0 \<Rightarrow> Some (fold stream_Close (streams r0) (r0\<lparr>streams := []\<rparr>)))"

definition ActiveCount :: "stream_registry \<Rightarrow> nat" where
  "ActiveCount r = length (streams r)"

end
