(* ===== verification/Node_Props.thy ===== *)
theory Node_Props
  imports Node
begin

text \<open>
  Correctness of the node cache: the change batch of a commit is exactly the difference between the
  old and the new snapshot, in the order of the identities, and whoever applies it to the old nodes
  has the new ones.
\<close>

section \<open>Go maps\<close>

lemma map_of_replace:
  "map_of (map (\<lambda>e. if fst e = k then (k, v) else e) m) j = (if j = k then map_option (\<lambda>_. v) (map_of m k) else map_of m j)"
  by (induction m) auto

lemma map_of_put [simp]: "map_of (map_put k v m) = (map_of m)(k \<mapsto> v)"
proof
  fix j
  show "map_of (map_put k v m) j = ((map_of m)(k \<mapsto> v)) j"
    using map_of_replace [of k v m j] by (cases "map_of m k") (auto simp: map_put_def map_add_def split: option.splits)
qed

lemma unique_put: "tab_unique fst m \<Longrightarrow> tab_unique fst (map_put k v m)"
  using tab_unique_map [of m fst "\<lambda>e. if fst e = k then (k, v) else e"]
  by (auto simp: map_put_def tab_unique_append map_of_eq_None_iff)

lemma map_of_unique: "tab_unique fst m \<Longrightarrow> map_of m k = Some v \<longleftrightarrow> (k, v) \<in> set m"
  by (simp add: tab_unique_def)

definition keyed :: "(string \<times> node) list \<Rightarrow> bool" where
  "keyed m \<longleftrightarrow> tab_unique fst m \<and> (\<forall>(i, n) \<in> set m. Identity n = i)"

lemma keyed_Nil [simp]: "keyed []"
  by (simp add: keyed_def)

lemma keyed_put: "keyed m \<Longrightarrow> keyed (map_put (Identity n) n m)"
  using unique_put [of m "Identity n" n] by (auto simp: keyed_def map_put_def split: if_splits)

lemma keyed_incoming: "keyed (incoming_map nodes)"
proof -
  have "keyed m \<Longrightarrow> keyed (fold (\<lambda>n. map_put (Identity n) n) nodes m)" for m
    by (induction nodes arbitrary: m) (auto intro: keyed_put)
  then show ?thesis by (simp add: incoming_map_def)
qed

lemma keyed_get: "keyed m \<Longrightarrow> map_of m i = Some n \<Longrightarrow> Identity n = i"
  by (auto simp: keyed_def map_of_unique)

text \<open>The last node of each identity wins; a validated snapshot has no two.\<close>

lemma map_of_incoming: "map_of (incoming_map nodes) = fold (\<lambda>n m. m(Identity n \<mapsto> n)) nodes Map.empty"
proof -
  have "map_of (fold (\<lambda>n. map_put (Identity n) n) nodes m) = fold (\<lambda>n m. m(Identity n \<mapsto> n)) nodes (map_of m)" for m
    by (induction nodes arbitrary: m) simp_all
  from this [of "[]"] show ?thesis by (simp add: incoming_map_def)
qed

section \<open>Identities and stamps\<close>

lemma Identity_stamp [simp]: "Identity (set_generation g n) = Identity n"
  by (simp add: Identity_def set_generation_def)

lemma stamp_change_simps [simp]:
  "chg_Kind (stamp_change g c) = chg_Kind c" "Identity (chg_Node (stamp_change g c)) = Identity (chg_Node c)"
  by (simp_all add: stamp_change_def)

abbreviation change_id :: "node_change \<Rightarrow> string" where
  "change_id c \<equiv> Identity (chg_Node c)"

section \<open>The difference of two snapshots\<close>

text \<open>The specification: what happened to one identity.\<close>

definition node_diff :: "node option \<Rightarrow> node option \<Rightarrow> node_change option" where
  "node_diff old new =
     (case (old, new) of
        (None, None) \<Rightarrow> None
      | (None, Some n) \<Rightarrow> Some \<lparr>chg_Kind = NodeAdded, chg_Node = n\<rparr>
      | (Some n, None) \<Rightarrow> Some \<lparr>chg_Kind = NodeRemoved, chg_Node = n\<rparr>
      | (Some prev, Some n) \<Rightarrow> if sameNodeState prev n then None else Some \<lparr>chg_Kind = NodeUpdated, chg_Node = n\<rparr>)"

lemma raw_changes_diff:
  assumes "keyed old" "keyed new"
  shows "c \<in> set (raw_changes old new) \<longleftrightarrow> node_diff (map_of old (change_id c)) (map_of new (change_id c)) = Some c"
proof -
  have u: "tab_unique fst old" "tab_unique fst new" using assms by (auto simp: keyed_def)
  note g = keyed_get [OF assms(1)] keyed_get [OF assms(2)]
  have mem: "c \<in> set (concat (map (\<lambda>(i, n). F i n) m)) \<longleftrightarrow> (\<exists>i n. map_of m i = Some n \<and> c \<in> set (F i n))"
    if "tab_unique fst m" for F :: "string \<Rightarrow> node \<Rightarrow> node_change list" and m
    using that by (auto simp: map_of_unique)
  have new: "c \<in> set (case map_of old i of None \<Rightarrow> [\<lparr>chg_Kind = NodeAdded, chg_Node = n\<rparr>]
      | Some prev \<Rightarrow> if \<not> sameNodeState prev n then [\<lparr>chg_Kind = NodeUpdated, chg_Node = n\<rparr>] else []) \<longleftrightarrow>
      node_diff (map_of old i) (Some n) = Some c" for i n
    by (auto simp: node_diff_def split: option.splits)
  have "c \<in> set (raw_changes old new) \<longleftrightarrow>
      (\<exists>i n. map_of new i = Some n \<and> node_diff (map_of old i) (Some n) = Some c) \<or>
      (\<exists>i n. map_of old i = Some n \<and> map_of new i = None \<and> c = \<lparr>chg_Kind = NodeRemoved, chg_Node = n\<rparr>)"
    unfolding raw_changes_def set_append Un_iff mem [OF u(1)] mem [OF u(2)] new by auto
  also have "\<dots> \<longleftrightarrow> node_diff (map_of old (change_id c)) (map_of new (change_id c)) = Some c"
  proof
    assume "(\<exists>i n. map_of new i = Some n \<and> node_diff (map_of old i) (Some n) = Some c) \<or>
      (\<exists>i n. map_of old i = Some n \<and> map_of new i = None \<and> c = \<lparr>chg_Kind = NodeRemoved, chg_Node = n\<rparr>)"
    then show "node_diff (map_of old (change_id c)) (map_of new (change_id c)) = Some c"
    proof
      assume "\<exists>i n. map_of new i = Some n \<and> node_diff (map_of old i) (Some n) = Some c"
      then obtain i n where i: "map_of new i = Some n" "node_diff (map_of old i) (Some n) = Some c" by blast
      then have "chg_Node c = n" by (auto simp: node_diff_def split: option.splits if_splits)
      then have "change_id c = i" using g(2) [OF i(1)] by simp
      with i show ?thesis by simp
    next
      assume "\<exists>i n. map_of old i = Some n \<and> map_of new i = None \<and> c = \<lparr>chg_Kind = NodeRemoved, chg_Node = n\<rparr>"
      then show ?thesis using g(1) by (auto simp: node_diff_def)
    qed
  next
    assume d: "node_diff (map_of old (change_id c)) (map_of new (change_id c)) = Some c"
    show "(\<exists>i n. map_of new i = Some n \<and> node_diff (map_of old i) (Some n) = Some c) \<or>
      (\<exists>i n. map_of old i = Some n \<and> map_of new i = None \<and> c = \<lparr>chg_Kind = NodeRemoved, chg_Node = n\<rparr>)"
    proof (cases "map_of new (change_id c)")
      case None
      with d show ?thesis by (cases "map_of old (change_id c)") (auto simp: node_diff_def)
    next
      case (Some n)
      with d show ?thesis by metis
    qed
  qed
  finally show ?thesis .
qed

lemma concat_ids:
  assumes "tab_unique fst m" "\<And>i n. (i, n) \<in> set m \<Longrightarrow> F i n = [] \<or> (\<exists>c. F i n = [c] \<and> change_id c = i)"
  shows "tab_unique change_id (concat (map (\<lambda>(i, n). F i n) m)) \<and> change_id ` set (concat (map (\<lambda>(i, n). F i n) m)) \<subseteq> fst ` set m"
  using assms
proof (induction m)
  case (Cons e m)
  obtain i n where e: "e = (i, n)" by (cases e)
  have IH: "tab_unique change_id (concat (map (\<lambda>(i, n). F i n) m))"
    "change_id ` set (concat (map (\<lambda>(i, n). F i n) m)) \<subseteq> fst ` set m"
    using Cons by auto
  have "F i n = [] \<or> (\<exists>c. F i n = [c] \<and> change_id c = i)" using Cons.prems(2) e by simp
  then show ?case
  proof
    assume "F i n = []"
    then show ?thesis using IH e by (simp add: subset_insertI2)
  next
    assume "\<exists>c. F i n = [c] \<and> change_id c = i"
    then obtain c where c: "F i n = [c]" "change_id c = i" by blast
    have "i \<notin> fst ` set m" using Cons.prems(1) e by simp
    then have "i \<notin> change_id ` set (concat (map (\<lambda>(i, n). F i n) m))" using IH(2) by blast
    with IH e c show ?thesis by (simp add: subset_insertI2)
  qed
qed simp

lemma unique_apart:
  "tab_unique key xs \<Longrightarrow> key ` set xs \<subseteq> A \<Longrightarrow> tab_unique key ys \<Longrightarrow> (\<And>y. y \<in> set ys \<Longrightarrow> key y \<notin> A) \<Longrightarrow>
   tab_unique key (xs @ ys)"
  by (auto simp: tab_unique_append)

lemma raw_changes_unique:
  assumes "keyed old" "keyed new"
  shows "tab_unique change_id (raw_changes old new)"
proof -
  let ?F = "\<lambda>i n. case map_of old i of None \<Rightarrow> [\<lparr>chg_Kind = NodeAdded, chg_Node = n\<rparr>]
      | Some prev \<Rightarrow> if \<not> sameNodeState prev n then [\<lparr>chg_Kind = NodeUpdated, chg_Node = n\<rparr>] else []"
  let ?G = "\<lambda>i n. if map_of new i = None then [\<lparr>chg_Kind = NodeRemoved, chg_Node = n\<rparr>] else []"
  have u: "tab_unique fst old" "tab_unique fst new" using assms by (auto simp: keyed_def)
  have "?F i n = [] \<or> (\<exists>c. ?F i n = [c] \<and> change_id c = i)" if "(i, n) \<in> set new" for i n
    using that assms(2) by (auto simp: keyed_def split: option.splits)
  note F = concat_ids [OF u(2), of ?F, OF this]
  have "?G i n = [] \<or> (\<exists>c. ?G i n = [c] \<and> change_id c = i)" if "(i, n) \<in> set old" for i n
    using that assms(1) by (auto simp: keyed_def)
  note G = concat_ids [OF u(1), of ?G, OF this]
  have "change_id c \<notin> fst ` set new" if c: "c \<in> set (concat (map (\<lambda>(i, n). ?G i n) old))" for c
  proof -
    obtain i n where i: "(i, n) \<in> set old" "map_of new i = None" "c = \<lparr>chg_Kind = NodeRemoved, chg_Node = n\<rparr>"
      using c by (auto split: if_splits)
    then have "change_id c = i" using assms(1) by (auto simp: keyed_def)
    with i(2) show ?thesis by (simp add: map_of_eq_None_iff)
  qed
  from unique_apart [OF conjunct1 [OF F] conjunct2 [OF F] conjunct1 [OF G] this] show ?thesis
    unfolding raw_changes_def .
qed

lemma sameNodeState_simps [simp]:
  "sameNodeState n n" "sameNodeState m (set_generation g n) = sameNodeState m n"
  by (simp_all add: sameNodeState_def set_generation_def)

lemma map_of_updated:
  "map_of (updated_nodes g old new) i =
     (case map_of new i of None \<Rightarrow> None
      | Some n \<Rightarrow> Some (case map_of old i of Some prev \<Rightarrow> if sameNodeState prev n then prev else set_generation g n
                       | None \<Rightarrow> set_generation g n))"
proof -
  have "map_of (map (\<lambda>(i, n). (i, f i n)) new) i = map_option (f i) (map_of new i)" for f :: "string \<Rightarrow> node \<Rightarrow> node"
    by (induction new) auto
  from this [of "\<lambda>i n. case map_of old i of Some prev \<Rightarrow> if sameNodeState prev n then prev else set_generation g n
      | None \<Rightarrow> set_generation g n"]
  show ?thesis unfolding updated_nodes_def by (simp split: option.splits)
qed

lemma keyed_updated: "keyed old \<Longrightarrow> keyed new \<Longrightarrow> keyed (updated_nodes g old new)"
  unfolding keyed_def updated_nodes_def
  by (auto simp: tab_unique_def comp_def case_prod_beta split: option.splits dest: map_of_SomeD)

lemma diff_updated:
  "node_diff (map_of old i) (map_of (updated_nodes g old new) i) = map_option (stamp_change g) (node_diff (map_of old i) (map_of new i))"
  by (auto simp: map_of_updated node_diff_def stamp_change_def split: option.splits)

lemma diff_id: "keyed old \<Longrightarrow> keyed new \<Longrightarrow> node_diff (map_of old i) (map_of new i) = Some c \<Longrightarrow> change_id c = i"
  by (auto simp: node_diff_def dest: keyed_get split: option.splits if_splits)

lemma diff_None: "node_diff a b = None \<longleftrightarrow> rel_option sameNodeState a b"
  by (cases a; cases b) (auto simp: node_diff_def)

lemma diff_effect:
  "node_diff a b = Some c \<Longrightarrow> (if chg_Kind c = NodeRemoved then None else Some (chg_Node c)) = b"
  by (auto simp: node_diff_def split: option.splits if_splits)

lemma updated_same:
  "node_diff (map_of old i) (map_of (updated_nodes g old new) i) = None \<Longrightarrow> map_of (updated_nodes g old new) i = map_of old i"
  by (auto simp: map_of_updated node_diff_def split: option.splits if_splits)

section \<open>Applying a batch\<close>

text \<open>What a client does with a change: nodes by identity.\<close>

definition apply_change :: "node_change \<Rightarrow> (string \<rightharpoonup> node) \<Rightarrow> (string \<rightharpoonup> node)" where
  "apply_change c m = m(change_id c := (if chg_Kind c = NodeRemoved then None else Some (chg_Node c)))"

lemma fold_apply_change:
  "tab_unique change_id cs \<Longrightarrow>
   fold apply_change cs m i =
     (case tab_find change_id i cs of None \<Rightarrow> m i
      | Some c \<Rightarrow> if chg_Kind c = NodeRemoved then None else Some (chg_Node c))"
proof (induction cs arbitrary: m)
  case (Cons c cs)
  have "change_id c = i \<Longrightarrow> tab_find change_id i cs = None" using Cons.prems by (auto simp: tab_find_None_iff)
  with Cons show ?case by (auto simp: apply_change_def)
qed simp

text \<open>A commit that changes something, seen through the identities.\<close>

lemma replaceSnapshot_batch:
  assumes "keyed (cached c)" "replaceSnapshot nodes c = (c', Some b)"
  shows "bat_Resource b = ''node'' \<and> bat_Event b = ''changes'' \<and> bat_Changes b \<noteq> []"
    "generation c' = generation c + 1" "bat_Generation b = generation c'" "keyed (cached c')"
    "sorted_wrt (\<lambda>x y. change_id x < change_id y) (bat_Changes b)"
    "ch \<in> set (bat_Changes b) \<longleftrightarrow> node_diff (map_of (cached c) (change_id ch)) (map_of (cached c') (change_id ch)) = Some ch"
    "fold apply_change (bat_Changes b) (map_of (cached c)) = map_of (cached c')"
proof -
  let ?new = "incoming_map nodes" and ?old = "cached c" and ?g = "generation c + 1"
  let ?cs = "sortNodeChanges (map (stamp_change ?g) (raw_changes ?old ?new))"
  from assms(2) have r: "raw_changes ?old ?new \<noteq> []" "c' = c\<lparr>generation := ?g, cached := updated_nodes ?g ?old ?new\<rparr>"
      "b = \<lparr>bat_Resource = ''node'', bat_Event = ''changes'', bat_Generation = ?g, bat_Changes = ?cs\<rparr>"
    by (auto simp: replaceSnapshot_def Let_def split: if_splits)
  have "set ?cs \<noteq> {}" using r(1) by (simp add: sortNodeChanges_def)
  then have "?cs \<noteq> []" by force
  then show "bat_Resource b = ''node'' \<and> bat_Event b = ''changes'' \<and> bat_Changes b \<noteq> []" by (simp add: r(3))
  show "generation c' = generation c + 1" "bat_Generation b = generation c'" and k: "keyed (cached c')"
    using r keyed_updated [OF assms(1) keyed_incoming] by (auto simp: sortNodeChanges_def)
  have "tab_unique change_id (map (stamp_change ?g) (raw_changes ?old ?new))"
    using raw_changes_unique [OF assms(1) keyed_incoming] by (subst tab_unique_map) auto
  then have u: "tab_unique change_id ?cs" unfolding tab_unique_def sortNodeChanges_def distinct_map [of change_id]
    by simp
  show "sorted_wrt (\<lambda>x y. change_id x < change_id y) (bat_Changes b)"
    using u sorted_sort_key [of change_id "map (stamp_change ?g) (raw_changes ?old ?new)"] strict_sorted_iff [of "map change_id ?cs"]
    by (simp add: r(3) tab_unique_def sortNodeChanges_def sorted_wrt_map)
  have mem: "ch \<in> set ?cs \<longleftrightarrow> node_diff (map_of ?old (change_id ch)) (map_of (cached c') (change_id ch)) = Some ch" for ch
  proof -
    have "ch \<in> set ?cs \<longleftrightarrow> (\<exists>c0. node_diff (map_of ?old (change_id c0)) (map_of ?new (change_id c0)) = Some c0 \<and> ch = stamp_change ?g c0)"
      using raw_changes_diff [OF assms(1) keyed_incoming, of _ nodes] by (auto simp: sortNodeChanges_def)
    also have "\<dots> \<longleftrightarrow> map_option (stamp_change ?g) (node_diff (map_of ?old (change_id ch)) (map_of ?new (change_id ch))) = Some ch"
      using raw_changes_diff [OF assms(1) keyed_incoming, of _ nodes] by auto
    finally show ?thesis using r(2) by (simp add: diff_updated)
  qed
  then show "ch \<in> set (bat_Changes b) \<longleftrightarrow> node_diff (map_of (cached c) (change_id ch)) (map_of (cached c') (change_id ch)) = Some ch"
    by (simp add: r(3))
  show "fold apply_change (bat_Changes b) (map_of (cached c)) = map_of (cached c')"
  proof
    fix i
    show "fold apply_change (bat_Changes b) (map_of (cached c)) i = map_of (cached c') i"
    proof (cases "tab_find change_id i ?cs")
      case None
      then have "node_diff (map_of ?old i) (map_of (cached c') i) \<noteq> Some ch" for ch
        using mem [of ch] diff_id [OF assms(1) k, of i ch] by (auto simp: tab_find_None_iff)
      then have "node_diff (map_of ?old i) (map_of (updated_nodes ?g ?old ?new) i) = None" using r(2) by auto
      from updated_same [OF this] None show ?thesis using fold_apply_change [OF u, of "map_of ?old" i] by (simp add: r(2,3))
    next
      case (Some ch)
      then have "node_diff (map_of ?old i) (map_of (cached c') i) = Some ch" using mem [of ch] tab_find_SomeD by fastforce
      from diff_effect [OF this] Some show ?thesis using fold_apply_change [OF u, of "map_of ?old" i] by (simp add: r(3))
    qed
  qed
qed

section \<open>Validated snapshots\<close>

lemma validate_from_None:
  "validate_from i seen ns = None \<longleftrightarrow>
     [] \<notin> set (map Identity ns) \<and> distinct (map Identity ns) \<and> set (map Identity ns) \<inter> seen = {}"
  by (induction ns arbitrary: i seen) auto

lemma validate_None: "validateNodeSnapshot ns = None \<longleftrightarrow> [] \<notin> Identity ` set ns \<and> tab_unique Identity ns"
  by (simp add: validateNodeSnapshot_def validate_from_None tab_unique_def)

lemma fold_node_map:
  "tab_unique Identity ns \<Longrightarrow>
   fold (\<lambda>n m. m(Identity n \<mapsto> n)) ns m i = (case tab_find Identity i ns of None \<Rightarrow> m i | Some n \<Rightarrow> Some n)"
proof (induction ns arbitrary: m)
  case (Cons n ns)
  have "Identity n = i \<Longrightarrow> tab_find Identity i ns = None" using Cons.prems by (auto simp: tab_find_None_iff)
  with Cons show ?case by auto
qed simp

lemma incoming_validated:
  "validateNodeSnapshot ns = None \<Longrightarrow> map_of (incoming_map ns) i = tab_find Identity i ns"
  using fold_node_map [of ns Map.empty i] by (simp add: validate_None map_of_incoming split: option.splits)

text \<open>After a commit every cached node has the state of the committed one, and there are no others.\<close>

lemma replaceSnapshot_state:
  assumes "keyed (cached c)" "replaceSnapshot nodes c = (c', res)"
  shows "rel_option sameNodeState (map_of (cached c') i) (map_of (incoming_map nodes) i)" "keyed (cached c')"
proof -
  show "keyed (cached c')"
    using replaceSnapshot_batch(4) [OF assms(1)] assms by (cases res) (auto simp: replaceSnapshot_def Let_def split: if_splits)
  show "rel_option sameNodeState (map_of (cached c') i) (map_of (incoming_map nodes) i)"
  proof (cases res)
    case None
    then have r: "raw_changes (cached c) (incoming_map nodes) = []" "c' = c"
      using assms(2) by (auto simp: replaceSnapshot_def Let_def split: if_splits)
    have "node_diff (map_of (cached c) i) (map_of (incoming_map nodes) i) \<noteq> Some ch" for ch
      using raw_changes_diff [OF assms(1) keyed_incoming, of ch nodes] diff_id [OF assms(1) keyed_incoming, of i nodes ch] r(1) by auto
    then have "node_diff (map_of (cached c) i) (map_of (incoming_map nodes) i) = None" by auto
    then show ?thesis using r(2) by (simp add: diff_None)
  next
    case (Some b)
    then have "cached c' = updated_nodes (generation c + 1) (cached c) (incoming_map nodes)"
      using assms(2) by (auto simp: replaceSnapshot_def Let_def split: if_splits)
    then show ?thesis by (auto simp: map_of_updated sameNodeState_def set_generation_def split: option.splits)
  qed
qed

section \<open>Properties\<close>

definition sample_node :: "string \<Rightarrow> string \<Rightarrow> node" where
  "sample_node name state =
     (NewNode ''2026-01-01T00:00:00Z'' name 0)\<lparr>NStatus := \<lparr>st_State = state, st_StateFlags = [], st_Reason = []\<rparr>\<rparr>"

definition sample_cache :: node_cache where
  "sample_cache = \<lparr>generation = 7, cached = [(''b'', sample_node ''b'' ''IDLE''), (''a'', sample_node ''a'' ''IDLE'')]\<rparr>"

lemma sample_node_simps [simp]: "Identity (sample_node (x # xs) s) = x # xs" "st_State (NStatus (sample_node n s)) = s"
  by (simp_all add: sample_node_def NewNode_def Identity_def)

lemma sample_cache_keyed: "keyed (cached sample_cache)"
  by (simp add: sample_cache_def keyed_def)

text \<open>
  C17: Committing a snapshot reports exactly the difference between the old and the new nodes: the
  batch holds one change for each identity that was added, removed or whose state differs and none
  for the others, in strictly increasing order of the identities whatever order the maps were
  visited in; applying it to the old nodes gives exactly the new ones; and it carries the next
  generation. A commit without differences leaves the cache and its generation alone.\<close>

theorem commit_reports_difference:
  assumes "keyed (cached c)" "replaceSnapshot nodes c = (c', res)"
  shows "(res = None \<longrightarrow> c' = c \<and>
       (\<forall>i. rel_option sameNodeState (map_of (cached c) i) (map_of (incoming_map nodes) i))) \<and>
     (\<forall>b. res = Some b \<longrightarrow>
       bat_Generation b = generation c + 1 \<and> generation c' = generation c + 1 \<and> bat_Changes b \<noteq> [] \<and>
       sorted_wrt (\<lambda>x y. change_id x < change_id y) (bat_Changes b) \<and>
       (\<forall>ch. ch \<in> set (bat_Changes b) \<longleftrightarrow>
          node_diff (map_of (cached c) (change_id ch)) (map_of (cached c') (change_id ch)) = Some ch) \<and>
       fold apply_change (bat_Changes b) (map_of (cached c)) = map_of (cached c'))"
proof (cases res)
  case None
  then have "c' = c" using assms(2) by (auto simp: replaceSnapshot_def Let_def split: if_splits)
  then show ?thesis using None replaceSnapshot_state(1) [OF assms] by simp
next
  case (Some b)
  note r = replaceSnapshot_batch [OF assms(1) assms(2) [unfolded Some]]
  show ?thesis using Some r by simp
qed

theorem commit_reports_difference_witness:
  "\<exists>c' b. replaceSnapshot [sample_node ''c'' ''IDLE'', sample_node ''a'' ''DOWN''] sample_cache = (c', Some b) \<and>
     map chg_Kind (bat_Changes b) = [NodeUpdated, NodeRemoved, NodeAdded] \<and>
     fold apply_change (bat_Changes b) (map_of (cached sample_cache)) = map_of (cached c')"
proof -
  obtain c' b where r: "replaceSnapshot [sample_node ''c'' ''IDLE'', sample_node ''a'' ''DOWN''] sample_cache = (c', Some b)"
      "map chg_Kind (bat_Changes b) = [NodeUpdated, NodeRemoved, NodeAdded]"
    by (simp add: replaceSnapshot_def sample_cache_def incoming_map_def raw_changes_def map_put_def sameNodeState_def
        sortNodeChanges_def stamp_change_def Let_def)
  have "fold apply_change (bat_Changes b) (map_of (cached sample_cache)) = map_of (cached c')"
    using commit_reports_difference [OF sample_cache_keyed r(1)] by simp
  with r show ?thesis by (intro exI [of _ c'] exI [of _ b] conjI)
qed

text \<open>
  C38: A refresh is all or nothing. When the adapter fails, the context has ended, or a node has no
  identity or one that another node has, the cache and the publisher stay as they were. Otherwise the
  cache holds exactly the listed nodes, and the publisher was given the one batch of the commit, or
  nothing if nothing changed.\<close>

theorem Refresh_all_or_nothing:
  assumes "keyed (cached c)" "Refresh (Some s) publisher nodes ctx_done (c, p) = ((c', p'), err)"
  shows "keyed (cached c') \<and>
    (err \<noteq> None \<longrightarrow> c' = c \<and> p' = p) \<and>
    (err = None \<longleftrightarrow> (\<exists>ns. nodes = Inr ns \<and> \<not> ctx_done \<and> [] \<notin> Identity ` set ns \<and> tab_unique Identity ns)) \<and>
    (\<forall>ns. err = None \<and> nodes = Inr ns \<longrightarrow>
       (\<forall>i. rel_option sameNodeState (map_of (cached c') i) (tab_find Identity i ns)) \<and>
       (case snd (replaceSnapshot ns c) of None \<Rightarrow> c' = c \<and> p' = p
        | Some b \<Rightarrow> p' = (case publisher of None \<Rightarrow> p | Some publish \<Rightarrow> publish b p)))"
proof (cases "\<exists>ns. nodes = Inr ns \<and> \<not> ctx_done \<and> validateNodeSnapshot ns = None")
  case True
  then obtain ns where ns: "nodes = Inr ns" "\<not> ctx_done" "validateNodeSnapshot ns = None" by blast
  obtain c1 res where r: "replaceSnapshot ns c = (c1, res)" by fastforce
  have c1: "c' = c1" "err = None" "p' = (case res of None \<Rightarrow> p | Some b \<Rightarrow> (case publisher of None \<Rightarrow> p | Some publish \<Rightarrow> publish b p))"
    using assms(2) ns r by (auto simp: Refresh_def ReplaceSnapshotAndPublish_def split: option.splits)
  moreover have "res = None \<Longrightarrow> c1 = c" using r by (auto simp: replaceSnapshot_def Let_def split: if_splits)
  ultimately show ?thesis
    using ns r replaceSnapshot_state [OF assms(1) r] incoming_validated [OF ns(3)] ns(3)
    by (auto simp: validate_None split: option.splits)
next
  case False
  then have "c' = c" "p' = p" "err \<noteq> None"
    using assms(2) by (auto simp: Refresh_def split: sum.splits if_splits option.splits dest: sym)
  then show ?thesis using assms(1) False by (auto simp: validate_None)
qed

theorem Refresh_all_or_nothing_witness:
  "Refresh (Some \<lparr>sync_interval = 5\<rparr>) (Some (\<lambda>b p. b # p)) (Inr [sample_node ''a'' ''IDLE'', sample_node ''a'' ''DOWN'']) False
     (sample_cache, []) = ((sample_cache, []), Some (ErrDuplicateNode ''a'')) \<and>
   (\<exists>c' b. Refresh (Some \<lparr>sync_interval = 5\<rparr>) (Some (\<lambda>b p. b # p)) (Inr [sample_node ''a'' ''DOWN'']) False (sample_cache, []) =
      ((c', [b]), None) \<and> map_of (cached c') ''b'' = None)"
proof -
  have 1: "Refresh (Some \<lparr>sync_interval = 5\<rparr>) (Some (\<lambda>b p. b # p)) (Inr [sample_node ''a'' ''IDLE'', sample_node ''a'' ''DOWN'']) False
     (sample_cache, []) = ((sample_cache, []), Some (ErrDuplicateNode ''a''))"
    by (simp add: Refresh_def validateNodeSnapshot_def)
  obtain c' b where 2: "Refresh (Some \<lparr>sync_interval = 5\<rparr>) (Some (\<lambda>b p. b # p)) (Inr [sample_node ''a'' ''DOWN'']) False
      (sample_cache, []) = ((c', [b]), None)"
    by (simp add: Refresh_def validateNodeSnapshot_def ReplaceSnapshotAndPublish_def replaceSnapshot_def sample_cache_def
        incoming_map_def raw_changes_def map_put_def sameNodeState_def Let_def)
  have "rel_option sameNodeState (map_of (cached c') ''b'') (tab_find Identity ''b'' [sample_node ''a'' ''DOWN''])"
    using Refresh_all_or_nothing [OF sample_cache_keyed 2] by blast
  then have "map_of (cached c') ''b'' = None" by simp
  with 1 2 show ?thesis by blast
qed

text \<open>The generation counts the commits; no node is newer than the cache.\<close>

definition generations_ok :: "nat \<Rightarrow> node_cache \<Rightarrow> bool" where
  "generations_ok k c \<longleftrightarrow> keyed (cached c) \<and> unat (generation c) \<le> k \<and>
     (\<forall>(i, n) \<in> set (cached c). meta_Generation (Metadata n) \<le> generation c)"

lemma replaceSnapshot_generations:
  assumes "generations_ok k c" "replaceSnapshot nodes c = (c', res)" "k < 2 ^ 64 - 1"
  shows "generations_ok (Suc k) c'" "generation c \<le> generation c'"
    "res \<noteq> None \<Longrightarrow> unat (generation c') = unat (generation c) + 1"
proof -
  have k: "keyed (cached c)" using assms(1) by (simp add: generations_ok_def)
  have kc: "keyed (cached c')" using replaceSnapshot_state(2) [OF k assms(2)] .
  have n: "unat (generation c + 1) = unat (generation c) + 1"
    using assms(1,3) by (simp add: generations_ok_def unat_word_ariths)
  then have lt: "generation c \<le> generation c + 1" by (simp add: word_le_nat_alt)
  show "res \<noteq> None \<Longrightarrow> unat (generation c') = unat (generation c) + 1"
    using replaceSnapshot_batch(2) [OF k] assms(2) n by (cases res) auto
  show "generation c \<le> generation c'"
    using assms(2) lt by (auto simp: replaceSnapshot_def Let_def split: if_splits)
  show "generations_ok (Suc k) c'"
  proof (cases res)
    case None
    then show ?thesis using assms by (auto simp: replaceSnapshot_def Let_def generations_ok_def split: if_splits)
  next
    case (Some b)
    then have u: "cached c' = updated_nodes (generation c + 1) (cached c) (incoming_map nodes)" "generation c' = generation c + 1"
      using assms(2) by (auto simp: replaceSnapshot_def Let_def split: if_splits)
    have "meta_Generation (Metadata n) \<le> generation c + 1" if "(i, n) \<in> set (cached c')" for i n
    proof -
      have "map_of (cached c') i = Some n" using that kc by (simp add: keyed_def map_of_unique)
      then have "n = set_generation (generation c + 1) n \<or> map_of (cached c) i = Some n"
        unfolding u map_of_updated by (auto simp: set_generation_def split: option.splits if_splits)
      then show ?thesis
      proof
        assume "n = set_generation (generation c + 1) n"
        then have "meta_Generation (Metadata n) = generation c + 1"
          by (metis node.select_convs(1) node.surjective node.update_convs(1) node_metadata.select_convs(3) node_metadata.surjective
              node_metadata.update_convs(3) set_generation_def)
        then show ?thesis by simp
      next
        assume "map_of (cached c) i = Some n"
        then have "(i, n) \<in> set (cached c)" by (rule map_of_SomeD)
        then have "meta_Generation (Metadata n) \<le> generation c" using assms(1) by (auto simp: generations_ok_def)
        then show ?thesis using lt by (rule order_trans)
      qed
    qed
    then show ?thesis using kc n u(2) assms(1) by (auto simp: generations_ok_def)
  qed
qed

text \<open>
  C30: As long as fewer than 2 to the 64 minus 1 refreshes have run since the start, the generation
  has not wrapped around: it never decreases, it is at most the number of refreshes, and no cached
  node carries a generation above the cache's.\<close>

theorem generation_never_wraps:
  assumes "sync_loop s publisher ts (NewNodeCache, p) = ((c, p'), r)" "length ts < 2 ^ 64 - 1"
  shows "generations_ok (length ts) c"
proof -
  have "generations_ok (k + length ts) c"
    if "sync_loop s publisher ts (c0, p) = ((c, p'), r)" "generations_ok k c0" "k + length ts < 2 ^ 64 - 1" for k c0 p
    using that
  proof (induction ts arbitrary: k c0 p)
    case (Cons t ts)
    show ?case
    proof (cases t)
      case CtxDone
      then show ?thesis using Cons.prems by (auto simp: generations_ok_def)
    next
      case (Tick nodes ctx_done)
      obtain c1 p1 err where R: "Refresh (Some s) publisher nodes ctx_done (c0, p) = ((c1, p1), err)" by (metis surj_pair)
      then have "c1 = c0 \<or> (\<exists>ns. c1 = fst (replaceSnapshot ns c0))"
        by (auto simp: Refresh_def ReplaceSnapshotAndPublish_def split: sum.splits if_splits option.splits prod.splits) (metis fst_conv)+
      then have "generations_ok (Suc k) c1"
        using Cons.prems(2,3) replaceSnapshot_generations(1) [OF Cons.prems(2) prod.collapse [symmetric]]
        by (auto simp: generations_ok_def)
      moreover have "sync_loop s publisher ts (c1, p1) = ((c, p'), r)" using Cons.prems(1) Tick R by simp
      ultimately show ?thesis using Cons.IH [of c1 p1 "Suc k"] Cons.prems(3) by simp
    qed
  qed (auto simp: generations_ok_def)
  from this [OF assms(1), of 0] assms(2) show ?thesis by (simp add: generations_ok_def NewNodeCache_def)
qed

theorem generation_never_wraps_witness:
  "\<exists>c p'. sync_loop \<lparr>sync_interval = 5\<rparr> None [Tick (Inr [sample_node ''a'' ''IDLE'']) False, Tick (Inl ()) False, CtxDone]
       (NewNodeCache, ()) = ((c, p'), Some True) \<and> generation c = 1 \<and> generations_ok 3 c"
proof -
  let ?ts = "[Tick (Inr [sample_node ''a'' ''IDLE'']) False, Tick (Inl ()) False, CtxDone]"
  obtain c p' where c: "sync_loop \<lparr>sync_interval = 5\<rparr> None ?ts (NewNodeCache, ()) = ((c, p'), Some True)" "generation c = 1"
    by (simp add: Refresh_def validateNodeSnapshot_def ReplaceSnapshotAndPublish_def replaceSnapshot_def NewNodeCache_def
        incoming_map_def raw_changes_def map_put_def Let_def)
  have "generations_ok (length ?ts) c" by (rule generation_never_wraps [OF c(1)]) simp
  then have "generations_ok 3 c" by (simp add: numeral_3_eq_3)
  with c show ?thesis by blast
qed

text \<open>The name of a mapped node is the given name, and the fallback only if no name is given.\<close>

lemma if_given_frame: "(\<And>x n. f (g x n) = f n) \<Longrightarrow> f (if_given p g n) = f n"
  by (cases p) (simp_all add: if_given_def)

lemma MapSlurmNode_names:
  "spec_NodeName (Spec (MapSlurmNode now i)) = (case sn_Name i of None \<Rightarrow> nodeNameFromGenerated i | Some x \<Rightarrow> x)"
  "meta_Name (Metadata (MapSlurmNode now i)) = (case sn_Name i of None \<Rightarrow> nodeNameFromGenerated i | Some x \<Rightarrow> x)"
  using if_given_frame [where f = "\<lambda>n. spec_NodeName (Spec n)"] if_given_frame [where f = "\<lambda>n. meta_Name (Metadata n)"]
  by (simp_all add: MapSlurmNode_def Let_def) (simp_all add: if_given_def NewNode_def split: option.splits)

text \<open>
  A Slurm node whose name is the empty string loses the fallback to its host name or address: the
  mapping overwrites the fallback with the empty name, the node has no identity, and the refresh that
  listed it is refused as a whole.\<close>

theorem empty_name_refuses_refresh:
  assumes "sn_Name i = Some []" "MapSlurmNode now i \<in> set ns"
  shows "nodeNameFromGenerated i = (case sn_Hostname i of Some (x # xs) \<Rightarrow> x # xs
      | _ \<Rightarrow> (case sn_Address i of Some (x # xs) \<Rightarrow> x # xs | _ \<Rightarrow> [])) \<and>
    (\<exists>err. Refresh (Some s) publisher (Inr ns) False cs = (cs, Some err))"
proof -
  have "validateNodeSnapshot ns \<noteq> None"
  proof -
    have "Identity (MapSlurmNode now i) = []" using assms(1) MapSlurmNode_names [of now i] by (simp add: Identity_def)
    then have "[] \<in> Identity ` set ns" using assms(2) by force
    then show ?thesis by (simp add: validate_None)
  qed
  then show ?thesis using assms(1) by (auto simp: Refresh_def nodeNameFromGenerated_def)
qed

definition nameless_node :: slurm_node where
  "nameless_node = \<lparr>sn_Address = None, sn_Hostname = Some ''n1.example.org'', sn_Name = Some [], sn_CpuLoad = None,
     sn_RealMemory = None, sn_AllocMemory = None, sn_FreeMem = None, sn_Reason = None, sn_State = Some [''IDLE'']\<rparr>"

theorem empty_name_refuses_refresh_witness:
  "nodeNameFromGenerated nameless_node = ''n1.example.org'' \<and>
   (\<exists>err. Refresh (Some \<lparr>sync_interval = 5\<rparr>) None (Inr [MapSlurmNode ''t'' nameless_node]) False (NewNodeCache, ()) =
      ((NewNodeCache, ()), Some err))"
  using empty_name_refuses_refresh [of nameless_node "''t''" "[MapSlurmNode ''t'' nameless_node]" "\<lparr>sync_interval = 5\<rparr>" None "(NewNodeCache, ())"]
  by (simp add: nameless_node_def)

end
