(* ===== verification/Node_Stream_Props.thy ===== *)
theory Node_Stream_Props
  imports Node_Stream Node_Props "HOL-Library.Sublist"
begin

text \<open>
  What a connected browser sees of the node cache: refreshes, registrations, replies, the writers of
  the connections and their ends in any order, and the relation of every stream to the cache.
\<close>

section \<open>One stream at a time\<close>

definition close_obj :: "nstream \<Rightarrow> nstream" where
  "close_obj s = (if s_done s then s
     else s\<lparr>s_done := True, s_out := (s_out s)\<lparr>ob_cancelled := ob_cancelled (s_out s) \<or> s_closer s\<rparr>\<rparr>)"

lemma objs_Close [simp]:
  "objs (stream_Close j r) i = (if i = j then map_option close_obj (objs r i) else objs r i)"
  by (auto simp: stream_Close_def close_obj_def Unregister_stream_def split: option.splits)

lemma streams_Close:
  "streams (stream_Close j r) =
     filter (\<lambda>i. \<not> (i = j \<and> (\<exists>s. objs r j = Some s \<and> \<not> s_done s))) (streams r)"
  by (auto simp: stream_Close_def Unregister_stream_def split: option.splits intro: filter_cong)

lemma close_obj_idem [simp]: "close_obj (close_obj s) = close_obj s" "s_done (close_obj s)"
  by (auto simp: close_obj_def)

lemma objs_fold_Close:
  "objs (fold stream_Close js r) i = (if i \<in> set js then map_option close_obj (objs r i) else objs r i)"
  by (induction js arbitrary: r) (auto simp: option.map_comp comp_def)

lemma streams_fold_Close:
  "set js \<inter> set (streams r) = {} \<Longrightarrow> streams (fold stream_Close js r) = streams r"
  by (induction js arbitrary: r) (auto simp: streams_Close intro!: filter_True)

definition send_fails :: "(sid \<Rightarrow> bool) \<Rightarrow> envelope \<Rightarrow> stream_registry \<Rightarrow> sid \<Rightarrow> bool" where
  "send_fails picks e r i \<longleftrightarrow> (\<exists>s. objs r i = Some s \<and> \<not> snd (stream_enqueue (picks i) e s))"

lemma publish_loop_result:
  "distinct js \<Longrightarrow> publish_loop picks e js r = (r', slow) \<Longrightarrow>
   objs r' = (\<lambda>i. if i \<in> set js then map_option (\<lambda>s. fst (stream_enqueue (picks i) e s)) (objs r i) else objs r i) \<and>
   slow = filter (send_fails picks e r) js \<and> streams r' = filter (\<lambda>j. j \<notin> set slow) (streams r)"
proof (induction js arbitrary: r r' slow)
  case (Cons j js)
  have cong: "filter (send_fails picks e r2) js = filter (send_fails picks e r) js"
    if "\<And>i. i \<noteq> j \<Longrightarrow> objs r2 i = objs r i" for r2
  proof (intro filter_cong refl)
    fix i assume "i \<in> set js"
    then have "i \<noteq> j" using Cons.prems(1) by auto
    from that [OF this] show "send_fails picks e r2 i = send_fails picks e r i" by (simp add: send_fails_def)
  qed
  show ?case
  proof (cases "objs r j")
    case None
    then show ?thesis using Cons.IH [of r r' slow] Cons.prems by (auto simp: send_fails_def)
  next
    case (Some s)
    obtain s' ok where s': "stream_enqueue (picks j) e s = (s', ok)" by fastforce
    let ?r1 = "r\<lparr>objs := (objs r)(j \<mapsto> s')\<rparr>"
    let ?r2 = "if ok then ?r1 else Unregister_stream j ?r1"
    obtain r3 sl where r3: "publish_loop picks e js ?r2 = (r3, sl)" by fastforce
    have res: "r' = r3" "slow = (if ok then sl else j # sl)"
      using Cons.prems(2) Some s' r3 by (simp_all add: Let_def)
    have IH: "objs r3 = (\<lambda>i. if i \<in> set js then map_option (\<lambda>s. fst (stream_enqueue (picks i) e s)) (objs ?r2 i) else objs ?r2 i)"
      "sl = filter (send_fails picks e ?r2) js" "streams r3 = filter (\<lambda>j. j \<notin> set sl) (streams ?r2)"
      using Cons.IH [OF _ r3] Cons.prems(1) by simp_all
    have objs2: "objs ?r2 = (objs r)(j \<mapsto> s')" by (simp add: Unregister_stream_def)
    then have sl: "sl = filter (send_fails picks e r) js" unfolding IH(2) by (intro cong) simp
    have "streams r' = filter (\<lambda>j. j \<notin> set slow) (streams r)"
      unfolding res IH(3) by (auto simp: Unregister_stream_def intro!: filter_cong)
    moreover have "slow = filter (send_fails picks e r) (j # js)"
      using Some s' by (auto simp: res sl send_fails_def)
    moreover have "objs r' = (\<lambda>i. if i \<in> set (j # js) then map_option (\<lambda>s. fst (stream_enqueue (picks i) e s)) (objs r i) else objs r i)"
      unfolding res IH(1) objs2 using Some s' Cons.prems(1) by (auto simp: fun_eq_iff)
    ultimately show ?thesis by blast
  qed
qed simp

text \<open>The messages a stream has been given, and the events among them.\<close>

definition events_of :: "nstream \<Rightarrow> bytes option list" where
  "events_of s = map Payload (filter (\<lambda>e. MsgType e = MessageEvent) (ob_wire (s_out s) @ ob_queue (s_out s)))"

lemma events_of_simps [simp]:
  "events_of (s\<lparr>s_done := d\<rparr>) = events_of s" "events_of (close_obj s) = events_of s"
  "events_of (s\<lparr>s_out := (s_out s)\<lparr>ob_cancelled := b\<rparr>\<rparr>) = events_of s"
  by (auto simp: events_of_def close_obj_def)

text \<open>A stream that is not done gets the event, or its connection is slow or has ended.\<close>

lemma stream_enqueue_event:
  assumes "MsgType e = MessageEvent"
  shows "snd (stream_enqueue pick e s) \<Longrightarrow> events_of (fst (stream_enqueue pick e s)) = events_of s @ [Payload e]"
    "\<not> snd (stream_enqueue pick e s) \<Longrightarrow> fst (stream_enqueue pick e s) = s"
    "s_done (fst (stream_enqueue pick e s)) = s_done s"
  using assms by (auto simp: stream_enqueue_def ob_enqueue_def events_of_def Let_def split: prod.splits if_splits)

text \<open>The queue of a connection never exceeds its capacity.\<close>

definition bounded :: "nstream \<Rightarrow> bool" where
  "bounded s \<longleftrightarrow> length (ob_queue (s_out s)) \<le> ob_cap (s_out s)"

lemma bounded_simps [simp]:
  "bounded (close_obj s) = bounded s" "bounded (s\<lparr>s_done := d\<rparr>) = bounded s"
  "bounded (s\<lparr>s_out := (s_out s)\<lparr>ob_cancelled := b\<rparr>\<rparr>) = bounded s"
  "bounded s \<Longrightarrow> bounded (fst (stream_enqueue pick e s))"
  by (auto simp: bounded_def close_obj_def stream_enqueue_def ob_enqueue_def Let_def split: prod.splits if_splits)

text \<open>\<^const>\<open>Publish\<close>, stream by stream.\<close>

lemma eventEnvelope_simps:
  "eventEnvelope now b r = (r1, e) \<Longrightarrow>
     objs r1 = objs r \<and> streams r1 = streams r \<and> MsgType e = MessageEvent \<and> Payload e = Some (json_text (batch_json b))"
  by (auto simp: eventEnvelope_def nextMessageID_def Let_def NewEnvelope_def)

lemma Publish_result:
  assumes "distinct (streams r)" "batch_valid b"
  obtains e r' where "Publish picks now b (Some r) = Some r'"
    "MsgType e = MessageEvent" "Payload e = Some (json_text (batch_json b))"
    "objs r' = (\<lambda>i. if i \<notin> set (streams r) then objs r i
        else map_option (\<lambda>s. if snd (stream_enqueue (picks i) e s) then fst (stream_enqueue (picks i) e s) else close_obj s) (objs r i))"
    "streams r' = filter (\<lambda>i. \<not> send_fails picks e r i) (streams r)"
proof -
  obtain r1 e where e: "eventEnvelope now b r = (r1, e)" by fastforce
  note es = eventEnvelope_simps [OF e]
  obtain r2 slow where p: "publish_loop picks e (streams r1) r1 = (r2, slow)" by fastforce
  have pr: "objs r2 = (\<lambda>i. if i \<in> set (streams r) then map_option (\<lambda>s. fst (stream_enqueue (picks i) e s)) (objs r i) else objs r i)"
    "slow = filter (send_fails picks e r1) (streams r)" "streams r2 = filter (\<lambda>j. j \<notin> set slow) (streams r)"
    using publish_loop_result [OF _ p] assms(1) es by auto
  have sf: "send_fails picks e r1 = send_fails picks e r" using es by (auto simp: send_fails_def fun_eq_iff)
  show thesis
  proof (rule that [of "fold stream_Close slow r2" e])
    show "Publish picks now b (Some r) = Some (fold stream_Close slow r2)"
      using assms(2) e p by (simp add: Publish_def)
    show "objs (fold stream_Close slow r2) = (\<lambda>i. if i \<notin> set (streams r) then objs r i
        else map_option (\<lambda>s. if snd (stream_enqueue (picks i) e s) then fst (stream_enqueue (picks i) e s) else close_obj s) (objs r i))"
    proof
      fix i
      show "objs (fold stream_Close slow r2) i = (if i \<notin> set (streams r) then objs r i
        else map_option (\<lambda>s. if snd (stream_enqueue (picks i) e s) then fst (stream_enqueue (picks i) e s) else close_obj s) (objs r i))"
        using stream_enqueue_event(2) [of e] es
        by (cases "objs r i") (auto simp: objs_fold_Close pr sf send_fails_def)
    qed
    show "streams (fold stream_Close slow r2) = filter (\<lambda>i. \<not> send_fails picks e r i) (streams r)"
      by (subst streams_fold_Close) (auto simp: pr sf intro: filter_cong)
  qed (use es in auto)
qed

section \<open>The cache and its streams together\<close>

text \<open>
  Refreshes and registrations exclude each other by \<^verbatim>\<open>publicationMu\<close>. The second component of the
  state is the registry with the batches published so far, which no code reads. Here a message that the
  writer of a connection has taken counts as written; its steps are those of \<open>conn_step\<close>.
\<close>

type_synonym feed = "node_cache \<times> stream_registry \<times> node_change_batch list"

definition feed_publish :: "(sid \<Rightarrow> bool) \<Rightarrow> string \<Rightarrow> node_change_batch \<Rightarrow> stream_registry \<times> node_change_batch list \<Rightarrow> stream_registry \<times> node_change_batch list" where
  "feed_publish picks now b p = (the (Publish picks now b (Some (fst p))), snd p @ [b])"

definition put_obj :: "sid \<Rightarrow> nstream \<Rightarrow> stream_registry \<Rightarrow> stream_registry" where
  "put_obj i s r = r\<lparr>objs := (objs r)(i \<mapsto> s)\<rparr>"

inductive feed_step :: "feed \<Rightarrow> feed \<Rightarrow> bool" where
  refresh: "feed_step st (fst (Refresh (Some y) (Some (feed_publish picks now)) nodes ctx_done st))"
| register: "objs (fst (snd st)) i = None \<Longrightarrow> ob_queue ob = [] \<Longrightarrow> ob_wire ob = [] \<Longrightarrow>
    feed_step st (WithSnapshotBoundary (\<lambda>snap p. (fst (Register_stream pick now i (Some ob) closer snap (fst p)), snd p)) st)"
| reply: "objs r i = Some s \<Longrightarrow> MsgType e \<noteq> MessageEvent \<Longrightarrow>
    feed_step (c, r, log) (c, put_obj i (s\<lparr>s_out := fst (ob_enqueue pick e (s_out s))\<rparr>) r, log)"
| transmit: "objs r i = Some s \<Longrightarrow> ob_queue (s_out s) = e # q \<Longrightarrow>
    feed_step (c, r, log) (c, put_obj i (s\<lparr>s_out := (s_out s)\<lparr>ob_queue := q, ob_wire := ob_wire (s_out s) @ [e]\<rparr>\<rparr>) r, log)"
| hang_up: "objs r i = Some s \<Longrightarrow> feed_step (c, r, log) (c, put_obj i (s\<lparr>s_out := (s_out s)\<lparr>ob_cancelled := True\<rparr>\<rparr>) r, log)"
| unregister: "feed_step (c, r, log) (c, stream_Unregister i r, log)"
| close: "feed_step (c, r, log) (c, stream_Close i r, log)"
| close_all: "feed_step (c, r, log) (c, the (CloseAll_streams (Some r)), log)"

text \<open>
  What a stream that started from the cache \<open>c0\<close>, after \<open>k\<close> batches, has to be given: the snapshot
  and every later batch. Applying those batches to the nodes of \<open>c0\<close> gives the nodes of the cache.
\<close>

definition feed_texts :: "node_cache \<Rightarrow> nat \<Rightarrow> node_change_batch list \<Rightarrow> bytes option list" where
  "feed_texts c0 k log = Some (json_text (snapshot_json (cache_Snapshot c0))) # map (\<lambda>b. Some (json_text (batch_json b))) (drop k log)"

definition leads_to :: "node_cache \<Rightarrow> nat \<Rightarrow> node_change_batch list \<Rightarrow> node_cache \<Rightarrow> bool" where
  "leads_to c0 k log c \<longleftrightarrow> k \<le> length log \<and> generation c0 = of_nat k \<and>
     fold apply_change (concat (map bat_Changes (drop k log))) (map_of (cached c0)) = map_of (cached c)"

definition follows :: "bool \<Rightarrow> node_cache \<Rightarrow> node_change_batch list \<Rightarrow> nstream \<Rightarrow> bool" where
  "follows exact c log s \<longleftrightarrow> bounded s \<and>
     (\<exists>c0 k. leads_to c0 k log c \<and> prefix (events_of s) (feed_texts c0 k log) \<and> (exact \<longrightarrow> events_of s = feed_texts c0 k log))"

definition log_ok :: "node_cache \<Rightarrow> node_change_batch list \<Rightarrow> bool" where
  "log_ok c log \<longleftrightarrow> keyed (cached c) \<and> generation c = of_nat (length log) \<and>
     (\<forall>j < length log. bat_Generation (log ! j) = of_nat (Suc j))"

definition feed_inv :: "feed \<Rightarrow> bool" where
  "feed_inv st \<longleftrightarrow> (case st of (c, r, log) \<Rightarrow> log_ok c log \<and> distinct (streams r) \<and>
     (\<forall>i \<in> set (streams r). \<exists>s. objs r i = Some s \<and> \<not> s_done s) \<and>
     (\<forall>i s. objs r i = Some s \<longrightarrow> follows (i \<in> set (streams r)) c log s))"

lemma follows_weaken: "follows x c log s \<Longrightarrow> (y \<Longrightarrow> x) \<Longrightarrow> follows y c log s"
  by (auto simp: follows_def)

lemma follows_events:
  "follows x c log s \<Longrightarrow> events_of s' = events_of s \<Longrightarrow> bounded s' \<Longrightarrow> follows x c log s'"
  by (simp add: follows_def)

text \<open>A new batch, for a stream that gets it and for one that does not.\<close>

lemma leads_to_extend:
  assumes "leads_to c0 k log c" "fold apply_change (bat_Changes b) (map_of (cached c)) = map_of (cached c')"
  shows "leads_to c0 k (log @ [b]) c'"
  using assms by (simp add: leads_to_def)

lemma feed_texts_extend:
  "leads_to c0 k log c \<Longrightarrow> feed_texts c0 k (log @ [b]) = feed_texts c0 k log @ [Some (json_text (batch_json b))]"
  by (simp add: feed_texts_def leads_to_def)

lemma follows_extend:
  assumes "follows x c log s" "fold apply_change (bat_Changes b) (map_of (cached c)) = map_of (cached c')"
  shows "follows False c' (log @ [b]) s"
    "x \<Longrightarrow> bounded s' \<Longrightarrow> events_of s' = events_of s @ [Some (json_text (batch_json b))] \<Longrightarrow> follows True c' (log @ [b]) s'"
  using assms leads_to_extend [OF _ assms(2)] by (fastforce simp: follows_def feed_texts_extend)+

text \<open>A stream that starts now.\<close>

lemma follows_start:
  "log_ok c log \<Longrightarrow> bounded s \<Longrightarrow> events_of s = [Some (json_text (snapshot_json (cache_Snapshot c)))] \<Longrightarrow> follows True c log s"
  "log_ok c log \<Longrightarrow> bounded s \<Longrightarrow> events_of s = [] \<Longrightarrow> follows False c log s"
  by (auto simp: follows_def log_ok_def leads_to_def feed_texts_def intro!: exI [of _ c] exI [of _ "length log"])

text \<open>Steps that send no event and only remove streams keep the invariant.\<close>

lemma inv_quiet:
  assumes "feed_inv (c, r, log)" "distinct (streams r')" "set (streams r') \<subseteq> set (streams r)"
    "\<And>i s'. objs r' i = Some s' \<Longrightarrow> \<exists>s. objs r i = Some s \<and> events_of s' = events_of s \<and> (bounded s \<longrightarrow> bounded s') \<and>
      (i \<in> set (streams r') \<longrightarrow> s_done s' = s_done s)"
    "\<And>i. i \<in> set (streams r') \<Longrightarrow> objs r i \<noteq> None \<Longrightarrow> objs r' i \<noteq> None"
  shows "feed_inv (c, r', log)"
proof -
  have "\<exists>s. objs r' i = Some s \<and> \<not> s_done s" if i: "i \<in> set (streams r')" for i
  proof -
    obtain s where s: "objs r i = Some s" "\<not> s_done s" using i assms(1,3) unfolding feed_inv_def by blast
    then obtain s' where "objs r' i = Some s'" using assms(5) [OF i] by auto
    with assms(4) [OF this] s i show ?thesis by auto
  qed
  moreover have "follows (i \<in> set (streams r')) c log s'" if s': "objs r' i = Some s'" for i s'
  proof -
    obtain s where s: "objs r i = Some s" "events_of s' = events_of s" "bounded s \<Longrightarrow> bounded s'" using assms(4) [OF s'] by blast
    then have "follows (i \<in> set (streams r)) c log s" using assms(1) by (simp add: feed_inv_def)
    with s show ?thesis using assms(3) by (auto simp: follows_def)
  qed
  ultimately show ?thesis using assms(1,2) by (simp add: feed_inv_def)
qed

lemma inv_put:
  assumes "feed_inv (c, r, log)" "objs r i = Some s" "events_of s' = events_of s" "bounded s \<Longrightarrow> bounded s'" "s_done s' = s_done s"
  shows "feed_inv (c, put_obj i s' r, log)"
  by (rule inv_quiet [OF assms(1)]) (use assms in \<open>auto simp: put_obj_def feed_inv_def split: if_splits\<close>)

lemma inv_Close: "feed_inv (c, r, log) \<Longrightarrow> feed_inv (c, stream_Close j r, log)"
  by (rule inv_quiet [where r = r]) (auto simp: streams_Close feed_inv_def split: if_splits)

lemma inv_Unregister: "feed_inv (c, r, log) \<Longrightarrow> feed_inv (c, stream_Unregister j r, log)"
  by (rule inv_quiet [where r = r])
    (auto simp: stream_Unregister_def Unregister_stream_def feed_inv_def split: if_splits option.splits)

lemma inv_CloseAll: "feed_inv (c, r, log) \<Longrightarrow> feed_inv (c, the (CloseAll_streams (Some r)), log)"
  by (rule inv_quiet [where r = r]) (auto simp: CloseAll_streams_def objs_fold_Close streams_fold_Close split: if_splits)

lemma inv_Register:
  assumes "feed_inv (c, r, log)" "objs r i = None" "ob_queue ob = []" "ob_wire ob = []"
  shows "feed_inv (c, fst (Register_stream pick now i (Some ob) closer (cache_Snapshot c) r), log)"
proof -
  obtain r1 e where e: "snapshotEnvelope now (cache_Snapshot c) r = (r1, e)" by fastforce
  have es: "objs r1 = objs r" "streams r1 = streams r" "MsgType e = MessageEvent"
      "Payload e = Some (json_text (snapshot_json (cache_Snapshot c)))"
    using e by (auto simp: snapshotEnvelope_def nextMessageID_def Let_def NewEnvelope_def)
  let ?s0 = "newNodeStream ob closer"
  obtain s ok where s: "stream_enqueue pick e ?s0 = (s, ok)" by fastforce
  have s0: "events_of ?s0 = []" "bounded ?s0" "\<not> s_done ?s0"
    using assms(3,4) by (simp_all add: newNodeStream_def events_of_def bounded_def)
  have inv: "log_ok c log" "distinct (streams r)" "i \<notin> set (streams r)"
      "\<And>j. j \<in> set (streams r) \<Longrightarrow> \<exists>s. objs r j = Some s \<and> \<not> s_done s"
      "\<And>j s. objs r j = Some s \<Longrightarrow> follows (j \<in> set (streams r)) c log s"
    using assms(1,2) by (auto simp: feed_inv_def)
  have b: "bounded s" using bounded_simps(4) [OF s0(2), of pick e] s by simp
  have ev: "s_done s = False" "ok \<Longrightarrow> events_of s = [Some (json_text (snapshot_json (cache_Snapshot c)))]" "\<not> ok \<Longrightarrow> events_of s = []"
    using stream_enqueue_event [OF es(3), of pick ?s0] s s0 es(4) by auto
  show ?thesis
  proof (cases ok)
    case True
    then show ?thesis using e s es inv ev(1) follows_start(1) [OF inv(1) b ev(2)]
      by (auto simp: feed_inv_def Register_stream_def Let_def)
  next
    case False
    have rm: "filter (\<lambda>j. j \<noteq> i) (streams r) = streams r" using inv(3) by (intro filter_True) auto
    from False show ?thesis using e s es(1,2) inv follows_start(2) [OF inv(1), of "close_obj s"] b ev
      by (auto simp: feed_inv_def Register_stream_def Let_def streams_Close Unregister_stream_def rm)
  qed
qed

text \<open>A refresh: without a change nothing happens; with one, every stream gets the batch or is closed.\<close>

lemma Refresh_cases:
  assumes "Refresh (Some y) (Some pub) nodes ctx_done (c, p) = ((c', p'), err)"
  obtains "c' = c" "p' = p" | ns b where "replaceSnapshot ns c = (c', Some b)" "p' = pub b p"
proof -
  have "c1 = c" if "replaceSnapshot ns c = (c1, None)" for ns c1
    using that by (auto simp: replaceSnapshot_def Let_def split: if_splits)
  with assms that show thesis
    by (auto simp: Refresh_def ReplaceSnapshotAndPublish_def split: sum.splits if_splits option.splits prod.splits)
qed

lemma inv_publish:
  assumes "feed_inv (c, r, log)" "replaceSnapshot ns c = (c', Some b)" "length log + 1 < 2 ^ 64"
  shows "feed_inv (c', feed_publish picks now b (r, log))"
proof -
  have inv: "log_ok c log" "distinct (streams r)"
      "\<And>j. j \<in> set (streams r) \<Longrightarrow> \<exists>s. objs r j = Some s \<and> \<not> s_done s"
      "\<And>j s. objs r j = Some s \<Longrightarrow> follows (j \<in> set (streams r)) c log s"
    using assms(1) by (auto simp: feed_inv_def)
  then have k: "keyed (cached c)" by (simp add: log_ok_def)
  note rs = replaceSnapshot_batch [OF k assms(2)]
  have g: "generation c' = of_nat (Suc (length log))" using rs(2) inv(1) by (simp add: log_ok_def add.commute)
  have "unat (of_nat (Suc (length log)) :: uint64) = Suc (length log)"
    using assms(3) by (simp add: unat_of_nat del: of_nat_Suc)
  then have "generation c' \<noteq> 0" unfolding g by force
  then have v: "batch_valid b" using rs(1,3) by (simp add: batch_valid_def)
  obtain e r' where P: "Publish picks now b (Some r) = Some r'" "MsgType e = MessageEvent" "Payload e = Some (json_text (batch_json b))"
    "objs r' = (\<lambda>i. if i \<notin> set (streams r) then objs r i
        else map_option (\<lambda>s. if snd (stream_enqueue (picks i) e s) then fst (stream_enqueue (picks i) e s) else close_obj s) (objs r i))"
    "streams r' = filter (\<lambda>i. \<not> send_fails picks e r i) (streams r)"
    by (rule Publish_result [OF inv(2) v, of picks now])
  note se = stream_enqueue_event [OF P(2)]
  have "log_ok c' (log @ [b])" using g rs(3,4) inv(1) by (auto simp: log_ok_def nth_append less_Suc_eq)
  moreover have "\<exists>s. objs r' i = Some s \<and> \<not> s_done s" if "i \<in> set (streams r')" for i
  proof -
    from that have i: "i \<in> set (streams r)" "\<not> send_fails picks e r i" by (auto simp: P(5))
    obtain s where s: "objs r i = Some s" "\<not> s_done s" using inv(3) [OF i(1)] by blast
    then have "objs r' i = Some (fst (stream_enqueue (picks i) e s))" using i by (auto simp: P(4) send_fails_def)
    with s show ?thesis by (simp add: se)
  qed
  moreover have "follows (i \<in> set (streams r')) c' (log @ [b]) s'" if s': "objs r' i = Some s'" for i s'
  proof -
    obtain s where s: "objs r i = Some s" using s' P(4) by (auto split: if_splits)
    note f = follows_extend [OF inv(4) [OF s] rs(7)]
    show ?thesis
    proof (cases "i \<in> set (streams r) \<and> snd (stream_enqueue (picks i) e s)")
      case True
      then have "s' = fst (stream_enqueue (picks i) e s)" using s s' P(4) by auto
      moreover have "bounded s" using inv(4) [OF s] by (simp add: follows_def)
      ultimately have "follows True c' (log @ [b]) s'" using True f(2) se(1) [of "picks i" s] P(3) by auto
      then show ?thesis by (rule follows_weaken) simp
    next
      case False
      then have "i \<notin> set (streams r')" using s by (auto simp: P(5) send_fails_def)
      moreover have "s' = s \<or> s' = close_obj s" using s s' P(4) False by (auto split: if_splits)
      then have "follows False c' (log @ [b]) s'" using follows_events [OF f(1), of s'] f(1) by (metis bounded_simps(1) events_of_simps(2) follows_def)
      ultimately show ?thesis by simp
    qed
  qed
  ultimately show ?thesis using inv(2) by (simp add: feed_publish_def P(1) feed_inv_def P(5))
qed

lemma feed_step_inv:
  assumes "feed_step st st'" "feed_inv st" "length (snd (snd st')) < 2 ^ 64"
  shows "feed_inv st' \<and> length (snd (snd st)) \<le> length (snd (snd st'))"
  using assms
proof (cases rule: feed_step.cases)
  case (refresh y picks now nodes ctx_done)
  obtain c r log where st: "st = (c, r, log)" by (cases st)
  obtain c' p' err where R: "Refresh (Some y) (Some (feed_publish picks now)) nodes ctx_done (c, r, log) = ((c', p'), err)"
    by (metis surj_pair)
  from R show ?thesis
  proof (cases rule: Refresh_cases)
    case 1
    then show ?thesis using refresh st R assms(2) by simp
  next
    case (2 ns b)
    then show ?thesis using refresh st R assms(2,3) inv_publish [of c r log ns c' b] by (simp add: feed_publish_def)
  qed
next
  case (register i ob pick now closer)
  then show ?thesis using assms(2) inv_Register by (cases st) (auto simp: WithSnapshotBoundary_def)
next
  case (reply r i s e c log pick)
  then show ?thesis using assms(2)
    by (auto simp: events_of_def bounded_def ob_enqueue_def intro!: inv_put [where s = s])
next
  case (transmit r i s e q c log)
  then show ?thesis using assms(2) by (auto simp: events_of_def bounded_def intro!: inv_put [where s = s])
next
  case (hang_up r i s c log)
  then show ?thesis using assms(2) by (auto intro!: inv_put [where s = s])
qed (use assms(2) in \<open>auto intro: inv_Close inv_Unregister inv_CloseAll\<close>)

section \<open>Properties\<close>

lemma feed_reachable_inv:
  assumes "feed_step\<^sup>*\<^sup>* st st'" "feed_inv st" "length (snd (snd st')) < 2 ^ 64"
  shows "feed_inv st'"
  using assms
proof (induction rule: rtranclp_induct)
  case (step st1 st2)
  have len: "length (snd (snd st1)) \<le> length (snd (snd st2))"
    using step.hyps(2) by (cases rule: feed_step.cases)
      (auto simp: Refresh_def ReplaceSnapshotAndPublish_def feed_publish_def WithSnapshotBoundary_def split: sum.splits option.splits prod.splits)
  then show ?case using feed_step_inv [OF step.hyps(2)] step by auto
qed simp

lemma feed_init: "NewNodeStreamRegistry True n = Inr r \<Longrightarrow> feed_inv (NewNodeCache, r, [])"
  by (auto simp: NewNodeStreamRegistry_def feed_inv_def log_ok_def NewNodeCache_def split: if_splits)

text \<open>
  C9: Every stream follows the node cache without a gap. Whatever refreshes, registrations, replies,
  writes, hang-ups and closings happen, the events given to a stream are the snapshot of the cache at
  one commit followed by the batches committed after it, in order and without omission: all of them
  while the stream is registered, an initial part once it is not. The generations of the batches count
  up by one from that of the snapshot, applying the batches to the nodes of the snapshot gives exactly
  the nodes of the cache now, and the queue of the connection is never over its capacity.\<close>

theorem stream_follows_cache:
  assumes "NewNodeStreamRegistry True n = Inr r0" "feed_step\<^sup>*\<^sup>* (NewNodeCache, r0, []) (c, r, log)"
    "length log < 2 ^ 64" "objs r i = Some s"
  shows "length (ob_queue (s_out s)) \<le> ob_cap (s_out s) \<and>
    (\<exists>c0 k. k \<le> length log \<and> generation c0 = of_nat k \<and>
      (\<forall>j < length log. bat_Generation (log ! j) = of_nat (Suc j)) \<and>
      prefix (events_of s) (Some (json_text (snapshot_json (cache_Snapshot c0))) #
        map (\<lambda>b. Some (json_text (batch_json b))) (drop k log)) \<and>
      (i \<in> set (streams r) \<longrightarrow> length (events_of s) = Suc (length log - k)) \<and>
      fold apply_change (concat (map bat_Changes (drop k log))) (map_of (cached c0)) = map_of (cached c))"
proof -
  have inv: "feed_inv (c, r, log)" using feed_reachable_inv [OF assms(2) feed_init [OF assms(1)]] assms(3) by simp
  then have "follows (i \<in> set (streams r)) c log s" using assms(4) by (simp add: feed_inv_def)
  then obtain c0 k where f: "bounded s" "leads_to c0 k log c" "prefix (events_of s) (feed_texts c0 k log)"
      "i \<in> set (streams r) \<Longrightarrow> events_of s = feed_texts c0 k log"
    by (auto simp: follows_def)
  moreover have "\<forall>j < length log. bat_Generation (log ! j) = of_nat (Suc j)" using inv by (simp add: feed_inv_def log_ok_def)
  ultimately show ?thesis
    by (intro conjI exI [of _ c0] exI [of _ k]) (auto simp: bounded_def leads_to_def feed_texts_def)
qed

definition sample_outbox :: outbox where
  "sample_outbox = \<lparr>ob_cap = 1, ob_queue = [], ob_wire = [], ob_cancelled = False\<rparr>"

theorem stream_follows_cache_witness:
  "\<exists>r0 c r log s. NewNodeStreamRegistry True 32 = Inr r0 \<and> feed_step\<^sup>*\<^sup>* (NewNodeCache, r0, []) (c, r, log) \<and>
     objs r 7 = Some s \<and> 7 \<in> set (streams r) \<and> length (events_of s) \<le> 1 \<and> length (ob_queue (s_out s)) = 1 \<and>
     length (ob_queue (s_out s)) \<le> ob_cap (s_out s)"
proof -
  let ?r0 = "\<lparr>queueSize = 32, messageSeq = 0, objs = (\<lambda>_. None), streams = []\<rparr>"
  have n: "NewNodeStreamRegistry True 32 = Inr ?r0" by (simp add: NewNodeStreamRegistry_def)
  let ?st = "WithSnapshotBoundary (\<lambda>snap p. (fst (Register_stream True ''t'' 7 (Some sample_outbox) True snap (fst p)), snd p))
    (NewNodeCache, ?r0, []) :: feed"
  have "feed_step (NewNodeCache, ?r0, []) ?st" by (rule feed_step.register) (simp_all add: sample_outbox_def)
  then have st: "feed_step\<^sup>*\<^sup>* (NewNodeCache, ?r0, []) ?st" by blast
  obtain c r log s where e: "?st = (c, r, log)" "objs r 7 = Some s" "7 \<in> set (streams r)" "log = []" "length (ob_queue (s_out s)) = 1"
    by (simp add: WithSnapshotBoundary_def Register_stream_def snapshotEnvelope_def nextMessageID_def stream_enqueue_def
        newNodeStream_def ob_enqueue_def sample_outbox_def Let_def)
  have st': "feed_step\<^sup>*\<^sup>* (NewNodeCache, ?r0, []) (c, r, log)"
    by (rule back_subst [where P = "feed_step\<^sup>*\<^sup>* (NewNodeCache, ?r0, [])", OF st e(1)])
  note th = stream_follows_cache [OF n st' _ e(2)]
  have "length log < 2 ^ 64" by (simp add: e(4))
  from th [OF this] e(3,4) have "length (events_of s) \<le> 1" "length (ob_queue (s_out s)) \<le> ob_cap (s_out s)" by auto
  with n st' e(2,3,5) show ?thesis by blast
qed

text \<open>
  A slow connection costs only itself. When a batch is published, each registered stream
  independently either gets the event at the end of its queue and stays registered, which is certain
  if its queue has room and its connection lives; or, if its queue is full, it is unregistered and closed
  and its connection is ended. Streams that are not registered are left alone.\<close>

theorem Publish_delivers_or_closes:
  assumes "distinct (streams r)" "batch_valid b" "objs r i = Some s" "\<not> s_done s"
  shows "\<exists>r' s'. Publish picks now b (Some r) = Some r' \<and> objs r' i = Some s' \<and> set (streams r') \<subseteq> set (streams r) \<and>
    (i \<notin> set (streams r) \<longrightarrow> s' = s) \<and>
    (i \<in> set (streams r) \<and> length (ob_queue (s_out s)) < ob_cap (s_out s) \<and> \<not> ob_cancelled (s_out s) \<longrightarrow>
       i \<in> set (streams r') \<and> \<not> s_done s' \<and> \<not> ob_cancelled (s_out s') \<and>
       (\<exists>e. ob_queue (s_out s') = ob_queue (s_out s) @ [e] \<and> MsgType e = MessageEvent \<and> Payload e = Some (json_text (batch_json b)))) \<and>
    (i \<in> set (streams r) \<and> length (ob_queue (s_out s)) \<ge> ob_cap (s_out s) \<longrightarrow>
       i \<notin> set (streams r') \<and> s_done s' \<and> (s_closer s \<longrightarrow> ob_cancelled (s_out s')) \<and> ob_queue (s_out s') = ob_queue (s_out s))"
proof -
  obtain e r' where P: "Publish picks now b (Some r) = Some r'" "MsgType e = MessageEvent" "Payload e = Some (json_text (batch_json b))"
    "objs r' = (\<lambda>i. if i \<notin> set (streams r) then objs r i
        else map_option (\<lambda>s. if snd (stream_enqueue (picks i) e s) then fst (stream_enqueue (picks i) e s) else close_obj s) (objs r i))"
    "streams r' = filter (\<lambda>i. \<not> send_fails picks e r i) (streams r)"
    by (rule Publish_result [OF assms(1,2), of picks now])
  let ?s' = "if i \<notin> set (streams r) then s
    else if snd (stream_enqueue (picks i) e s) then fst (stream_enqueue (picks i) e s) else close_obj s"
  have s': "objs r' i = Some ?s'" using assms(3) by (simp add: P(4))
  have room: "stream_enqueue (picks i) e s = (s\<lparr>s_out := (s_out s)\<lparr>ob_queue := ob_queue (s_out s) @ [e]\<rparr>\<rparr>, True)"
    if "length (ob_queue (s_out s)) < ob_cap (s_out s)" "\<not> ob_cancelled (s_out s)"
    using that assms(4) by (simp add: stream_enqueue_def ob_enqueue_def)
  have full: "\<not> snd (stream_enqueue (picks i) e s)" if "length (ob_queue (s_out s)) \<ge> ob_cap (s_out s)"
    using that assms(4) by (simp add: stream_enqueue_def ob_enqueue_def)
  show ?thesis using P(1-3) s' assms(3,4) room full
    by (intro exI [of _ r'] exI [of _ ?s']) (auto simp: P(5) send_fails_def close_obj_def)
qed

theorem Publish_delivers_or_closes_witness:
  "\<exists>b e r'. batch_valid b \<and>
     Publish (\<lambda>_. True) ''t'' b (Some \<lparr>queueSize = 1, messageSeq = 0,
       objs = [1 \<mapsto> newNodeStream sample_outbox True, 2 \<mapsto> newNodeStream (sample_outbox\<lparr>ob_queue := [e]\<rparr>) True], streams = [2, 1]\<rparr>) = Some r' \<and>
     1 \<in> set (streams r') \<and> 2 \<notin> set (streams r')"
proof -
  define b where "b = \<lparr>bat_Resource = ''node'', bat_Event = ''changes'', bat_Generation = 1,
    bat_Changes = [\<lparr>chg_Kind = NodeAdded, chg_Node = sample_node ''a'' ''IDLE''\<rparr>]\<rparr>"
  define r where "r = \<lparr>queueSize = 1, messageSeq = 0,
    objs = [1 \<mapsto> newNodeStream sample_outbox True, 2 \<mapsto> newNodeStream (sample_outbox\<lparr>ob_queue := [zero_envelope]\<rparr>) True],
    streams = [2 :: nat, 1]\<rparr>"
  have v: "batch_valid b" by (simp add: b_def batch_valid_def)
  have r: "distinct (streams r)" "objs r 1 = Some (newNodeStream sample_outbox True)"
      "objs r 2 = Some (newNodeStream (sample_outbox\<lparr>ob_queue := [zero_envelope]\<rparr>) True)"
    by (simp_all add: r_def)
  obtain r' where "Publish (\<lambda>_. True) ''t'' b (Some r) = Some r'" "1 \<in> set (streams r')"
    using Publish_delivers_or_closes [OF r(1) v r(2), of "\<lambda>_. True" "''t''"]
    by (auto simp: newNodeStream_def sample_outbox_def r_def)
  moreover from this have "2 \<notin> set (streams r')"
    using Publish_delivers_or_closes [OF r(1) v r(3), of "\<lambda>_. True" "''t''"]
    by (auto simp: newNodeStream_def sample_outbox_def r_def)
  ultimately show ?thesis using v unfolding r_def by blast
qed

end
