(* ===== verification/Dispatch.thy ===== *)
theory Dispatch
  imports Node_Stream Access
begin

text \<open>
  Requests that only read, and the routing of messages: the node query and the capability query
  (\<^verbatim>\<open>internal/service\<close>) and the dispatcher (\<^verbatim>\<open>internal/dispatcher/dispatcher.go\<close>).

  A handler is a function of the clock, the message and a state \<open>'s\<close> that holds whatever the handlers
  of the daemon work on; the dispatcher threads that state and its own counter.
\<close>

section \<open>strconv.Quote\<close>

text \<open>
  The verb \<^verbatim>\<open>%q\<close>. Which runes above Latin-1 are printable is a table of the Unicode version, which
  the argument \<open>printable\<close> stands for.
\<close>

definition IsPrint :: "(rune \<Rightarrow> bool) \<Rightarrow> rune \<Rightarrow> bool" where
  "IsPrint printable r \<longleftrightarrow>
     (if r < 256 then 32 \<le> r \<and> r < 127 \<or> 161 \<le> r \<and> r \<noteq> 173 else printable r)"

definition hex_fixed :: "nat \<Rightarrow> nat \<Rightarrow> string" where
  "hex_fixed w n = map (\<lambda>i. hex_digit (n div 16 ^ i mod 16)) (rev [0..<w])"

definition escaped_rune :: "rune \<Rightarrow> string" where
  "escaped_rune r =
     (if r = 7 then backslash # ''a''
      else if r = 8 then backslash # ''b''
      else if r = 12 then backslash # ''f''
      else if r = 10 then backslash # ''n''
      else if r = 13 then backslash # ''r''
      else if r = 9 then backslash # ''t''
      else if r = 11 then backslash # ''v''
      else if r < 32 \<or> r = 127 then backslash # ''x'' @ hex_fixed 2 r
      else if r < 65536 then backslash # ''u'' @ hex_fixed 4 r
      else backslash # ''U'' @ hex_fixed 8 r)"

definition quote_segment :: "(rune \<Rightarrow> bool) \<Rightarrow> rune \<times> string \<Rightarrow> string" where
  "quote_segment printable seg =
     (case seg of (r, bs) \<Rightarrow>
        if r = RuneError \<and> length bs = 1 then backslash # ''x'' @ hex_fixed 2 (byte_of (hd bs))
        else if r = 34 \<or> r = 92 then backslash # bs
        else if IsPrint printable r then bs
        else escaped_rune r)"

definition Quote :: "(rune \<Rightarrow> bool) \<Rightarrow> string \<Rightarrow> string" where
  "Quote printable s = quote # concat (map (quote_segment printable) (rune_segments s)) @ [quote]"

section \<open>Node queries (query.go)\<close>

type_synonym 's handler = "string \<Rightarrow> envelope \<Rightarrow> 's \<Rightarrow> 's \<times> envelope"
type_synonym 's authenticated_handler = "string \<Rightarrow> user_context \<Rightarrow> envelope \<Rightarrow> 's \<Rightarrow> 's \<times> envelope"

text \<open>The service holds its cache, if it has one; \<open>None\<close> also stands for a nil service.\<close>

record 's query_service =
  query_cache :: "('s \<Rightarrow> node_cache) option"

datatype query_error = ErrNotReady | ErrResourceRequired | ErrUnsupportedResource string

definition NewNodeQueryService :: "('s \<Rightarrow> node_cache) option \<Rightarrow> 's query_service" where
  "NewNodeQueryService cache = \<lparr>query_cache = cache\<rparr>"

definition Query :: "'s query_service option \<Rightarrow> string \<Rightarrow> 's \<Rightarrow> query_error + snapshot" where
  "Query s resourceName st =
     (case Option.bind s query_cache of None \<Rightarrow> Inl ErrNotReady
      | Some cache \<Rightarrow>
        if resourceName = [] then Inl ErrResourceRequired
        else if resourceName \<noteq> ''nodes'' then Inl (ErrUnsupportedResource resourceName)
        else Inr (cache_Snapshot (cache st)))"

text \<open>\<^verbatim>\<open>err.Error()\<close>.\<close>

fun query_error_text :: "(rune \<Rightarrow> bool) \<Rightarrow> query_error \<Rightarrow> string" where
  "query_error_text printable ErrNotReady = ''node query service is not initialized''"
| "query_error_text printable ErrResourceRequired = ''resource name is required''"
| "query_error_text printable (ErrUnsupportedResource name) = ''unsupported resource '' @ Quote printable name"

definition put_query :: "string \<Rightarrow> bytes \<Rightarrow> string \<Rightarrow> string \<times> bool" where
  "put_query f raw old = decode_string raw old"

text \<open>\<^verbatim>\<open>json.Marshal\<close> of a map writes the keys in order.\<close>

definition query_json :: "snapshot \<Rightarrow> json" where
  "query_json s = JObj [(''generation'', uint_json (snap_Generation s)),
     (''nodes'', JArr (map node_json (snap_Nodes s))), (''resource'', JStr (snap_Resource s))]"

definition query_failure :: "string \<Rightarrow> string \<Rightarrow> string" where
  "query_failure code quoted =
     ''{'' @ [quote] @ ''code'' @ [quote] @ '':'' @ [quote] @ code @ [quote] @ '','' @
     [quote] @ ''message'' @ [quote] @ '':'' @ quoted @ ''}''"

definition plain_quoted :: "string \<Rightarrow> string" where
  "plain_quoted s = quote # s @ [quote]"

definition QueryHandler_Handle :: "(rune \<Rightarrow> bool) \<Rightarrow> 's query_service option \<Rightarrow> 's handler" where
  "QueryHandler_Handle printable service now msg st =
     (st,
      case unmarshal [''resource''] put_query (case Payload msg of None \<Rightarrow> [] | Some p \<Rightarrow> p) [] of
        None \<Rightarrow> NewEnvelope now (MessageID msg) MessageError (Some (query_failure ''INVALID_MESSAGE'' (plain_quoted ''invalid query payload'')))
      | Some name \<Rightarrow>
        if name = [] then NewEnvelope now (MessageID msg) MessageError (Some (query_failure ''INVALID_MESSAGE'' (plain_quoted ''missing resource'')))
        else
          (case Query service name st of
             Inl err \<Rightarrow> NewEnvelope now (MessageID msg) MessageError
               (Some (query_failure ''NOT_FOUND'' (Quote printable (query_error_text printable err))))
           | Inr snap \<Rightarrow> NewEnvelope now (MessageID msg) MessageQueryResponse (Some (json_text (query_json snap)))))"

section \<open>Capability queries (capabilities.go)\<close>

text \<open>The resolver of the interface \<^verbatim>\<open>CapabilityContextResolver\<close>; \<open>None\<close> stands for a nil handler too.\<close>

type_synonym capability_resolver = "user_context \<Rightarrow> access_error + user_context"

definition capabilityUnavailable :: "string \<Rightarrow> string \<Rightarrow> envelope" where
  "capabilityUnavailable now messageID =
     NewErrorEnvelope now messageID (plain_error CodeCapabilityUnavailable CatInternal
       ''Capabilities are temporarily unavailable'' True)"

definition identity_error :: "string \<Rightarrow> string \<Rightarrow> envelope" where
  "identity_error now messageID =
     NewErrorEnvelope now messageID (plain_error CodeIdentityUnavailable CatAuthentication
       ''Unable to determine the authenticated user'' False)"

definition CapabilitiesHandler_Handle :: "capability_resolver option \<Rightarrow> 's authenticated_handler" where
  "CapabilitiesHandler_Handle resolver now requester message st =
     (st,
      case DecodeCapabilitiesRequestPayload (case Payload message of None \<Rightarrow> [] | Some p \<Rightarrow> p) of
        Inl _ \<Rightarrow> NewErrorEnvelope now (MessageID message)
          (plain_error CodeInvalidPayload CatValidation ''Invalid capabilities request'' False)
      | Inr _ \<Rightarrow>
        if Username requester = [] then identity_error now (MessageID message)
        else
          (case resolver of None \<Rightarrow> capabilityUnavailable now (MessageID message)
           | Some resolve \<Rightarrow>
             (case resolve requester of
                Inl err \<Rightarrow>
                  if err = ErrIdentityUnavailable then identity_error now (MessageID message)
                  else capabilityUnavailable now (MessageID message)
              | Inr resolved \<Rightarrow>
                if Username resolved \<noteq> Username requester \<or> UID resolved \<noteq> UID requester \<or> GID resolved \<noteq> GID requester
                then capabilityUnavailable now (MessageID message)
                else
                  (case (map_of (Capabilities resolved) CapabilityNodeDrain, map_of (Capabilities resolved) CapabilityNodeResume) of
                     (Some drain, Some resume) \<Rightarrow>
                       NewEnvelope now (MessageID message) MessageCapabilitiesResponse
                         (Some (json_text (capabilities_json \<lparr>NodesDrain = drain, NodesResume = resume\<rparr>)))
                   | _ \<Rightarrow> capabilityUnavailable now (MessageID message)))))"

section \<open>The dispatcher (dispatcher.go)\<close>

record 's dispatcher =
  handlers :: "message_type \<Rightarrow> 's handler option"
  authenticatedHandlers :: "message_type \<Rightarrow> 's authenticated_handler option"
  counter :: uint64

definition register :: "message_type \<Rightarrow> 's handler \<Rightarrow> 's dispatcher \<Rightarrow> 's dispatcher" where
  "register t h d = d\<lparr>handlers := (handlers d)(t \<mapsto> h)\<rparr>"

text \<open>\<open>False\<close> is the error for a nil handler.\<close>

definition Register_handler :: "message_type \<Rightarrow> 's handler option \<Rightarrow> 's dispatcher \<Rightarrow> 's dispatcher \<times> bool" where
  "Register_handler t h d = (case h of None \<Rightarrow> (d, False) | Some f \<Rightarrow> (d\<lparr>handlers := (handlers d)(t \<mapsto> f)\<rparr>, True))"

definition RegisterAuthenticated ::
  "message_type \<Rightarrow> 's authenticated_handler option \<Rightarrow> 's dispatcher \<Rightarrow> 's dispatcher \<times> bool" where
  "RegisterAuthenticated t h d =
     (case h of None \<Rightarrow> (d, False) | Some f \<Rightarrow> (d\<lparr>authenticatedHandlers := (authenticatedHandlers d)(t \<mapsto> f)\<rparr>, True))"

definition dispatcher_nextMessageID :: "'s dispatcher \<Rightarrow> 's dispatcher \<times> string" where
  "dispatcher_nextMessageID d = (let n = counter d + 1 in (d\<lparr>counter := n\<rparr>, ''MSG'' @ dec_pad 6 (unat n)))"

definition dispatcher_errorEnvelope ::
  "string \<Rightarrow> string \<Rightarrow> error_code \<Rightarrow> error_category \<Rightarrow> string \<Rightarrow> bool \<Rightarrow> 's dispatcher \<Rightarrow> 's dispatcher \<times> envelope" where
  "dispatcher_errorEnvelope now messageID code category detail retryable d =
     (let (d', mid) = (if messageID = [] then dispatcher_nextMessageID d else (d, messageID)) in
      (d', NewErrorEnvelope now mid (plain_error code category detail retryable)))"

text \<open>Marshalling these maps of strings cannot fail.\<close>

definition helloHandler_Handle :: "'s handler" where
  "helloHandler_Handle now msg st =
     (st, NewEnvelope now (MessageID msg) MessageHelloResponse
        (Some (json_text (JObj [(''server'', JStr ''cockpit-slurm''), (''serverVersion'', JStr ''0.1.0'')]))))"

definition pingHandler_Handle :: "'s handler" where
  "pingHandler_Handle now msg st =
     (st, NewEnvelope now (MessageID msg) MessagePong (Some (json_text (JObj [(''status'', JStr ''ok'')]))))"

text \<open>
  \<open>cache\<close> reads the node cache out of the state; a nil cache is replaced by a new, empty one, which no
  other part of the daemon knows.
\<close>

definition NewDispatcherWithCacheAndCapabilities ::
  "(rune \<Rightarrow> bool) \<Rightarrow> ('s \<Rightarrow> node_cache) option \<Rightarrow> capability_resolver option \<Rightarrow> 's dispatcher" where
  "NewDispatcherWithCacheAndCapabilities printable cache resolver =
     (let c = (case cache of None \<Rightarrow> (\<lambda>_. NewNodeCache) | Some f \<Rightarrow> f);
          d = \<lparr>handlers = (\<lambda>_. None), authenticatedHandlers = (\<lambda>_. None), counter = 0\<rparr>;
          d1 = register MessageHello helloHandler_Handle d;
          d2 = register MessagePing pingHandler_Handle d1;
          d3 = register MessageQuery (QueryHandler_Handle printable (Some (NewNodeQueryService (Some c)))) d2
      in fst (RegisterAuthenticated MessageCapabilitiesRequest (Some (CapabilitiesHandler_Handle resolver)) d3))"

definition NewDispatcherWithCache :: "(rune \<Rightarrow> bool) \<Rightarrow> ('s \<Rightarrow> node_cache) option \<Rightarrow> 's dispatcher" where
  "NewDispatcherWithCache printable cache = NewDispatcherWithCacheAndCapabilities printable cache None"

definition NewDispatcher :: "(rune \<Rightarrow> bool) \<Rightarrow> 's dispatcher" where
  "NewDispatcher printable = NewDispatcherWithCache printable (Some (\<lambda>_. NewNodeCache))"

definition dispatch ::
  "string \<Rightarrow> user_context option \<Rightarrow> envelope \<Rightarrow> 's dispatcher \<times> 's \<Rightarrow> ('s dispatcher \<times> 's) \<times> envelope" where
  "dispatch now user msg ds =
     (case ds of (d, st) \<Rightarrow>
        let fail = (\<lambda>code category detail.
              (let (d', e) = dispatcher_errorEnvelope now (MessageID msg) code category detail False d in ((d', st), e)))
        in
        if Protocol msg \<noteq> ProtocolName \<or> Version msg \<noteq> ProtocolVersion
        then fail CodeInvalidPayload CatValidation ''Invalid protocol envelope''
        else if MessageID msg = [] \<or> MsgType msg = [] \<or> blen (Payload msg) = 0
        then fail CodeInvalidPayload CatValidation ''Invalid protocol envelope''
        else
          (case authenticatedHandlers d (MsgType msg) of
             Some h \<Rightarrow>
               (case user of
                  None \<Rightarrow> fail CodeIdentityUnavailable CatAuthentication ''Unable to determine the authenticated user''
                | Some u \<Rightarrow>
                  if Username u = [] then fail CodeIdentityUnavailable CatAuthentication ''Unable to determine the authenticated user''
                  else (let (st', e) = h now u msg st in ((d, st'), e)))
           | None \<Rightarrow>
             (case handlers d (MsgType msg) of
                None \<Rightarrow> fail CodeUnsupportedMessageType CatProtocol ''Message type is not supported''
              | Some h \<Rightarrow> (let (st', e) = h now msg st in ((d, st'), e)))))"

definition Dispatch :: "string \<Rightarrow> envelope \<Rightarrow> 's dispatcher \<times> 's \<Rightarrow> ('s dispatcher \<times> 's) \<times> envelope" where
  "Dispatch now msg ds = dispatch now None msg ds"

definition DispatchWithUser ::
  "string \<Rightarrow> user_context \<Rightarrow> envelope \<Rightarrow> 's dispatcher \<times> 's \<Rightarrow> ('s dispatcher \<times> 's) \<times> envelope" where
  "DispatchWithUser now user msg ds = dispatch now (Some user) msg ds"

end
