(* ===== verification/Ipc.thy ===== *)
theory Ipc
  imports Dispatch
begin

text \<open>
  The IPC server (\<^verbatim>\<open>internal/ipc/server.go\<close>): the cache that answers repeated requests of a connection,
  the loop that serves a connection, its writer, and the life of the listening socket.

  The hash \<^verbatim>\<open>sha256.Sum256\<close> is a parameter.
\<close>

section \<open>Request fingerprints\<close>

text \<open>
  Reading a payload into \<^verbatim>\<open>any\<close> and writing it again: of repeated keys the last wins, members come
  sorted by key, numbers keep their text.
\<close>

fun last_wins :: "('k \<times> 'v) list \<Rightarrow> ('k \<times> 'v) list" where
  "last_wins [] = []"
| "last_wins (m # ms) = (if fst m \<in> fst ` set ms then last_wins ms else m # last_wins ms)"

fun canonical :: "json \<Rightarrow> json" where
  "canonical (JArr vs) = JArr (map canonical vs)"
| "canonical (JObj ms) = JObj (sort_key fst (last_wins (map (\<lambda>(k, v). (k, canonical v)) ms)))"
| "canonical v = v"

definition fingerprint_json :: "envelope \<Rightarrow> json \<Rightarrow> json" where
  "fingerprint_json message payload = JObj [(''protocol'', JStr (Protocol message)), (''version'', JStr (Version message)),
     (''type'', JStr (MsgType message)), (''payload'', canonical payload)]"

definition requestFingerprint :: "(bytes \<Rightarrow> bytes) \<Rightarrow> envelope \<Rightarrow> bytes option" where
  "requestFingerprint sha256 message =
     (case read_value (case Payload message of None \<Rightarrow> [] | Some p \<Rightarrow> p) of
        None \<Rightarrow> None
      | Some (v, _) \<Rightarrow> if max_depth < jdepth v then None else Some (sha256 (json_text (fingerprint_json message v))))"

section \<open>The replay cache\<close>

definition maxCachedRequestsPerConnection :: nat where
  "maxCachedRequestsPerConnection = 4096"

record cachedRequest =
  cached_fingerprint :: bytes
  cached_response :: envelope

type_synonym requestReplayCache = "(string \<times> cachedRequest) list"

definition invalid_message :: "string \<Rightarrow> string \<Rightarrow> envelope" where
  "invalid_message now mid = NewErrorEnvelope now mid (plain_error CodeInvalidPayload CatValidation ''Invalid protocol message'' False)"

definition conflict_message :: "string \<Rightarrow> string \<Rightarrow> envelope" where
  "conflict_message now mid = NewErrorEnvelope now mid
     (plain_error CodeMessageIDConflict CatConflict ''Message ID was already used for a different request'' False)"

definition limit_message :: "string \<Rightarrow> string \<Rightarrow> envelope" where
  "limit_message now mid = NewErrorEnvelope now mid (plain_error CodeInternal CatInternal ''Connection request limit reached'' False)"

text \<open>\<open>run_dispatch\<close> is the closure that the loop passes; \<open>'w\<close> is what it works on.\<close>

definition replay_Dispatch ::
  "(bytes \<Rightarrow> bytes) \<Rightarrow> string \<Rightarrow> envelope \<Rightarrow> ('w \<Rightarrow> 'w \<times> envelope) \<Rightarrow> requestReplayCache \<times> 'w \<Rightarrow>
   (requestReplayCache \<times> 'w) \<times> envelope \<times> bool" where
  "replay_Dispatch sha256 now message run_dispatch cw =
     (case cw of (entries, w) \<Rightarrow>
        case requestFingerprint sha256 message of
          None \<Rightarrow> ((entries, w), invalid_message now (MessageID message), False)
        | Some fingerprint \<Rightarrow>
          (case map_of entries (MessageID message) of
             Some previous \<Rightarrow>
               if cached_fingerprint previous = fingerprint then ((entries, w), cached_response previous, False)
               else ((entries, w), conflict_message now (MessageID message), False)
           | None \<Rightarrow>
             if length entries \<ge> maxCachedRequestsPerConnection
             then ((entries, w), limit_message now (MessageID message), True)
             else
               (let (w', response) = run_dispatch w in
                ((entries @ [(MessageID message, \<lparr>cached_fingerprint = fingerprint, cached_response = response\<rparr>)], w'),
                 response, False))))"

text \<open>
  The same in two halves, before the closure is called and after it has returned, for a closure during
  which other goroutines run: an answer without a dispatch, or the fingerprint to store with the response.
\<close>

definition replay_begin ::
  "(bytes \<Rightarrow> bytes) \<Rightarrow> string \<Rightarrow> envelope \<Rightarrow> requestReplayCache \<Rightarrow> (envelope \<times> bool) + bytes" where
  "replay_begin sha256 now message entries =
     (case requestFingerprint sha256 message of
        None \<Rightarrow> Inl (invalid_message now (MessageID message), False)
      | Some fingerprint \<Rightarrow>
        (case map_of entries (MessageID message) of
           Some previous \<Rightarrow>
             if cached_fingerprint previous = fingerprint then Inl (cached_response previous, False)
             else Inl (conflict_message now (MessageID message), False)
         | None \<Rightarrow>
           if length entries \<ge> maxCachedRequestsPerConnection then Inl (limit_message now (MessageID message), True)
           else Inr fingerprint))"

definition replay_end :: "bytes \<Rightarrow> envelope \<Rightarrow> envelope \<Rightarrow> requestReplayCache \<Rightarrow> requestReplayCache" where
  "replay_end fingerprint message response entries =
     entries @ [(MessageID message, \<lparr>cached_fingerprint = fingerprint, cached_response = response\<rparr>)]"

section \<open>Serving a connection\<close>

definition decodeErrorEnvelope :: "string \<Rightarrow> string \<Rightarrow> perr \<Rightarrow> envelope" where
  "decodeErrorEnvelope now messageID err =
     (let mid = (if messageID = [] then ''ERR'' else messageID) in
      if err = ErrUnknownMessage
      then NewErrorEnvelope now mid (plain_error CodeUnsupportedMessageType CatProtocol ''Message type is not supported'' False)
      else invalid_message now mid)"

text \<open>
  Two goroutines serve a connection. The loop is about to look at its context (\<open>Reading\<close>), is in
  \<^verbatim>\<open>Decode\<close>, has a message to dispatch, has an answer to queue (with the mark that it then closes the
  connection) or an answer to a frame it could not decode, waits until its last message has been written (the
  number counts the messages up to that one that are not written), is about to close the connection
  after its answer, or has returned. The writer is at its first or its second \<^verbatim>\<open>select\<close>, in \<^verbatim>\<open>Encode\<close>, or
  has returned.
\<close>

datatype phase = Reading | Receiving | Dispatching envelope | Answering envelope bool | Refusing envelope
  | Draining nat | Closing | Ended

datatype writer_phase = Looking | Taking | Writing envelope | Stopped

record conn_run =
  cn_user :: user_context
  cn_in :: reader
  cn_replay :: requestReplayCache
  cn_out :: outbox
  cn_phase :: phase
  cn_writer :: writer_phase

definition in_flight :: "conn_run \<Rightarrow> envelope list" where
  "in_flight c = (case cn_writer c of Writing e \<Rightarrow> [e] | _ \<Rightarrow> [])"

text \<open>\<^verbatim>\<open>connState.Close()\<close>, and returning, which runs it deferred.\<close>

definition close_conn_run :: "conn_run \<Rightarrow> conn_run" where
  "close_conn_run c = c\<lparr>cn_out := (cn_out c)\<lparr>ob_cancelled := True\<rparr>\<rparr>"

definition serve_return :: "conn_run \<Rightarrow> conn_run" where
  "serve_return c = close_conn_run c\<lparr>cn_phase := Ended\<rparr>"

text \<open>
  \<^verbatim>\<open>writeConnectionResponse\<close> up to its wait for the writer; the second \<^verbatim>\<open>select\<close> is the phase
  \<open>Draining\<close>, left by \<open>writer_reported\<close>.
\<close>

definition writeConnectionResponse :: "bool \<Rightarrow> envelope \<Rightarrow> conn_run \<Rightarrow> conn_run" where
  "writeConnectionResponse pick response c =
     (let (out, ok) = ob_enqueue pick response (cn_out c) in
      if ok then c\<lparr>cn_out := out, cn_phase := Draining (length (in_flight c) + length (ob_queue out))\<rparr>
      else serve_return c)"

definition writer_reported :: "conn_run \<Rightarrow> bool" where
  "writer_reported c \<longleftrightarrow> (\<exists>n. cn_phase c = Draining n \<and> (n = 0 \<or> ob_cancelled (cn_out c)))"

text \<open>
  A turn of the loop: the look at the context, the reading of a frame, the dispatch through the
  replay cache, and the queueing of the answer, where \<open>pick\<close> is the choice of \<^verbatim>\<open>select\<close> in \<^verbatim>\<open>enqueue\<close>.
\<close>

definition loop_look :: "conn_run \<Rightarrow> conn_run" where
  "loop_look c = (if ob_cancelled (cn_out c) then serve_return c else c\<lparr>cn_phase := Receiving\<rparr>)"

definition loop_receive :: "string \<Rightarrow> conn_run \<Rightarrow> conn_run" where
  "loop_receive now c =
     (case Decode (cn_in c) of
        (r, message, Inl err) \<Rightarrow>
          if err = ErrEOF \<or> err = ErrUnexpectedEOF then serve_return (c\<lparr>cn_in := r\<rparr>)
          else c\<lparr>cn_in := r, cn_phase := Refusing (decodeErrorEnvelope now (MessageID message) err)\<rparr>
      | (r, message, Inr _) \<Rightarrow> c\<lparr>cn_in := r, cn_phase := Dispatching message\<rparr>)"

definition loop_dispatch ::
  "(bytes \<Rightarrow> bytes) \<Rightarrow> string \<Rightarrow> envelope \<Rightarrow> conn_run \<times> 's dispatcher \<times> 's \<Rightarrow> conn_run \<times> 's dispatcher \<times> 's" where
  "loop_dispatch sha256 now message cw =
     (case cw of (c, w) \<Rightarrow>
        (let ((replay, w'), response, closeAfterResponse) =
               replay_Dispatch sha256 now message (DispatchWithUser now (cn_user c) message) (cn_replay c, w)
         in (c\<lparr>cn_replay := replay, cn_phase := Answering response closeAfterResponse\<rparr>, w')))"

definition loop_answer :: "bool \<Rightarrow> envelope \<Rightarrow> bool \<Rightarrow> conn_run \<Rightarrow> conn_run" where
  "loop_answer pick response closeAfterResponse c =
     (let (out, ok) = ob_enqueue pick response (cn_out c) in
      if \<not> ok then serve_return c
      else c\<lparr>cn_out := out, cn_phase := (if closeAfterResponse then Closing else Reading)\<rparr>)"

text \<open>
  A turn of \<^verbatim>\<open>writeConnection\<close>: its first \<^verbatim>\<open>select\<close>; its second one, where with the context cancelled
  and a message queued either branch may be taken, as \<open>pick\<close> says, and which waits when neither is
  possible; and the write, with what the socket does during it, where nothing happens while it is not
  finished. A failed write tells the loop and closes the connection; a message that was written in part
  does not count as written.
\<close>

definition writer_look :: "conn_run \<Rightarrow> conn_run" where
  "writer_look c = c\<lparr>cn_writer := (if ob_cancelled (cn_out c) then Stopped else Taking)\<rparr>"

definition writer_take :: "bool \<Rightarrow> conn_run \<Rightarrow> conn_run" where
  "writer_take pick c =
     (let out = cn_out c in
      case ob_queue out of
        [] \<Rightarrow> if ob_cancelled out then c\<lparr>cn_writer := Stopped\<rparr> else c
      | e # q \<Rightarrow>
        if ob_cancelled out \<and> \<not> pick then c\<lparr>cn_writer := Stopped\<rparr>
        else c\<lparr>cn_out := out\<lparr>ob_queue := q\<rparr>, cn_writer := Writing e\<rparr>)"

definition writer_write :: "(nat \<times> bool) list \<Rightarrow> envelope \<Rightarrow> conn_run \<Rightarrow> conn_run" where
  "writer_write ws e c =
     (let c' = c\<lparr>cn_phase := (case cn_phase c of Draining (Suc n) \<Rightarrow> Draining n | p \<Rightarrow> p)\<rparr> in
      case snd (Encode ws e) of
        None \<Rightarrow> c
      | Some (Inr _) \<Rightarrow> c'\<lparr>cn_out := (cn_out c)\<lparr>ob_wire := ob_wire (cn_out c) @ [e]\<rparr>, cn_writer := Looking\<rparr>
      | Some (Inl _) \<Rightarrow> close_conn_run c'\<lparr>cn_writer := Stopped\<rparr>)"

definition defaultOutboundQueueSize :: int where
  "defaultOutboundQueueSize = 32"

text \<open>
  \<^verbatim>\<open>serveConnection\<close> up to its loop: \<open>a\<close> is the address of the connection object and \<open>i\<close> that of its
  stream. The result \<open>None\<close> for the run means that the function has returned with the connection
  closed; \<open>None\<close> as a whole is the panic of \<^const>\<open>mustNewID\<close>.
\<close>

definition serve_start ::
  "bool \<Rightarrow> string \<Rightarrow> addr \<Rightarrow> sid \<Rightarrow> socket_env option \<Rightarrow> bytes option \<Rightarrow> bytes option \<Rightarrow> bytes \<Rightarrow> bool \<Rightarrow>
   node_cache \<Rightarrow> stream_registry option \<Rightarrow> conn_manager \<Rightarrow>
   (stream_registry option \<times> conn_manager \<times> conn_run option) option" where
  "serve_start pick now a i conn rand1 rand2 input bad cache nodeStreams m =
     (case NewConnection conn rand1 rand2 of
        None \<Rightarrow> None
      | Some (Inl _) \<Rightarrow> Some (nodeStreams, m, None)
      | Some (Inr connState) \<Rightarrow>
        (case Register (Some a) (alloc a connState m) of
           (m1, Inl _) \<Rightarrow> Some (nodeStreams, close_object a m1, None)
         | (m1, Inr _) \<Rightarrow>
           (let outbound = (\<lambda>n. \<lparr>ob_cap = nat n, ob_queue = [], ob_wire = [], ob_cancelled = False\<rparr>);
                run = (\<lambda>out. \<lparr>cn_user = User connState, cn_in = \<lparr>incoming = input, broken = bad\<rparr>, cn_replay = [],
                  cn_out = out, cn_phase = Reading, cn_writer = Looking\<rparr>)
            in
            case nodeStreams of
              None \<Rightarrow> Some (None, m1, Some (run (outbound defaultOutboundQueueSize)))
            | Some r \<Rightarrow>
              (let out = outbound (QueueSize (Some r)) in
               case Register_stream pick now i (Some out) True (cache_Snapshot cache) r of
                 (r', None) \<Rightarrow> Some (Some r', Unregister (conn_ID connState) (close_object a m1), None)
               | (r', Some j) \<Rightarrow> Some (Some r', m1, map_option (\<lambda>s. run (s_out s)) (objs r' j))))))"

text \<open>The deferred calls when the loop returns: the stream leaves the registry, the connection is closed and forgotten.\<close>

definition serve_end :: "addr \<Rightarrow> sid option \<Rightarrow> string \<Rightarrow> stream_registry option \<times> conn_manager \<Rightarrow> stream_registry option \<times> conn_manager" where
  "serve_end a i cid rm =
     (case rm of (r, m) \<Rightarrow>
        ((case i of None \<Rightarrow> r | Some j \<Rightarrow> map_option (stream_Unregister j) r), Unregister cid (close_object a m)))"

section \<open>The listening socket\<close>

definition DefaultSocketPath :: string where
  "DefaultSocketPath = ''/run/cockpit-slurm/cockpit-slurm.sock''"

text \<open>\<open>env\<close> is the value of the environment variable, empty when unset.\<close>

definition socketPathFromEnv :: "string \<Rightarrow> string" where
  "socketPathFromEnv env = (if env \<noteq> [] then env else DefaultSocketPath)"

text \<open>
  What the operating system answers about the path. \<^verbatim>\<open>Lstat\<close>: no file, an error, or a file that is a
  socket or not. Dialling it: an answer, a timeout, refused, or another error.
\<close>

datatype lstat = NotExist | LstatError | Info bool

datatype dial = DialOk | DialTimeout | DialRefused | DialError

record path_env =
  mkdir_ok :: bool
  lstat_of :: lstat
  dial_of :: dial
  remove_ok :: bool
  listen_ok :: bool
  chmod_ok :: bool

datatype ipc_error = ErrAlreadyListening | ErrSocketDirectory | ErrInspectSocket | ErrNotASocket | ErrSocketInUse
  | ErrSocketUncertain | ErrRemoveStale | ErrListen | ErrChmod | ErrNotListening | ErrAccept | ErrRemoveSocket

text \<open>The error, and whether the file was removed.\<close>

definition removeStaleSocket :: "path_env \<Rightarrow> ipc_error option \<times> bool" where
  "removeStaleSocket env =
     (case lstat_of env of
        NotExist \<Rightarrow> (None, False)
      | LstatError \<Rightarrow> (Some ErrInspectSocket, False)
      | Info is_socket \<Rightarrow>
        if \<not> is_socket then (Some ErrNotASocket, False)
        else
          (case dial_of env of
             DialOk \<Rightarrow> (Some ErrSocketInUse, False)
           | DialTimeout \<Rightarrow> (Some ErrSocketUncertain, False)
           | DialError \<Rightarrow> (Some ErrSocketUncertain, False)
           | DialRefused \<Rightarrow> if \<not> remove_ok env then (Some ErrRemoveStale, False) else (None, True)))"

text \<open>
  A server. \<open>listening\<close> says that it has a listener, \<open>listener_open\<close> that the operating system still
  accepts on it. \<open>open_conns\<close> are the sockets that are open in the operating system; \<open>active\<close> is the
  server's own table of them, \<open>waiting\<close> the goroutines that \<^verbatim>\<open>wg\<close> counts, \<open>socket_file\<close> whether
  the path exists.
\<close>

type_synonym conn_id = nat

record server =
  socketPath :: string
  listening :: bool
  listener_open :: bool
  closed :: bool
  active :: "conn_id set"
  waiting :: "conn_id set"
  open_conns :: "conn_id set"
  socket_file :: bool

definition NewServerWithDispatcher :: "string \<Rightarrow> string \<Rightarrow> 's dispatcher option \<Rightarrow> 's dispatcher \<Rightarrow> server \<times> 's dispatcher" where
  "NewServerWithDispatcher env path messageDispatcher fresh =
     (\<lparr>socketPath = (if path = [] then socketPathFromEnv env else path), listening = False, listener_open = False, closed = False,
        active = {}, waiting = {}, open_conns = {}, socket_file = False\<rparr>,
      case messageDispatcher of None \<Rightarrow> fresh | Some d \<Rightarrow> d)"

text \<open>The other constructors; the registry of node streams, if any, is kept beside the server.\<close>

definition NewServerWithNodeStreamsAndDispatcher ::
  "string \<Rightarrow> string \<Rightarrow> stream_registry option \<Rightarrow> 's dispatcher option \<Rightarrow> 's dispatcher \<Rightarrow> (server \<times> 's dispatcher) \<times> stream_registry option" where
  "NewServerWithNodeStreamsAndDispatcher env path registry messageDispatcher fresh =
     (NewServerWithDispatcher env path messageDispatcher fresh, registry)"

definition NewServerWithNodeStreams ::
  "string \<Rightarrow> string \<Rightarrow> stream_registry option \<Rightarrow> 's dispatcher \<Rightarrow> (server \<times> 's dispatcher) \<times> stream_registry option" where
  "NewServerWithNodeStreams env path registry fresh = NewServerWithNodeStreamsAndDispatcher env path registry None fresh"

definition NewServer :: "string \<Rightarrow> string \<Rightarrow> 's dispatcher \<Rightarrow> server \<times> 's dispatcher" where
  "NewServer env path fresh = NewServerWithDispatcher env path (Some fresh) fresh"

definition SocketPath :: "server \<Rightarrow> string" where
  "SocketPath s = socketPath s"

definition Listen :: "path_env \<Rightarrow> server \<Rightarrow> server \<times> ipc_error option" where
  "Listen env s =
     (if listening s then (s, Some ErrAlreadyListening)
      else if \<not> mkdir_ok env then (s, Some ErrSocketDirectory)
      else
        (case removeStaleSocket env of
           (Some err, _) \<Rightarrow> (s, Some err)
         | (None, removed) \<Rightarrow>
           if \<not> listen_ok env then (s\<lparr>socket_file := socket_file s \<and> \<not> removed\<rparr>, Some ErrListen)
           else if \<not> chmod_ok env then (s\<lparr>socket_file := False\<rparr>, Some ErrChmod)
           else (s\<lparr>listening := True, listener_open := True, closed := False, active := {}, socket_file := True\<rparr>, None)))"

text \<open>
  The parts of \<^verbatim>\<open>Serve\<close> and \<^verbatim>\<open>Close\<close> between which other goroutines may run. An accepted socket is
  open before the server knows it; \<^verbatim>\<open>serve_track\<close> is the critical section after \<^verbatim>\<open>Accept\<close>, whose
  result says that the loop goes on.
\<close>

definition Serve_begin :: "server \<Rightarrow> (ipc_error option) option" where
  "Serve_begin s =
     (if closed s then Some None
      else if \<not> listening s then Some (Some ErrNotListening)
      else None)"

definition accept_error :: "server \<Rightarrow> ipc_error option" where
  "accept_error s = (if closed s then None else Some ErrAccept)"

definition serve_track :: "conn_id \<Rightarrow> server \<Rightarrow> server \<times> bool" where
  "serve_track c s =
     (if closed s then (s\<lparr>open_conns := open_conns s - {c}\<rparr>, False)
      else (s\<lparr>active := insert c (active s), waiting := insert c (waiting s)\<rparr>, True))"

definition trackConn :: "conn_id \<Rightarrow> server \<Rightarrow> server" where
  "trackConn c s =
     (if closed s then s\<lparr>open_conns := open_conns s - {c}\<rparr> else s\<lparr>active := insert c (active s)\<rparr>)"

definition untrackConn :: "conn_id \<Rightarrow> server \<Rightarrow> server" where
  "untrackConn c s = s\<lparr>active := active s - {c}\<rparr>"

text \<open>The goroutine of a connection returns: its socket is closed, it leaves the table and \<^verbatim>\<open>wg\<close>.\<close>

definition conn_returns :: "conn_id \<Rightarrow> server \<Rightarrow> server" where
  "conn_returns c s =
     (let s1 = s\<lparr>open_conns := open_conns s - {c}\<rparr>; s2 = untrackConn c s1 in s2\<lparr>waiting := waiting s2 - {c}\<rparr>)"

text \<open>
  \<^verbatim>\<open>Close\<close>: the critical section with the copy of the table (\<open>None\<close> when already closed), the closing
  of the listener, which removes its socket file, of the copied sockets, of the node streams and of the connection objects, the end after \<^verbatim>\<open>wg.Wait\<close>.
\<close>

definition Close_begin :: "server \<Rightarrow> server \<times> conn_id set option" where
  "Close_begin s = (if closed s then (s, None) else (s\<lparr>closed := True, listening := False\<rparr>, Some (active s)))"

definition Close_listener :: "server \<Rightarrow> server" where
  "Close_listener s = s\<lparr>listener_open := False, socket_file := False\<rparr>"

definition Close_conns :: "conn_id set \<Rightarrow> server \<Rightarrow> server" where
  "Close_conns cs s = s\<lparr>open_conns := open_conns s - cs\<rparr>"

definition Close_streams :: "stream_registry option \<times> conn_manager \<Rightarrow> stream_registry option \<times> conn_manager" where
  "Close_streams rm = (case rm of (nodeStreams, m) \<Rightarrow> (CloseAll_streams nodeStreams, CloseAll m))"

definition Close_end :: "bool \<Rightarrow> server \<Rightarrow> server \<times> ipc_error option" where
  "Close_end removed s = (if removed then (s\<lparr>socket_file := False\<rparr>, None) else (s, Some ErrRemoveSocket))"

definition isClosed :: "server \<Rightarrow> bool" where
  "isClosed s = closed s"

end
