(* ===== verification/Go_Json_Valid.thy ===== *)
theory Go_Json_Valid
  imports Go_Json_Facts
begin

text \<open>
  What the JSON reader of \<open>Go_Json\<close> yields is well formed: its strings are valid UTF-8 and its numbers
  are complete numbers, so writing a value that was read loses nothing.
\<close>

section \<open>Strings\<close>

text \<open>A piece of text that decodes by itself, whatever follows it.\<close>

definition whole_rune :: "string \<Rightarrow> bool" where
  "whole_rune x \<longleftrightarrow> x \<noteq> [] \<and> (\<exists>r. \<not> (r = RuneError \<and> length x = 1) \<and> (\<forall>t. decode_rune (x @ t) = (r, length x)))"

lemma valid_utf8_append: "whole_rune x \<Longrightarrow> valid_utf8 (x @ s) \<longleftrightarrow> valid_utf8 s"
proof -
  assume "whole_rune x"
  then obtain c cs r where x: "x = c # cs" "\<not> (r = RuneError \<and> length x = 1)" "\<And>t. decode_rune (x @ t) = (r, length x)"
    unfolding whole_rune_def by (metis list.exhaust)
  have "rune_segments (c # cs @ s) = (r, x) # rune_segments s"
    using x(3) [of s] by (subst rune_segments.simps) (simp add: x(1))
  with x(1,2) show ?thesis by (simp add: valid_utf8_def)
qed

lemma rune_digits: "(r::nat) = r div 4096 * 4096 + r div 64 mod 64 * 64 + r mod 64"
proof -
  have "r div 4096 = r div 64 div 64" by (simp add: div_mult2_eq [symmetric])
  then show ?thesis using div_mult_mod_eq [of "r div 64" 64] div_mult_mod_eq [of r 64] by linarith
qed

lemma whole_encode_2: "0x80 \<le> r \<Longrightarrow> r < 0x800 \<Longrightarrow> whole_rune (encode_rune r)"
proof -
  assume a: "0x80 \<le> r" "r < 0x800"
  then have d: "2 \<le> r div 64" "r div 64 < 32" by auto
  show ?thesis unfolding whole_rune_def
    using a d by (auto simp: encode_rune_def decode_rune_def decode2_def cont_byte_def rune2_def)
qed

lemma whole_encode_3: "0x800 \<le> r \<Longrightarrow> r < 0x10000 \<Longrightarrow> \<not> (0xD800 \<le> r \<and> r \<le> 0xDFFF) \<Longrightarrow> whole_rune (encode_rune r)"
proof -
  assume a: "0x800 \<le> r" "r < 0x10000" "\<not> (0xD800 \<le> r \<and> r \<le> 0xDFFF)"
  let ?a = "r div 4096" and ?b = "r div 64 mod 64" and ?c = "r mod 64"
  have e: "r = ?a * 4096 + ?b * 64 + ?c" by (rule rune_digits)
  have d: "?a < 16" "?b < 64" "?c < 64" using a by auto
  have lo: "?a = 0 \<Longrightarrow> 32 \<le> ?b" using e d a by linarith
  have hi: "?a = 13 \<Longrightarrow> ?b < 32" using e d a by linarith
  have acc: "accept3 (char_of (0xE0 + ?a)) (char_of (0x80 + ?b)) (char_of (0x80 + ?c))"
    using d lo hi by (auto simp: accept3_def cont_byte_def)
  have b: "byte_of (char_of (0xE0 + ?a) :: char) = 0xE0 + ?a" using d by simp
  have "decode_rune (encode_rune r @ t) = (rune3 (char_of (0xE0 + ?a)) (char_of (0x80 + ?b)) (char_of (0x80 + ?c)), 3)" for t
  proof -
    have "encode_rune r = [char_of (0xE0 + ?a), char_of (0x80 + ?b), char_of (0x80 + ?c)]"
      using a by (auto simp: encode_rune_def)
    then show ?thesis using d acc b by (simp add: decode_rune_def decode3_def)
  qed
  moreover have "length (encode_rune r) = 3" using a by (simp add: encode_rune_def)
  ultimately show ?thesis unfolding whole_rune_def by (auto intro!: exI)
qed

lemma whole_encode_4: "0x10000 \<le> r \<Longrightarrow> r \<le> 0x10FFFF \<Longrightarrow> whole_rune (encode_rune r)"
proof -
  assume a: "0x10000 \<le> r" "r \<le> 0x10FFFF"
  let ?z = "r div 262144" and ?a = "r div 4096 mod 64" and ?b = "r div 64 mod 64" and ?c = "r mod 64"
  have "?z = r div 4096 div 64" by (simp add: div_mult2_eq [symmetric])
  then have z: "r div 4096 = ?z * 64 + ?a" using div_mult_mod_eq [of "r div 4096" 64] by linarith
  have q: "16 \<le> r div 4096" "r div 4096 < 272" using a by auto
  have d: "?z < 5" "?a < 64" "?b < 64" "?c < 64" using a by auto
  have lo: "?z = 0 \<Longrightarrow> 16 \<le> ?a" and hi: "?z = 4 \<Longrightarrow> ?a < 16" using z q by linarith+
  have acc: "accept4 (char_of (0xF0 + ?z)) (char_of (0x80 + ?a)) (char_of (0x80 + ?b)) (char_of (0x80 + ?c))"
    using d lo hi by (auto simp: accept4_def cont_byte_def)
  have b: "byte_of (char_of (0xF0 + ?z) :: char) = 0xF0 + ?z" using d by simp
  have "decode_rune (encode_rune r @ t) = (rune4 (char_of (0xF0 + ?z)) (char_of (0x80 + ?a)) (char_of (0x80 + ?b)) (char_of (0x80 + ?c)), 4)" for t
  proof -
    have "encode_rune r = [char_of (0xF0 + ?z), char_of (0x80 + ?a), char_of (0x80 + ?b), char_of (0x80 + ?c)]"
      using a by (auto simp: encode_rune_def)
    then show ?thesis using d acc b by (simp add: decode_rune_def decode4_def)
  qed
  moreover have "length (encode_rune r) = 4" using a by (simp add: encode_rune_def)
  ultimately show ?thesis unfolding whole_rune_def by (auto intro!: exI)
qed

lemma whole_ascii: "byte_of c < 0x80 \<Longrightarrow> whole_rune [c]"
  by (auto simp: whole_rune_def decode_rune_def RuneError_def)

lemma whole_encode: "whole_rune (encode_rune r)"
proof -
  consider "r < 0x80" | "0x80 \<le> r" "r < 0x800" | "r > 0x10FFFF \<or> (0xD800 \<le> r \<and> r \<le> 0xDFFF)"
    | "0x800 \<le> r" "r < 0x10000" "\<not> (0xD800 \<le> r \<and> r \<le> 0xDFFF)" | "0x10000 \<le> r" "r \<le> 0x10FFFF" by linarith
  then show ?thesis
  proof cases
    case 1
    then show ?thesis using whole_ascii [of "char_of r"] by (simp add: encode_rune_def)
  next
    case 3
    then have "encode_rune r = encode_rune 0xFFFD" by (auto simp: encode_rune_def)
    then show ?thesis using whole_encode_3 [of "0xFFFD"] by simp
  qed (use whole_encode_2 whole_encode_3 whole_encode_4 in auto)
qed

lemma decode_rune_cases:
  assumes "decode_rune (c # cs) = (r, n)" "r \<noteq> RuneError"
  obtains "byte_of c < 0x80" "n = 1"
  | c1 t where "cs = c1 # t" "0xC2 \<le> byte_of c" "byte_of c \<le> 0xDF" "cont_byte 0x80 0xBF c1" "n = 2"
  | c1 c2 t where "cs = c1 # c2 # t" "0xE0 \<le> byte_of c" "byte_of c \<le> 0xEF" "accept3 c c1 c2" "n = 3"
  | c1 c2 c3 t where "cs = c1 # c2 # c3 # t" "0xF0 \<le> byte_of c" "byte_of c \<le> 0xF4" "accept4 c c1 c2 c3" "n = 4"
proof -
  consider "byte_of c < 0x80" | "0xC2 \<le> byte_of c" "byte_of c \<le> 0xDF" | "0xE0 \<le> byte_of c" "byte_of c \<le> 0xEF"
    | "0xF0 \<le> byte_of c" "byte_of c \<le> 0xF4" | "decode_rune (c # cs) = (RuneError, 1)"
    by (force simp: decode_rune_def)
  then show thesis
    by cases (use assms that in \<open>auto simp: decode_rune_def decode2_def decode3_def decode4_def split: list.splits if_splits\<close>)
qed

lemma whole_segment:
  assumes "decode_rune (c # cs) = (r, n)" "r \<noteq> RuneError"
  shows "whole_rune (take n (c # cs))"
  using assms
proof (cases rule: decode_rune_cases)
  case 1
  then show ?thesis by (simp add: whole_ascii)
qed (auto simp: whole_rune_def decode_rune_def decode2_def decode3_def decode4_def)

lemma parse_str_utf8: "parse_str s = Some (x, t) \<Longrightarrow> valid_utf8 x"
proof (induction s arbitrary: x t rule: parse_str.induct)
  case (2 c cs)
  have nil: "valid_utf8 []" by (simp add: valid_utf8_def)
  have esc: "whole_rune [y]" if "simple_escape e = Some y" for e y
    using that by (intro whole_ascii) (auto simp: simple_escape_def backslash_def quote_def split: if_splits)
  obtain r n where d: "decode_rune (c # cs) = (r, n)" by fastforce
  have seg: "whole_rune (if r = RuneError then encode_rune RuneError else take n (c # cs))"
    using whole_segment [OF d] whole_encode by simp
  consider "c = quote" | "c \<noteq> quote" "\<not> byte_of c < 0x20" "c = backslash" | "c \<noteq> quote" "\<not> byte_of c < 0x20" "c \<noteq> backslash"
    using "2.prems" by (auto split: if_splits)
  then show ?case
  proof cases
    case 1
    then show ?thesis using "2.prems" nil by simp
  next
    case 2
    with "2.prems" obtain e es where cs: "cs = e # es" by (auto split: list.splits)
    show ?thesis
    proof (cases "e = CHR ''u''")
      case True
      with 2 "2.prems" cs obtain k m y where y: "u_escape es = Some (k, m)" "parse_str (drop m es) = Some (y, t)" "x = encode_rune k @ y"
        by (auto simp: cons_str_def split: option.splits prod.splits)
      then have "valid_utf8 y" using "2.IH"(1) 2 cs True by blast
      then show ?thesis using y(3) whole_encode valid_utf8_append by simp
    next
      case False
      with 2 "2.prems" cs obtain z y where y: "simple_escape e = Some z" "parse_str es = Some (y, t)" "x = z # y"
        by (auto simp: cons_str_def split: option.splits prod.splits)
      then have "valid_utf8 y" using "2.IH"(2) 2 cs False by blast
      then show ?thesis using y valid_utf8_append [OF esc [OF y(1)], of y] by simp
    qed
  next
    case 3
    with "2.prems" d obtain y where y: "parse_str (drop (n - 1) cs) = Some (y, t)"
        "x = (if r = RuneError then encode_rune RuneError else take n (c # cs)) @ y"
      by (auto simp: cons_str_def split: option.splits prod.splits)
    then have "valid_utf8 y" using "2.IH"(3) 3 d by auto
    then show ?thesis using y(2) seg valid_utf8_append by simp
  qed
qed simp

section \<open>Numbers\<close>

definition no_digit :: "string \<Rightarrow> bool" where
  "no_digit t \<longleftrightarrow> t = [] \<or> \<not> is_dig (hd t)"

lemma scan_digits_iff: "scan_digits s = Some (d, r) \<longleftrightarrow> s = d @ r \<and> d \<noteq> [] \<and> list_all is_dig d \<and> no_digit r"
proof
  assume "scan_digits s = Some (d, r)"
  then have *: "s \<noteq> []" "is_dig (hd s)" "d = takeWhile is_dig s" "r = dropWhile is_dig s"
    by (auto simp: scan_digits_def split: if_splits)
  then show "s = d @ r \<and> d \<noteq> [] \<and> list_all is_dig d \<and> no_digit r"
    using hd_dropWhile [of is_dig s] by (cases s) (auto simp: list_all_iff no_digit_def dropWhile_eq_Nil_conv dest: set_takeWhileD)
next
  assume *: "s = d @ r \<and> d \<noteq> [] \<and> list_all is_dig d \<and> no_digit r"
  then have "takeWhile is_dig s = d" "dropWhile is_dig s = r"
    by (cases r; auto simp: list_all_iff no_digit_def takeWhile_append dropWhile_append)+
  with * show "scan_digits s = Some (d, r)" by (cases d) (auto simp: scan_digits_def)
qed

lemma scan_int_iff:
  "scan_int s = Some (d, r) \<longleftrightarrow> s = d @ r \<and> (d = ''0'' \<or> d \<noteq> [] \<and> hd d \<noteq> CHR ''0'' \<and> list_all is_dig d \<and> no_digit r)"
  by (cases s; cases d) (auto simp: scan_int_def scan_digits_iff)

lemma scan_frac_iff:
  "scan_frac s = Some (f, r) \<longleftrightarrow> s = f @ r \<and>
     (f = [] \<and> (r = [] \<or> hd r \<noteq> CHR ''.'') \<or> (\<exists>d. f = CHR ''.'' # d \<and> d \<noteq> [] \<and> list_all is_dig d \<and> no_digit r))"
  by (cases s; cases f) (auto simp: scan_frac_def scan_digits_iff)

lemma scan_exp_iff:
  "scan_exp s = Some (e, r) \<longleftrightarrow> s = e @ r \<and>
     (e = [] \<and> (r = [] \<or> hd r \<notin> {CHR ''e'', CHR ''E''}) \<or>
      (\<exists>c sg d. e = c # sg @ d \<and> c \<in> {CHR ''e'', CHR ''E''} \<and> sg \<in> {[], ''+'', ''-''} \<and> d \<noteq> [] \<and> list_all is_dig d \<and> no_digit r))"
proof (cases "s \<noteq> [] \<and> hd s \<in> {CHR ''e'', CHR ''E''}")
  case True
  then obtain c t where s: "s = c # t" "c \<in> {CHR ''e'', CHR ''E''}" by (cases s) auto
  obtain sg u where u: "scan_sign {CHR ''+'', CHR ''-''} t = (sg, u)" by fastforce
  have t: "t = sg @ u" "sg \<in> {[], ''+'', ''-''}" "sg = [] \<Longrightarrow> t = [] \<or> hd t \<notin> {CHR ''+'', CHR ''-''}"
    using u by (auto simp: scan_sign_def split: list.splits if_splits)
  have "scan_exp s = Some (e, r) \<longleftrightarrow> (\<exists>d. e = c # sg @ d \<and> scan_digits u = Some (d, r))"
    using s u by (auto simp: scan_exp_def)
  also have "\<dots> \<longleftrightarrow> (\<exists>d. e = c # sg @ d \<and> u = d @ r \<and> d \<noteq> [] \<and> list_all is_dig d \<and> no_digit r)"
    by (simp add: scan_digits_iff)
  also have "\<dots> \<longleftrightarrow> s = e @ r \<and> (e = [] \<and> (r = [] \<or> hd r \<notin> {CHR ''e'', CHR ''E''}) \<or>
      (\<exists>c sg d. e = c # sg @ d \<and> c \<in> {CHR ''e'', CHR ''E''} \<and> sg \<in> {[], ''+'', ''-''} \<and> d \<noteq> [] \<and> list_all is_dig d \<and> no_digit r))"
    (is "_ \<longleftrightarrow> ?R")
  proof
    assume R: ?R
    then have "e \<noteq> []" using s by auto
    with R obtain c' sg' d where e: "s = e @ r" "e = c' # sg' @ d" "sg' \<in> {[], ''+'', ''-''}" "d \<noteq> []" "list_all is_dig d" "no_digit r"
      by blast
    then have "t = sg' @ d @ r" "c' = c" using s by auto
    moreover have "\<not> is_dig CHR ''+''" "\<not> is_dig CHR ''-''" by (simp_all add: is_dig_def)
    ultimately have h: "sg' = [] \<Longrightarrow> is_dig (hd t)" "sg' \<noteq> [] \<Longrightarrow> sg' = [hd t] \<and> \<not> is_dig (hd t) \<and> hd t \<in> {CHR ''+'', CHR ''-''}"
      using e(3-5) by (cases d, simp_all, force)
    have "sg = [] \<or> sg = [hd t] \<and> \<not> is_dig (hd t)" using t(1,2) \<open>\<not> is_dig CHR ''+''\<close> \<open>\<not> is_dig CHR ''-''\<close> by auto
    then have "sg' = sg" using h t(3) \<open>t = sg' @ d @ r\<close> by fastforce
    then have "u = d @ r" "e = c # sg @ d" using t(1) \<open>t = sg' @ d @ r\<close> \<open>c' = c\<close> e(2) by simp_all
    with e(4-6) show "\<exists>d. e = c # sg @ d \<and> u = d @ r \<and> d \<noteq> [] \<and> list_all is_dig d \<and> no_digit r" by blast
  next
    assume "\<exists>d. e = c # sg @ d \<and> u = d @ r \<and> d \<noteq> [] \<and> list_all is_dig d \<and> no_digit r"
    then show ?R using s t(1,2) by (auto simp del: insert_iff) (blast+)?
  qed
  finally show ?thesis .
next
  case False
  then show ?thesis by (cases s) (auto simp: scan_exp_def)
qed

lemma scan_number_own: "scan_number s = Some (x, r) \<Longrightarrow> num_ok x"
proof -
  assume "scan_number s = Some (x, r)"
  then obtain sg s1 i s2 f s3 e where *: "scan_sign {CHR ''-''} s = (sg, s1)" "scan_int s1 = Some (i, s2)"
      "scan_frac s2 = Some (f, s3)" "scan_exp s3 = Some (e, r)" "x = sg @ i @ f @ e"
    by (auto simp: scan_number_def Let_def split: option.splits prod.splits)
  have nd: "\<not> is_dig CHR ''.''" "\<not> is_dig CHR ''e''" "\<not> is_dig CHR ''E''" "\<not> is_dig CHR ''-''" by (simp_all add: is_dig_def)
  have e: "scan_exp e = Some (e, [])" and e0: "e = [] \<or> hd e \<in> {CHR ''e'', CHR ''E''}"
    using *(4) by (auto simp: scan_exp_iff no_digit_def)
  have f: "scan_frac (f @ e) = Some (f, e)" and f0: "no_digit (f @ e)"
    using *(3) e0 nd by (auto simp: scan_frac_iff no_digit_def)
  have i: "scan_int (i @ f @ e) = Some (i, f @ e)" and i0: "i \<noteq> []" "hd i \<noteq> CHR ''-''"
    using *(2) f0 nd by (auto simp: scan_int_iff list_all_iff) (metis hd_in_set)
  have "scan_sign {CHR ''-''} x = (sg, i @ f @ e)"
    using *(1,5) i0 by (cases i) (auto simp: scan_sign_def split: list.splits if_splits)
  with e f i *(5) show ?thesis by (simp add: num_ok_def scan_number_def)
qed

section \<open>Values\<close>

lemma parse_ok:
  "parse_val n s = Some (v, t) \<Longrightarrow> json_ok v"
  "parse_elems n s = Some (vs, t) \<Longrightarrow> list_all json_ok vs"
  "parse_members n s = Some (ms, t) \<Longrightarrow> list_all (\<lambda>(k, v). valid_utf8 k \<and> json_ok v) ms"
proof (induction n s and n s and n s arbitrary: v t and vs t and ms t rule: parse_val_parse_elems_parse_members.induct)
  case (2 n s)
  from 2(3) show ?case using 2(1,2)
    by (auto simp: parse_val.simps(2) parse_scalar_def literal_def dest: parse_str_utf8 scan_number_own split: if_splits list.splits)
next
  case (4 n s)
  then show ?case by (auto simp: parse_elems.simps(2) split: if_splits option.splits)
next
  case (6 n s)
  then show ?case by (auto simp: parse_members.simps(2) split: if_splits option.splits) (erule parse_str_utf8)+
qed (auto simp: parse_val.simps(1) parse_elems.simps(1) parse_members.simps(1))

lemma read_value_ok: "read_value s = Some (v, t) \<Longrightarrow> json_ok v"
  unfolding read_value_iff using parse_ok(1) by blast

end
