(* ===== verification/Ipc_Props.thy ===== *)
theory Ipc_Props
  imports Ipc Go_Json_Valid Protocol_Props
begin

text \<open>
  The replay cache recognises repeated requests by their meaning and answers them without doing them
  again; the loop of a connection answers its frames in order; the listening socket is never stolen
  and closing the server leaves no connection open.
\<close>

section \<open>What a JSON value means\<close>

text \<open>Objects as finite maps; of repeated keys the last counts. Numbers are compared as written.\<close>

datatype jval = VNull | VBool bool | VNum string | VStr string | VArr "jval list" | VObj "string \<Rightarrow> jval option"

fun meaning :: "json \<Rightarrow> jval" where
  "meaning JNull = VNull"
| "meaning (JBool b) = VBool b"
| "meaning (JNum x) = VNum x"
| "meaning (JStr x) = VStr x"
| "meaning (JArr vs) = VArr (map meaning vs)"
| "meaning (JObj ms) = VObj (map_of (rev (map (\<lambda>(k, v). (k, meaning v)) ms)))"

lemma last_wins_keys: "fst ` set (last_wins ms) = fst ` set ms" "distinct (map fst (last_wins ms))"
  by (induction ms) auto

lemma map_of_last_wins: "map_of (last_wins ms) = map_of (rev ms)"
proof (induction ms)
  case (Cons m ms)
  obtain k v where m: "m = (k, v)" by fastforce
  have keys: "k \<in> fst ` set ms \<longleftrightarrow> map_of (rev ms) k \<noteq> None" by (simp add: map_of_eq_None_iff)
  show ?case
  proof
    fix x
    show "map_of (last_wins (m # ms)) x = map_of (rev (m # ms)) x"
      using Cons keys by (cases "map_of (rev ms) x") (auto simp: m map_add_def)
  qed
qed simp

lemma map_of_values: "map_of (map (\<lambda>(k, v). (k, f v)) ms) k = map_option f (map_of ms k)"
  by (induction ms) auto

lemma map_of_sorted: "distinct (map fst ms) \<Longrightarrow> map_of (sort_key fst ms) = map_of ms"
  by (rule map_of_inject_set [THEN iffD2]) (auto simp: distinct_map)

lemma map_of_rev: "distinct (map fst ms) \<Longrightarrow> map_of (rev ms) = map_of ms"
  by (rule map_of_inject_set [THEN iffD2]) (auto simp: rev_map [symmetric])

lemma canonical_members:
  "distinct (map fst (sort_key fst (last_wins (map (\<lambda>(k, v). (k, canonical v)) ms))))"
  "sorted (map fst (sort_key fst (last_wins (map (\<lambda>(k, v). (k, canonical v)) ms))))"
  "map_of (sort_key fst (last_wins (map (\<lambda>(k, v). (k, canonical v)) ms))) k = map_option canonical (map_of (rev ms) k)"
proof -
  let ?l = "last_wins (map (\<lambda>(k, v). (k, canonical v)) ms)"
  have d: "distinct (map fst ?l)" by (rule last_wins_keys)
  then show "distinct (map fst (sort_key fst ?l))" by (auto simp: distinct_map)
  show "sorted (map fst (sort_key fst ?l))" by simp
  show "map_of (sort_key fst ?l) k = map_option canonical (map_of (rev ms) k)"
    by (simp add: map_of_sorted [OF d] map_of_last_wins rev_map map_of_values)
qed

lemma meaning_canonical: "meaning (canonical v) = meaning v"
proof (induction v)
  case (JObj ms)
  let ?s = "sort_key fst (last_wins (map (\<lambda>(k, v). (k, canonical v)) ms))"
  have "map_option meaning (map_option canonical (map_of (rev ms) k)) = map_option meaning (map_of (rev ms) k)" for k
    using JObj by (cases "map_of (rev ms) k") (auto dest!: map_of_SomeD)
  then have "map_option meaning (map_of ?s k) = map_option meaning (map_of (rev ms) k)" for k
    by (simp add: canonical_members(3))
  moreover have "map_of (rev (map (\<lambda>(k, v). (k, meaning v)) ?s)) = map_of (map (\<lambda>(k, v). (k, meaning v)) ?s)"
    using canonical_members(1) [of ms] by (intro map_of_rev) (simp add: comp_def case_prod_beta)
  ultimately show ?case by (simp add: map_of_values rev_map [symmetric] fun_eq_iff) (simp add: rev_map map_of_values)
qed auto

lemma canonical_determined: "meaning u = meaning v \<Longrightarrow> canonical u = canonical v"
proof (induction u arbitrary: v)
  case (JArr us)
  then obtain vs where v: "v = JArr vs" "map meaning us = map meaning vs" by (cases v) auto
  then have "length us = length vs" by (metis length_map)
  then have "canonical (us ! i) = canonical (vs ! i)" if "i < length us" for i
    using JArr.IH [of "us ! i" "vs ! i"] v(2) that by (metis nth_map nth_mem)
  then show ?case using v(1) \<open>length us = length vs\<close> by (auto intro: nth_equalityI)
next
  case (JObj ms)
  then obtain ns where v: "v = JObj ns" and m: "map_of (rev (map (\<lambda>(k, v). (k, meaning v)) ms)) = map_of (rev (map (\<lambda>(k, v). (k, meaning v)) ns))"
    by (cases v) auto
  have "map_option canonical (map_of (rev ms) k) = map_option canonical (map_of (rev ns) k)" for k
  proof (cases "map_of (rev ms) k")
    case None
    then show ?thesis using fun_cong [OF m, of k] by (simp add: rev_map map_of_values)
  next
    case (Some x)
    then obtain y where y: "map_of (rev ns) k = Some y" "meaning x = meaning y"
      using fun_cong [OF m, of k] by (cases "map_of (rev ns) k") (auto simp: rev_map map_of_values)
    have "(k, x) \<in> set ms" using map_of_SomeD [OF Some] by simp
    then have "canonical x = canonical y" using JObj.IH y(2) by fastforce
    with Some y show ?thesis by simp
  qed
  then have "map_of (sort_key fst (last_wins (map (\<lambda>(k, v). (k, canonical v)) ms))) =
      map_of (sort_key fst (last_wins (map (\<lambda>(k, v). (k, canonical v)) ns)))"
    by (auto simp: canonical_members(3) fun_eq_iff)
  then have "set (sort_key fst (last_wins (map (\<lambda>(k, v). (k, canonical v)) ms))) =
      set (sort_key fst (last_wins (map (\<lambda>(k, v). (k, canonical v)) ns)))"
    using canonical_members(1) map_of_inject_set by blast
  moreover have "inj_on fst (set (sort_key fst (last_wins (map (\<lambda>(k, v). (k, canonical v)) ns))))"
    using canonical_members(1) [of ns] unfolding distinct_map by blast
  ultimately have "sort_key fst (last_wins (map (\<lambda>(k, v). (k, canonical v)) ms)) =
      sort_key fst (last_wins (map (\<lambda>(k, v). (k, canonical v)) ns))"
    by (intro map_sorted_distinct_set_unique [where f = fst] canonical_members) (simp_all del: set_sort)
  then show ?case by (simp add: v)
qed (case_tac v; simp)+

section \<open>Fingerprints\<close>

lemma canonical_ok: "json_ok v \<Longrightarrow> json_ok (canonical v)"
proof (induction v)
  case (JObj ms)
  have sub: "set (last_wins xs) \<subseteq> set xs" for xs :: "(string \<times> json) list"
    by (induction xs) auto
  have "valid_utf8 k \<and> json_ok w" if "(k, w) \<in> set (map (\<lambda>(k, v). (k, canonical v)) ms)" for k w
    using that JObj by (fastforce simp: list_all_iff)
  then show ?case using sub by (fastforce simp: list_all_iff)
qed (auto simp: list_all_iff)

lemma known_type_utf8: "IsKnown t \<Longrightarrow> valid_utf8 t"
  by (auto simp: IsKnown_def intro!: ascii_valid)

lemma fingerprint_ok:
  assumes "ValidateEnvelope m = Inr ()" "json_ok v"
  shows "json_ok (fingerprint_json m v)"
proof -
  have "Protocol m = ProtocolName" "Version m = ProtocolVersion" "IsKnown (MsgType m)"
    using assms(1) by (auto simp: ValidateEnvelope_def split: if_splits)
  moreover have "valid_utf8 ProtocolName" "valid_utf8 ProtocolVersion" "valid_utf8 ''protocol''" "valid_utf8 ''version''"
      "valid_utf8 ''type''" "valid_utf8 ''payload''"
    by (rule ascii_valid; simp add: ProtocolName_def ProtocolVersion_def)+
  ultimately show ?thesis using known_type_utf8 canonical_ok [OF assms(2)] by (simp add: fingerprint_json_def)
qed

lemma json_text_inject: "json_ok u \<Longrightarrow> json_ok v \<Longrightarrow> json_text u = json_text v \<longleftrightarrow> u = v"
  by (metis option.inject read_text_json_text)

text \<open>
  C27: Two requests that the decoder accepted have the same fingerprint exactly when they are of the same
  type and their payloads mean the same JSON value: white space, escapes and the order of members do
  not count, everything else does. This needs that the hash does not collide on the two texts.\<close>

theorem fingerprint_same_request:
  assumes "ValidateEnvelope m1 = Inr ()" "ValidateEnvelope m2 = Inr ()"
    "Payload m1 = Some p1" "Payload m2 = Some p2" "read_value p1 = Some (v1, t1)" "read_value p2 = Some (v2, t2)"
    "jdepth v1 \<le> max_depth" "jdepth v2 \<le> max_depth"
    "inj_on sha256 {json_text (fingerprint_json m1 v1), json_text (fingerprint_json m2 v2)}"
  shows "requestFingerprint sha256 m1 \<noteq> None \<and>
    (requestFingerprint sha256 m1 = requestFingerprint sha256 m2 \<longleftrightarrow> MsgType m1 = MsgType m2 \<and> meaning v1 = meaning v2)"
proof -
  have f: "requestFingerprint sha256 m1 = Some (sha256 (json_text (fingerprint_json m1 v1)))"
      "requestFingerprint sha256 m2 = Some (sha256 (json_text (fingerprint_json m2 v2)))"
    using assms by (simp_all add: requestFingerprint_def)
  have "sha256 (json_text (fingerprint_json m1 v1)) = sha256 (json_text (fingerprint_json m2 v2)) \<longleftrightarrow>
      json_text (fingerprint_json m1 v1) = json_text (fingerprint_json m2 v2)"
    by (rule inj_on_eq_iff [OF assms(9)]) simp_all
  also have "\<dots> \<longleftrightarrow> fingerprint_json m1 v1 = fingerprint_json m2 v2"
    by (rule json_text_inject [OF fingerprint_ok [OF assms(1) read_value_ok [OF assms(5)]] fingerprint_ok [OF assms(2) read_value_ok [OF assms(6)]]])
  also have "\<dots> \<longleftrightarrow> MsgType m1 = MsgType m2 \<and> canonical v1 = canonical v2"
  proof -
    have "Protocol m1 = Protocol m2" "Version m1 = Version m2"
      using assms(1,2) by (simp_all add: ValidateEnvelope_def split: if_split_asm)
    then show ?thesis by (simp add: fingerprint_json_def)
  qed
  also have "canonical v1 = canonical v2 \<longleftrightarrow> meaning v1 = meaning v2"
    using canonical_determined meaning_canonical by metis
  finally show ?thesis by (simp add: f)
qed

text \<open>\<^verbatim>\<open>{"a":1,"b":2}\<close> and \<^verbatim>\<open>{"b":2,"a":1}\<close>.\<close>

definition sample_object :: "string list \<Rightarrow> json" where
  "sample_object ks = JObj (map (\<lambda>k. (k, JStr k)) ks)"

theorem fingerprint_same_request_witness:
  "requestFingerprint (\<lambda>x. x) (NewEnvelope ''t'' ''m1'' MessagePing (Some (json_text (sample_object [''a'', ''b''])))) =
   requestFingerprint (\<lambda>x. x) (NewEnvelope ''u'' ''m2'' MessagePing (Some (json_text (sample_object [''b'', ''a'']))))"
proof -
  have u: "valid_utf8 ''a''" "valid_utf8 ''b''" by (rule ascii_valid; simp)+
  have ok: "json_ok (sample_object [''a'', ''b''])" "json_ok (sample_object [''b'', ''a''])" by (simp_all add: sample_object_def u)
  have ne: "json_text (sample_object ks) \<noteq> []" for ks by (simp add: sample_object_def)
  have v: "ValidateEnvelope (NewEnvelope x (y # ys) MessagePing (Some (json_text (sample_object ks)))) = Inr ()" for x y ys ks
    using ne [of ks] by (simp add: ValidateEnvelope_def NewEnvelope_def ProtocolName_def ProtocolVersion_def IsKnown_def blen_def
        del: json_text.simps)
  have r: "read_value (json_text (sample_object [''a'', ''b''])) = Some (sample_object [''a'', ''b''], [])"
      "read_value (json_text (sample_object [''b'', ''a''])) = Some (sample_object [''b'', ''a''], [])"
    using read_value_json_text [of _ "[]"] ok by simp_all
  have d: "jdepth (sample_object [''a'', ''b'']) \<le> max_depth" "jdepth (sample_object [''b'', ''a'']) \<le> max_depth"
    by (simp_all add: sample_object_def max_depth_def)
  have "meaning (sample_object [''a'', ''b'']) = meaning (sample_object [''b'', ''a''])" by (auto simp: sample_object_def)
  then show ?thesis
    using fingerprint_same_request [OF v v _ _ r d inj_on_id2] by (simp add: NewEnvelope_def del: json_text.simps)
qed

section \<open>Requests of one connection\<close>

text \<open>
  A request with the clock at its arrival and what dispatching it does. A run lists, for each request
  served, the state before, the answer, whether the connection is closed after it, and the state
  after.
\<close>

type_synonym 'w request = "string \<times> envelope \<times> ('w \<Rightarrow> 'w \<times> envelope)"

fun replay_run ::
  "(bytes \<Rightarrow> bytes) \<Rightarrow> 'w request list \<Rightarrow> requestReplayCache \<times> 'w \<Rightarrow> ('w \<times> envelope \<times> bool \<times> 'w) list" where
  "replay_run sha256 [] cw = []"
| "replay_run sha256 ((now, m, d) # rs) cw =
     (case replay_Dispatch sha256 now m d cw of
        ((cs, w'), e, close) \<Rightarrow> (snd cw, e, close, w') # (if close then [] else replay_run sha256 rs (cs, w')))"

abbreviation req_id :: "'w request \<Rightarrow> string" where "req_id q \<equiv> MessageID (fst (snd q))"
abbreviation req_now :: "'w request \<Rightarrow> string" where "req_now q \<equiv> fst q"
abbreviation req_print :: "(bytes \<Rightarrow> bytes) \<Rightarrow> 'w request \<Rightarrow> bytes option" where
  "req_print sha256 q \<equiv> requestFingerprint sha256 (fst (snd q))"

text \<open>The answer to a request whose identifier is in the cache, which leaves the state alone.\<close>

definition cached_answer :: "(bytes \<Rightarrow> bytes) \<Rightarrow> cachedRequest \<Rightarrow> 'w request \<Rightarrow> envelope" where
  "cached_answer sha256 e q =
     (if req_print sha256 q = None then invalid_message (req_now q) (req_id q)
      else if req_print sha256 q = Some (cached_fingerprint e) then cached_response e
      else conflict_message (req_now q) (req_id q))"

lemma replay_Dispatch_cases:
  assumes "replay_Dispatch sha256 now m d (cs, w) = ((cs', w'), e, close)"
  obtains (invalid) "requestFingerprint sha256 m = None" "cs' = cs" "w' = w" "e = invalid_message now (MessageID m)" "\<not> close"
  | (hit) p where "map_of cs (MessageID m) = Some p" "cs' = cs" "w' = w" "e = cached_answer sha256 p (now, m, d)" "\<not> close"
  | (limit) "cs' = cs" "w' = w" "close" "map_of cs (MessageID m) = None" "length cs \<ge> maxCachedRequestsPerConnection"
  | (fresh) f where "requestFingerprint sha256 m = Some f" "map_of cs (MessageID m) = None" "length cs < maxCachedRequestsPerConnection"
      "d w = (w', e)" "cs' = cs @ [(MessageID m, \<lparr>cached_fingerprint = f, cached_response = e\<rparr>)]" "\<not> close"
  using assms unfolding replay_Dispatch_def cached_answer_def
  by (auto simp: Let_def case_prod_beta split: option.splits if_splits)

text \<open>Once an identifier is in the cache, every later request with it is answered from there.\<close>

lemma replay_run_cached:
  assumes "map_of cs mid = Some p" "j < length (replay_run sha256 rs (cs, w))" "req_id (rs ! j) = mid"
  shows "\<exists>w1. replay_run sha256 rs (cs, w) ! j = (w1, cached_answer sha256 p (rs ! j), False, w1)"
  using assms
proof (induction rs arbitrary: cs w j)
  case (Cons q rs)
  obtain now m d where q: "q = (now, m, d)" by (cases q)
  obtain cs' w' e close where D: "replay_Dispatch sha256 now m d (cs, w) = ((cs', w'), e, close)" by (metis surj_pair)
  from D have keep: "map_of cs' mid = Some p"
    by (cases rule: replay_Dispatch_cases) (use Cons.prems(1) in \<open>auto simp: map_add_def\<close>)
  show ?case
  proof (cases j)
    case 0
    then have mid: "MessageID m = mid" using Cons.prems(3) q by simp
    have "w' = w \<and> e = cached_answer sha256 p q \<and> \<not> close"
      using D by (cases rule: replay_Dispatch_cases) (use mid Cons.prems(1) q in \<open>auto simp: cached_answer_def\<close>)
    then show ?thesis using 0 q D by simp
  next
    case (Suc k)
    then have c: "\<not> close" "k < length (replay_run sha256 rs (cs', w'))"
      using Cons.prems(2) q D by (auto split: if_splits)
    then have "replay_run sha256 (q # rs) (cs, w) ! j = replay_run sha256 rs (cs', w') ! k" using q D Suc by simp
    with Cons.IH [OF keep c(2)] Cons.prems(3) Suc show ?thesis by simp
  qed
qed simp

text \<open>The first proper use of an identifier is dispatched and remembered.\<close>

lemma replay_run_first:
  assumes "map_of cs mid = None" "i < j" "j < length (replay_run sha256 rs (cs, w))"
    "req_id (rs ! i) = mid" "req_print sha256 (rs ! i) = Some f" "req_id (rs ! j) = mid"
    "\<And>h. h < i \<Longrightarrow> req_id (rs ! h) = mid \<Longrightarrow> req_print sha256 (rs ! h) = None"
  shows "\<exists>w0 e w1 w2. snd (snd (rs ! i)) w0 = (w1, e) \<and> replay_run sha256 rs (cs, w) ! i = (w0, e, False, w1) \<and>
    replay_run sha256 rs (cs, w) ! j = (w2, cached_answer sha256 \<lparr>cached_fingerprint = f, cached_response = e\<rparr> (rs ! j), False, w2)"
  using assms
proof (induction rs arbitrary: cs w i j)
  case (Cons q rs)
  obtain now m d where q: "q = (now, m, d)" by (cases q)
  obtain cs' w' e close where D: "replay_Dispatch sha256 now m d (cs, w) = ((cs', w'), e, close)" by (metis surj_pair)
  obtain k where j: "j = Suc k" using Cons.prems(2) by (cases j) auto
  have c: "\<not> close" "k < length (replay_run sha256 rs (cs', w'))"
    using Cons.prems(3) q D j by (auto split: if_splits)
  have run: "replay_run sha256 (q # rs) (cs, w) = (w, e, False, w') # replay_run sha256 rs (cs', w')" using q D c by simp
  show ?case
  proof (cases i)
    case 0
    have f: "MessageID m = mid" "requestFingerprint sha256 m = Some f" using Cons.prems(4,5) 0 q by simp_all
    from D have "d w = (w', e) \<and> cs' = cs @ [(mid, \<lparr>cached_fingerprint = f, cached_response = e\<rparr>)]"
      by (cases rule: replay_Dispatch_cases) (use f Cons.prems(1) c in auto)
    then have "d w = (w', e)" "map_of cs' mid = Some \<lparr>cached_fingerprint = f, cached_response = e\<rparr>"
      using Cons.prems(1) by (auto simp: map_add_def)
    with replay_run_cached [OF this(2) c(2)] Cons.prems(6) show ?thesis using 0 j q run by auto
  next
    case (Suc l)
    have n: "MessageID m \<noteq> mid \<or> requestFingerprint sha256 m = None" using Cons.prems(7) [of 0] Suc q by auto
    from D have keep: "map_of cs' mid = None"
      by (cases rule: replay_Dispatch_cases) (use Cons.prems(1) n in \<open>auto simp: map_add_def\<close>)
    have "l < k" using Cons.prems(2) Suc j by simp
    from Cons.IH [OF keep this c(2)] Cons.prems(4,5,6) Cons.prems(7) [of "Suc _"] Suc j run show ?thesis by auto
  qed
qed simp

text \<open>
  C18: On one connection a message identifier is dispatched at most once. The first proper request with an
  identifier is dispatched; every later request with it leaves the state of the daemon alone and gets
  the very same answer if its fingerprint is the same, a conflict if it is another, and an invalid
  message if the payload is no JSON value.\<close>

theorem request_dispatched_once:
  assumes "outs = replay_run sha256 rs ([], w)" "i < j" "j < length outs" "req_id (rs ! j) = req_id (rs ! i)"
    "req_print sha256 (rs ! i) = Some f" "\<And>h. h < i \<Longrightarrow> req_id (rs ! h) = req_id (rs ! i) \<Longrightarrow> req_print sha256 (rs ! h) = None"
  shows "\<exists>before e after now. snd (snd (rs ! i)) before = (after, e) \<and> outs ! i = (before, e, False, after) \<and>
    (let answer = (case req_print sha256 (rs ! j) of
         None \<Rightarrow> invalid_message (req_now (rs ! j)) (req_id (rs ! i))
       | Some g \<Rightarrow> if g = f then e else conflict_message (req_now (rs ! j)) (req_id (rs ! i)))
     in outs ! j = (now, answer, False, now))"
proof -
  from replay_run_first [of "[]" "req_id (rs ! i)" i j sha256 rs w f] assms
  obtain w0 e w1 w2 where "snd (snd (rs ! i)) w0 = (w1, e)" "outs ! i = (w0, e, False, w1)"
    "outs ! j = (w2, cached_answer sha256 \<lparr>cached_fingerprint = f, cached_response = e\<rparr> (rs ! j), False, w2)"
    by auto
  then show ?thesis using assms(4)
    by (intro exI [of _ w0] exI [of _ e] exI [of _ w1] exI [of _ w2])
      (auto simp: cached_answer_def Let_def split: option.splits)
qed

theorem request_dispatched_once_witness:
  "\<exists>e now. replay_run (\<lambda>x. x) [(''t'', sample_envelope, \<lambda>n::nat. (Suc n, zero_envelope)), (''u'', sample_envelope, \<lambda>n. (Suc n, zero_envelope))] ([], 0) ! 1 =
     (now, e, False, now) \<and> e = zero_envelope"
proof -
  let ?rs = "[(''t'', sample_envelope, \<lambda>n::nat. (Suc n, zero_envelope)), (''u'', sample_envelope, \<lambda>n. (Suc n, zero_envelope))]"
  have "read_value (json_text (JObj [])) = Some (JObj [], [])" using read_value_json_text [of "JObj []" "[]"] by simp
  then obtain f where f: "requestFingerprint (\<lambda>x. x) sample_envelope = Some f"
    by (simp add: requestFingerprint_def sample_envelope_def NewEnvelope_def max_depth_def del: json_text.simps)
  have len: "length (replay_run (\<lambda>x. x) ?rs ([], 0)) = 2" by (simp add: replay_Dispatch_def f maxCachedRequestsPerConnection_def)
  have "\<exists>before e after now. snd (snd (?rs ! 0)) before = (after, e) \<and> replay_run (\<lambda>x. x) ?rs ([], 0) ! 0 = (before, e, False, after) \<and>
    (let answer = (case req_print (\<lambda>x. x) (?rs ! 1) of
         None \<Rightarrow> invalid_message (req_now (?rs ! 1)) (req_id (?rs ! 0))
       | Some g \<Rightarrow> if g = f then e else conflict_message (req_now (?rs ! 1)) (req_id (?rs ! 0)))
     in replay_run (\<lambda>x. x) ?rs ([], 0) ! 1 = (now, answer, False, now))"
    by (rule request_dispatched_once [OF refl]) (use len f in simp_all)
  then show ?thesis by (auto simp: f)
qed

end
