(* ===== verification/Dispatch_Props.thy ===== *)
theory Dispatch_Props
  imports Dispatch Command Protocol_Props
begin

text \<open>
  The answers of the dispatcher as the daemon sets it up: every request gets one answer that carries its
  identifier, only commands change anything, and the capabilities that are advertised are those that
  the authorizer grants.
\<close>

section \<open>The answers of the command service\<close>

text \<open>Every envelope that a run of a goroutine may return.\<close>

primrec prog_answers :: "prog \<Rightarrow> envelope set" where
  "prog_answers (Return e) = {e}"
| "prog_answers (ReadClock f) = (\<Union>x. prog_answers (f x))"
| "prog_answers (AskAdmissionBlocked f) = (\<Union>x. prog_answers (f x))"
| "prog_answers (CallReconcile p) = prog_answers p"
| "prog_answers (CallLookup u c f) = (\<Union>x. prog_answers (f x))"
| "prog_answers (CallReserve c f) = (\<Union>x. prog_answers (f x))"
| "prog_answers (CallTransition u c s t d f) = (\<Union>x. prog_answers (f x))"
| "prog_answers (CallAuthorize u r f) = (\<Union>x. prog_answers (f x))"
| "prog_answers (CallExecute r n w f) = (\<Union>x. \<Union>y. prog_answers (f x y))"
| "prog_answers (GetNode n f) = (\<Union>x. prog_answers (f x))"
| "prog_answers (GoRefresh p) = prog_answers p"
| "prog_answers (Pause f) = (\<Union>x. prog_answers (f x))"
| "prog_answers (LockKey j p) = prog_answers p"
| "prog_answers (UnlockKey j p) = prog_answers p"
| "prog_answers StillPolling = {}"

lemma answers_unlock_after [simp]: "prog_answers (unlock_after k p) = prog_answers p"
proof (induction p)
  case (CallExecute r n w f)
  have "prog_answers (unlock_after k (f x y)) = prog_answers (f x y)" for x y
    by (rule CallExecute.IH [of "f x"]) simp_all
  then show ?case by simp
qed auto

text \<open>An envelope of this protocol that answers \<open>msg\<close> with one of the types \<open>T\<close>.\<close>

definition answer_to :: "envelope \<Rightarrow> message_type set \<Rightarrow> envelope \<Rightarrow> bool" where
  "answer_to msg T e \<longleftrightarrow>
     Protocol e = ProtocolName \<and> Version e = ProtocolVersion \<and> MessageID e = MessageID msg \<and> MsgType e \<in> T"

lemma answer_to_New [simp]:
  "answer_to msg T (NewEnvelope now mid t p) \<longleftrightarrow> mid = MessageID msg \<and> t \<in> T"
  "answer_to msg T (NewErrorEnvelope now mid p') \<longleftrightarrow> mid = MessageID msg \<and> MessageError \<in> T"
  by (auto simp: answer_to_def NewEnvelope_def NewErrorEnvelope_def)

abbreviation command_answers :: "message_type set" where
  "command_answers \<equiv> {MessageError, MessageCommandResponse}"

definition only_answers :: "envelope \<Rightarrow> prog \<Rightarrow> bool" where
  "only_answers msg p \<longleftrightarrow> (\<forall>e \<in> prog_answers p. answer_to msg command_answers e)"

lemma only_answers_simps [simp]:
  "only_answers msg (ReadClock fc) \<longleftrightarrow> (\<forall>x. only_answers msg (fc x))"
  "only_answers msg (AskAdmissionBlocked f) \<longleftrightarrow> (\<forall>x. only_answers msg (f x))"
  "only_answers msg (CallReconcile p) \<longleftrightarrow> only_answers msg p"
  "only_answers msg (CallLookup u c g) \<longleftrightarrow> (\<forall>x. only_answers msg (g x))"
  "only_answers msg (CallReserve cl h) \<longleftrightarrow> (\<forall>x. only_answers msg (h x))"
  "only_answers msg (CallTransition u c s t d i) \<longleftrightarrow> (\<forall>x. only_answers msg (i x))"
  "only_answers msg (CallAuthorize uc r j) \<longleftrightarrow> (\<forall>x. only_answers msg (j x))"
  "only_answers msg (CallExecute r n w l) \<longleftrightarrow> (\<forall>x y. only_answers msg (l x y))"
  "only_answers msg (GetNode n f) \<longleftrightarrow> (\<forall>x. only_answers msg (f x))"
  "only_answers msg (GoRefresh p) \<longleftrightarrow> only_answers msg p"
  "only_answers msg (Pause f) \<longleftrightarrow> (\<forall>x. only_answers msg (f x))"
  "only_answers msg (LockKey k p) \<longleftrightarrow> only_answers msg p"
  "only_answers msg (unlock_after k p) \<longleftrightarrow> only_answers msg p"
  "only_answers msg StillPolling"
  "only_answers msg (Return e) \<longleftrightarrow> answer_to msg command_answers e"
  by (auto simp: only_answers_def)

lemma only_answers_leaves [simp]:
  "only_answers msg (error_response msg p)" "only_answers msg (errorEnvelope msg c k d b i)"
  "only_answers msg (result_response msg q)" "only_answers msg (persistenceError msg i)"
  "only_answers msg (requestNodeRefresh s r) \<longleftrightarrow> only_answers msg r"
  "only_answers msg (authorizationFailure msg uid i)"
  by (auto simp: error_response_def errorEnvelope_def result_response_def persistenceError_def requestNodeRefresh_def
      authorizationFailure_def Let_def split: option.splits)

lemma recordResponse_answers [simp]: "only_answers msg (recordResponse msg rec)"
  by (auto simp: recordResponse_def Let_def split: status.splits option.splits)

lemma awaitRecord_answers [simp]: "only_answers msg (awaitRecord n msg rec fp)"
  by (induction n msg rec fp rule: awaitRecord.induct, subst awaitRecord.simps)
    (auto split: nat.splits sum.splits option.splits)

lemma handle_execute_answers [simp]: "only_answers msg (handle_execute s u msg req opn reason)"
  by (auto simp: handle_execute_def Let_def split: sum.splits option.splits)

lemma handle_decision_answers [simp]: "only_answers msg (handle_decision s u msg req opn entry reason res)"
  by (auto simp: handle_decision_def Let_def split: sum.splits option.splits)

lemma handle_new_answers [simp]: "only_answers msg (handle_new n s u msg req)"
  unfolding handle_new_def Let_def by (auto split: option.split sum.split ledger_error.split)

lemma Handle_answers: "e \<in> prog_answers (HandleAuthenticated n s u msg) \<Longrightarrow> answer_to msg command_answers e"
proof -
  have "only_answers msg (Handle n s u msg)"
    unfolding Handle_def Let_def by (auto split: option.split sum.split)
  then show "e \<in> prog_answers (HandleAuthenticated n s u msg) \<Longrightarrow> ?thesis"
    by (simp add: only_answers_def HandleAuthenticated_def)
qed

section \<open>Properties\<close>

text \<open>The dispatcher of \<^verbatim>\<open>cmd/cockpit-slurm/main.go\<close>, with the command service as the handler \<open>h\<close>.\<close>

definition daemon_dispatcher ::
  "(rune \<Rightarrow> bool) \<Rightarrow> ('s \<Rightarrow> node_cache) \<Rightarrow> capability_resolver \<Rightarrow> 's authenticated_handler \<Rightarrow> 's dispatcher" where
  "daemon_dispatcher printable cache resolver h =
     fst (RegisterAuthenticated MessageCommand (Some h)
       (NewDispatcherWithCacheAndCapabilities printable (Some cache) (Some resolver)))"

fun answer_types :: "message_type \<Rightarrow> message_type set" where
  "answer_types t =
     (if t = MessageHello then {MessageHelloResponse}
      else if t = MessagePing then {MessagePong}
      else if t = MessageQuery then {MessageQueryResponse, MessageError}
      else if t = MessageCapabilitiesRequest then {MessageCapabilitiesResponse, MessageError}
      else if t = MessageCommand then command_answers
      else {MessageError})"

declare answer_types.simps [simp del]

lemma daemon_handlers:
  "handlers (daemon_dispatcher printable cache resolver h) = [MessageHello \<mapsto> helloHandler_Handle, MessagePing \<mapsto> pingHandler_Handle,
     MessageQuery \<mapsto> QueryHandler_Handle printable (Some (NewNodeQueryService (Some cache)))]"
  "authenticatedHandlers (daemon_dispatcher printable cache resolver h) =
     [MessageCapabilitiesRequest \<mapsto> CapabilitiesHandler_Handle (Some resolver), MessageCommand \<mapsto> h]"
  by (simp_all add: daemon_dispatcher_def NewDispatcherWithCacheAndCapabilities_def RegisterAuthenticated_def register_def Let_def)

lemma QueryHandler_answers:
  "answer_to msg {MessageQueryResponse, MessageError} (snd (QueryHandler_Handle printable service now msg st))"
  "fst (QueryHandler_Handle printable service now msg st) = st"
  by (auto simp: QueryHandler_Handle_def split: option.splits sum.splits)

lemma CapabilitiesHandler_answers:
  "answer_to msg {MessageCapabilitiesResponse, MessageError} (snd (CapabilitiesHandler_Handle r now u msg st))"
  "fst (CapabilitiesHandler_Handle r now u msg st) = st"
  by (auto simp: CapabilitiesHandler_Handle_def identity_error_def capabilityUnavailable_def split: option.splits sum.splits)

text \<open>
  C25: For every message that the decoder lets through, the daemon's dispatcher gives one answer, with the
  identifier of the message and of a type that belongs to the type of the message, never an event, as
  long as the command handler answers as the command service does. Only a command can change the
  state of the daemon, and neither commands nor capability requests get past the dispatcher
  without a user name.\<close>

theorem dispatch_answers:
  assumes "ValidateEnvelope msg = Inr ()"
    "\<And>now u st. \<exists>n s. snd (h now u msg st) \<in> prog_answers (HandleAuthenticated n s u msg)"
    "dispatch now user msg (daemon_dispatcher printable cache resolver h, st) = ((d', st'), e)"
  shows "answer_to msg (answer_types (MsgType msg)) e \<and> MsgType e \<noteq> MessageEvent \<and>
    d' = daemon_dispatcher printable cache resolver h \<and> (MsgType msg \<noteq> MessageCommand \<longrightarrow> st' = st) \<and>
    ((user = None \<or> (\<exists>u. user = Some u \<and> Username u = [])) \<and> MsgType msg \<in> {MessageCommand, MessageCapabilitiesRequest} \<longrightarrow>
       st' = st \<and> e = identity_error now (MessageID msg))"
proof -
  have v: "Protocol msg = ProtocolName" "Version msg = ProtocolVersion" "MessageID msg \<noteq> []" "MsgType msg \<noteq> []" "blen (Payload msg) \<noteq> 0"
    using assms(1) by (auto simp: ValidateEnvelope_def IsKnown_def split: if_splits option.splits)
  have h: "answer_to msg command_answers (snd (h now u msg st))" for now u st
    using assms(2) [of now u st] Handle_answers by blast
  note q = QueryHandler_answers [where msg = msg and now = now and st = st]
  note c = CapabilitiesHandler_answers [where msg = msg and now = now and st = st]
  consider "MsgType msg = MessageHello" | "MsgType msg = MessagePing" | "MsgType msg = MessageQuery"
    | "MsgType msg = MessageCapabilitiesRequest" | "MsgType msg = MessageCommand"
    | "MsgType msg \<notin> {MessageHello, MessagePing, MessageQuery, MessageCapabilitiesRequest, MessageCommand}" by blast
  then have "answer_to msg (answer_types (MsgType msg)) e \<and>
    d' = daemon_dispatcher printable cache resolver h \<and> (MsgType msg \<noteq> MessageCommand \<longrightarrow> st' = st) \<and>
    ((user = None \<or> (\<exists>u. user = Some u \<and> Username u = [])) \<and> MsgType msg \<in> {MessageCommand, MessageCapabilitiesRequest} \<longrightarrow>
       st' = st \<and> e = identity_error now (MessageID msg))"
    using assms(3) v h q c
    by cases (auto simp: dispatch_def daemon_handlers answer_types.simps dispatcher_errorEnvelope_def identity_error_def
        helloHandler_Handle_def pingHandler_Handle_def Let_def case_prod_beta split: option.splits if_splits)
  moreover have "MessageEvent \<notin> answer_types (MsgType msg)" by (simp add: answer_types.simps)
  ultimately show ?thesis by (auto simp: answer_to_def)
qed

definition sample_user :: user_context where
  "sample_user = \<lparr>UID = 1000, GID = 1000, Username = ''root'', AdminLevel = [], Accounts = [], CoordinatorAccounts = [], Capabilities = []\<rparr>"

definition rejecting_handler :: "unit authenticated_handler" where
  "rejecting_handler now u msg st = (st, NewErrorEnvelope now (MessageID msg)
     (errorPayload CodeInvalidPayload CatValidation ''Invalid Node command payload'' False []))"

theorem dispatch_answers_witness:
  "\<exists>e. dispatch ''t'' (Some sample_user) sample_envelope
      (daemon_dispatcher (\<lambda>_. False) (\<lambda>_. NewNodeCache) (Resolve None) rejecting_handler, ()) =
        ((daemon_dispatcher (\<lambda>_. False) (\<lambda>_. NewNodeCache) (Resolve None) rejecting_handler, ()), e) \<and>
     MsgType e = MessagePong \<and> MessageID e = ''m1''"
proof -
  let ?d = "daemon_dispatcher (\<lambda>_. False) (\<lambda>_. NewNodeCache) (Resolve None) rejecting_handler"
  obtain d' e where e: "dispatch ''t'' (Some sample_user) sample_envelope (?d, ()) = ((d', ()), e)"
    by (metis (full_types) old.unit.exhaust surj_pair)
  have v: "ValidateEnvelope sample_envelope = Inr ()" by (simp add: sample_eval)
  have d: "DecodeNodeCommandRequestPayload (Payload sample_envelope) \<noteq> Inr req" for req
  proof
    assume "DecodeNodeCommandRequestPayload (Payload sample_envelope) = Inr req"
    moreover have "decodeStrictPayload request_fields put_wire zero_wire (json_text (JObj [])) = Inr zero_wire"
      by (subst decodeStrictPayload_text) (simp_all add: max_depth_def)
    ultimately show False
      by (simp add: sample_envelope_def NewEnvelope_def DecodeNodeCommandRequestPayload_def zero_wire_def validCommandID_def del: json_text.simps)
  qed
  have h: "\<exists>n s. snd (rejecting_handler now u sample_envelope st) \<in> prog_answers (HandleAuthenticated n s u sample_envelope)" for now u st
  proof -
    have "Handle 0 undefined u sample_envelope =
        errorEnvelope sample_envelope CodeInvalidPayload CatValidation ''Invalid Node command payload'' False []"
      using d by (auto simp: Handle_def split: sum.splits)
    then have "snd (rejecting_handler now u sample_envelope st) \<in> prog_answers (HandleAuthenticated 0 undefined u sample_envelope)"
      by (auto simp: HandleAuthenticated_def errorEnvelope_def error_response_def rejecting_handler_def)
    then show ?thesis by blast
  qed
  from dispatch_answers [OF v h e] have "answer_to sample_envelope (answer_types MessagePing) e" "d' = ?d"
    by (simp_all add: sample_envelope_def NewEnvelope_def)
  then show ?thesis using e by (auto simp: answer_to_def answer_types.simps sample_envelope_def NewEnvelope_def)
qed

lemma capabilities_roundtrip: "DecodeCapabilitiesResponsePayload (json_text (capabilities_json c)) = Inr c"
proof -
  let ?inner = "JObj [(''nodes.drain'', JBool (NodesDrain c)), (''nodes.resume'', JBool (NodesResume c))]"
  have u: "valid_utf8 ''capabilities''" "valid_utf8 ''nodes.drain''" "valid_utf8 ''nodes.resume''"
    by (rule ascii_valid; simp)+
  have b: "decode_bool_ptr (json_text (JBool b)) old = (Some b, True)" for b old
    using read_text_json_text [of "JBool b"] by (simp add: decode_bool_ptr_def)
  have ok: "json_ok ?inner" by (simp add: u)
  have inner: "decode_ptr [''nodes.drain'', ''nodes.resume''] put_capabilities \<lparr>w_NodesDrain = None, w_NodesResume = None\<rparr>
      (json_text ?inner) None = (Some \<lparr>w_NodesDrain = Some (NodesDrain c), w_NodesResume = Some (NodesResume c)\<rparr>, True)"
    using read_text_json_text [OF ok] b
    by (simp add: decode_ptr_def decode_struct_text [OF ok] find_field_exact put_capabilities_def del: json_text.simps)
  have "decodeStrictPayload [''capabilities''] (\<lambda>f raw x. decode_ptr [''nodes.drain'', ''nodes.resume''] put_capabilities
      \<lparr>w_NodesDrain = None, w_NodesResume = None\<rparr> raw x) None (json_text (capabilities_json c)) =
      Inr (Some \<lparr>w_NodesDrain = Some (NodesDrain c), w_NodesResume = Some (NodesResume c)\<rparr>)"
    unfolding capabilities_json_def
    by (subst decodeStrictPayload_text) (simp_all add: u inner find_field_exact max_depth_def del: json_text.simps)
  then show ?thesis by (simp add: DecodeCapabilitiesResponsePayload_def)
qed

text \<open>
  C26: What a user is told agrees with what the user may do. A well-formed request of a named user gets a
  capabilities answer exactly when the resolver knows the user; the answer can be read back by the
  decoder, and it says of draining and of resuming nodes precisely what the authorizer decides for
  that user when Slurm's user database gives the same information.\<close>

theorem capabilities_agree_with_authorization:
  assumes "NewGlobalRegistry es H V = Inr reg" "Username u \<noteq> []"
    "snd (CapabilitiesHandler_Handle (Some (Resolve users)) now u msg st) = e"
  shows "(MsgType e = MessageCapabilitiesResponse \<longleftrightarrow>
       DecodeCapabilitiesRequestPayload (case Payload msg of None \<Rightarrow> [] | Some p \<Rightarrow> p) = Inr () \<and> (\<exists>c. Resolve users u = Inr c)) \<and>
    (MsgType e = MessageCapabilitiesResponse \<longrightarrow>
      (\<exists>p caps drain resume. Payload e = Some p \<and> DecodeCapabilitiesResponsePayload p = Inr caps \<and>
         Authorize (Some reg) (Some (Resolve users)) u OperationNodeDrain = Inr drain \<and> Allowed drain = NodesDrain caps \<and>
         Authorize (Some reg) (Some (Resolve users)) u OperationNodeResume = Inr resume \<and> Allowed resume = NodesResume caps))"
proof (cases "DecodeCapabilitiesRequestPayload (case Payload msg of None \<Rightarrow> [] | Some p \<Rightarrow> p) = Inr () \<and> (\<exists>c. Resolve users u = Inr c)")
  case True
  then obtain c where c: "DecodeCapabilitiesRequestPayload (case Payload msg of None \<Rightarrow> [] | Some p \<Rightarrow> p) = Inr ()" "Resolve users u = Inr c"
    by blast
  let ?a = "AdminLevel c = ''admin''"
  have caps: "map_of (Capabilities c) CapabilityNodeDrain = Some ?a" "map_of (Capabilities c) CapabilityNodeResume = Some ?a"
    using c(2) by (auto simp: Resolve_def Let_def operation_names split: if_splits option.splits sum.splits)
  note r = Resolve_ok [OF c(2)]
  have e: "e = NewEnvelope now (MessageID msg) MessageCapabilitiesResponse
      (Some (json_text (capabilities_json \<lparr>NodesDrain = ?a, NodesResume = ?a\<rparr>)))"
    using assms(2,3) c caps r by (auto simp: CapabilitiesHandler_Handle_def)
  have "\<exists>d. Authorize (Some reg) (Some (Resolve users)) u op = Inr d \<and> Allowed d = ?a"
    if "op = OperationNodeDrain \<or> op = OperationNodeResume" for op
  proof -
    have "op \<in> fst ` set reg" using NewGlobalRegistry_ok [OF assms(1)] that by blast
    then obtain entry where entry: "map_of reg op = Some entry" by (metis map_of_eq_None_iff option.exhaust)
    then have "RequiredCapability entry = CapabilityNodeDrain \<or> RequiredCapability entry = CapabilityNodeResume"
      using NewGlobalRegistry_ok [OF assms(1)] that by blast
    with entry c(2) r assms(2) show ?thesis by (auto simp: Authorize_def registry_Lookup_def)
  qed
  then show ?thesis using True e capabilities_roundtrip by (fastforce simp: NewEnvelope_def)
next
  case False
  then have "MsgType e \<noteq> MessageCapabilitiesResponse"
    using assms(3) by (auto simp: CapabilitiesHandler_Handle_def NewErrorEnvelope_def NewEnvelope_def identity_error_def
        capabilityUnavailable_def split: sum.splits if_splits)
  with False show ?thesis by blast
qed

definition sample_users :: user_lookup_fn where
  "sample_users name = Inr (Some \<lparr>su_Username = name, su_AdminLevel = ''none'', su_Accounts = [], su_CoordinatorAccounts = []\<rparr>)"

theorem capabilities_agree_with_authorization_witness:
  "\<exists>p caps. Payload (snd (CapabilitiesHandler_Handle (Some (Resolve (Some sample_users))) ''t'' sample_user sample_envelope ())) = Some p \<and>
     DecodeCapabilitiesResponsePayload p = Inr caps \<and> \<not> NodesDrain caps"
proof -
  let ?e = "snd (CapabilitiesHandler_Handle (Some (Resolve (Some sample_users))) ''t'' sample_user sample_envelope ())"
  let ?reg = "[(OperationNodeDrain, drain_entry), (OperationNodeResume, resume_entry)]"
  have reg: "NewGlobalRegistry ?reg {NodeStateHandlerID} {NodeTargetValidatorID} = Inr ?reg"
    using NewNodeRegistry_ok by (simp add: NewNodeRegistry_def)
  have u: "Username sample_user \<noteq> []" by (simp add: sample_user_def)
  have lvl: "normalizeAdminLevel ''none'' = Inr ''none''"
  proof -
    have "TrimSpace ''none'' = ''none''" using TrimSpace_id [of "CHR ''n''" "CHR ''e''" "''on''"] by (simp add: IsSpace_def)
    moreover have "ToLower ''none'' = ''none''" by (rule ToLower_id) (simp add: is_upper_def)
    ultimately show ?thesis by (simp add: normalizeAdminLevel_def)
  qed
  have d: "DecodeCapabilitiesRequestPayload (json_text (JObj [])) = Inr ()"
    unfolding DecodeCapabilitiesRequestPayload_def by (subst decodeStrictPayload_text) (simp_all add: max_depth_def)
  obtain c where r: "Resolve (Some sample_users) sample_user = Inr c"
    by (simp add: Resolve_def sample_user_def sample_users_def lvl)
  note th = capabilities_agree_with_authorization [OF reg u refl, of "Some sample_users" "''t''" sample_envelope "()"]
  have "MsgType ?e = MessageCapabilitiesResponse"
    using th d r by (simp add: sample_envelope_def NewEnvelope_def del: json_text.simps)
  with th obtain p caps drain where *: "Payload ?e = Some p" "DecodeCapabilitiesResponsePayload p = Inr caps"
      "Authorize (Some ?reg) (Some (Resolve (Some sample_users))) sample_user OperationNodeDrain = Inr drain"
      "Allowed drain = NodesDrain caps"
    by blast
  have "\<not> Allowed drain"
    using Authorize_allowed [OF reg *(3)] lvl by (auto simp: sample_users_def)
  with * show ?thesis by auto
qed

end
