(* ===== verification/Ipc_Server_Props.thy ===== *)
theory Ipc_Server_Props
  imports Ipc_Props Dispatch_Props Connection_Props "HOL-Library.Sublist"
begin

text \<open>
  The goroutines of one connection together: the loop, the writer, the events pushed by the node
  streams and the end of the connection in any order; and the goroutines of the server around its
  table of connections.
\<close>

section \<open>One connection\<close>

text \<open>
  The history of a connection lists every message that entered its queue, with the mark \<open>True\<close> if the
  loop put it there; the answers are all those the loop produced. The steps \<open>event\<close> are the pushes of
  the node streams, \<open>hang_up\<close> is any call of \<^verbatim>\<open>Close\<close> from elsewhere, \<open>drop\<close> its effect on the socket
  that the loop reads, \<open>others\<close> what the goroutines of other connections do to the daemon, whose handlers are fixed.
\<close>

record 's conn_sys =
  run :: conn_run
  daemon :: "'s dispatcher \<times> 's"
  history :: "(bool \<times> envelope) list"
  answers :: "envelope list"

definition entered :: "bool \<Rightarrow> envelope \<Rightarrow> outbox \<Rightarrow> outbox \<Rightarrow> (bool \<times> envelope) list" where
  "entered mine e old new = (if length (ob_queue old) < length (ob_queue new) then [(mine, e)] else [])"

definition produced :: "conn_run \<Rightarrow> envelope list" where
  "produced c = (case cn_phase c of Answering e _ \<Rightarrow> [e] | Refusing e \<Rightarrow> [e] | _ \<Rightarrow> [])"

definition enters :: "bool \<Rightarrow> envelope \<Rightarrow> conn_run \<Rightarrow> 's conn_sys \<Rightarrow> 's conn_sys" where
  "enters mine e c' y = y\<lparr>run := c', history := history y @ entered mine e (cn_out (run y)) (cn_out c')\<rparr>"

inductive conn_step :: "(bytes \<Rightarrow> bytes) \<Rightarrow> 's conn_sys \<Rightarrow> 's conn_sys \<Rightarrow> bool" for sha256 where
  look: "cn_phase (run y) = Reading \<Longrightarrow> conn_step sha256 y (y\<lparr>run := loop_look (run y)\<rparr>)"
| receive: "cn_phase (run y) = Receiving \<Longrightarrow> c' = loop_receive now (run y) \<Longrightarrow>
    conn_step sha256 y (y\<lparr>run := c', answers := answers y @ produced c'\<rparr>)"
| dispatch: "cn_phase (run y) = Dispatching m \<Longrightarrow> loop_dispatch sha256 now m (run y, daemon y) = (c', w') \<Longrightarrow>
    conn_step sha256 y (y\<lparr>run := c', daemon := w', answers := answers y @ produced c'\<rparr>)"
| answer: "cn_phase (run y) = Answering e last_one \<Longrightarrow> conn_step sha256 y (enters True e (loop_answer pick e last_one (run y)) y)"
| refuse: "cn_phase (run y) = Refusing e \<Longrightarrow> conn_step sha256 y (enters True e (writeConnectionResponse pick e (run y)) y)"
| finish: "writer_reported (run y) \<Longrightarrow> conn_step sha256 y (y\<lparr>run := serve_return (run y)\<rparr>)"
| close: "cn_phase (run y) = Closing \<Longrightarrow> conn_step sha256 y (y\<lparr>run := serve_return (run y)\<rparr>)"
| wlook: "cn_writer (run y) = Looking \<Longrightarrow> conn_step sha256 y (y\<lparr>run := writer_look (run y)\<rparr>)"
| wtake: "cn_writer (run y) = Taking \<Longrightarrow> conn_step sha256 y (y\<lparr>run := writer_take pick (run y)\<rparr>)"
| wwrite: "cn_writer (run y) = Writing e \<Longrightarrow> conn_step sha256 y (y\<lparr>run := writer_write ws e (run y)\<rparr>)"
| event: "MsgType e = MessageEvent \<Longrightarrow>
    conn_step sha256 y (enters False e (run y\<lparr>cn_out := fst (ob_enqueue pick e (cn_out (run y)))\<rparr>) y)"
| hang_up: "conn_step sha256 y (y\<lparr>run := close_conn_run (run y)\<rparr>)"
| drop: "ob_cancelled (cn_out (run y)) \<Longrightarrow> conn_step sha256 y (y\<lparr>run := run y\<lparr>cn_in := \<lparr>incoming = [], broken = True\<rparr>\<rparr>\<rparr>)"
| others: "handlers (fst w) = handlers (fst (daemon y)) \<Longrightarrow> authenticatedHandlers (fst w) = authenticatedHandlers (fst (daemon y)) \<Longrightarrow>
    conn_step sha256 y (y\<lparr>daemon := w\<rparr>)"

text \<open>The messages that are not written yet, in their order, and the answer that the loop has not queued yet.\<close>

definition unwritten :: "conn_run \<Rightarrow> envelope list" where
  "unwritten c = in_flight c @ ob_queue (cn_out c)"

text \<open>While the loop waits for its last message, that is the last of the first \<open>n\<close> unwritten ones, or it has been written.\<close>

definition draining_ok :: "conn_run \<Rightarrow> envelope list \<Rightarrow> bool" where
  "draining_ok c as \<longleftrightarrow> (\<forall>n. cn_phase c = Draining n \<and> \<not> ob_cancelled (cn_out c) \<longrightarrow>
     n \<le> length (unwritten c) \<and> as \<noteq> [] \<and>
     (if n = 0 then last as \<in> set (ob_wire (cn_out c)) else last (take n (unwritten c)) = last as))"

definition order_ok :: "conn_run \<Rightarrow> envelope list \<Rightarrow> bool" where
  "order_ok c hs \<longleftrightarrow> length (ob_queue (cn_out c)) \<le> ob_cap (cn_out c) \<and>
     prefix (ob_wire (cn_out c)) hs \<and>
     (if cn_writer c = Stopped then ob_cancelled (cn_out c) else ob_wire (cn_out c) @ unwritten c = hs)"

definition answers_ok :: "conn_run \<Rightarrow> envelope list \<Rightarrow> envelope list \<Rightarrow> bool" where
  "answers_ok c mine as \<longleftrightarrow> (mine @ produced c = as \<or> cn_phase c = Ended \<and> as \<noteq> [] \<and> mine = butlast as) \<and>
     (cn_phase c = Ended \<longrightarrow> ob_cancelled (cn_out c))"

definition conn_inv :: "'s conn_sys \<Rightarrow> bool" where
  "conn_inv y \<longleftrightarrow> order_ok (run y) (map snd (history y)) \<and> draining_ok (run y) (answers y) \<and>
     answers_ok (run y) (map snd (filter fst (history y))) (answers y)"

lemmas conn_inv_defs = conn_inv_def order_ok_def draining_ok_def answers_ok_def

lemma enqueue_cases:
  obtains (sent) "ob_enqueue pick e ob = (ob\<lparr>ob_queue := ob_queue ob @ [e]\<rparr>, True)" "length (ob_queue ob) < ob_cap ob"
  | (refused) "ob_enqueue pick e ob = (ob, False)"
proof (cases "length (ob_queue ob) < ob_cap ob \<and> (\<not> ob_cancelled ob \<or> pick)")
  case True
  then show thesis by (intro sent) (auto simp: ob_enqueue_def)
next
  case False
  then show thesis by (intro refused) (auto simp: ob_enqueue_def)
qed

lemma closed_run [simp]:
  "cn_phase (close_conn_run c) = cn_phase c" "cn_writer (close_conn_run c) = cn_writer c"
  "in_flight (close_conn_run c) = in_flight c" "unwritten (close_conn_run c) = unwritten c" "produced (close_conn_run c) = produced c"
  "cn_out (close_conn_run c) = (cn_out c)\<lparr>ob_cancelled := True\<rparr>"
  by (auto simp: close_conn_run_def in_flight_def unwritten_def produced_def)

lemma returned_run [simp]:
  "cn_phase (serve_return c) = Ended" "cn_writer (serve_return c) = cn_writer c" "unwritten (serve_return c) = unwritten c"
  "produced (serve_return c) = []" "cn_out (serve_return c) = (cn_out c)\<lparr>ob_cancelled := True\<rparr>"
  by (auto simp: serve_return_def unwritten_def in_flight_def produced_def)

lemma snoc_butlast: "xs @ [x] = ys \<Longrightarrow> xs = butlast ys" and snoc_last: "xs @ [x] = ys \<Longrightarrow> last ys = x"
  by auto

text \<open>Closing the connection keeps the invariant, and so does returning when no answer is left to queue.\<close>

lemma conn_inv_hang_up: "conn_inv y \<Longrightarrow> conn_inv (y\<lparr>run := close_conn_run (run y)\<rparr>)"
  by (auto simp: conn_inv_defs)

lemma conn_inv_return:
  "conn_inv y \<Longrightarrow> cn_phase (run y) \<noteq> Ended \<Longrightarrow> conn_inv (y\<lparr>run := serve_return (run y)\<rparr>)"
  by (auto simp: conn_inv_defs produced_def dest: snoc_butlast split: phase.splits)

text \<open>A change of phase before an answer is queued.\<close>

lemma conn_inv_phase:
  assumes "conn_inv y" "produced (run y) = []" "cn_phase (run y) \<noteq> Ended" "cn_phase c' \<noteq> Ended" "\<And>n. cn_phase c' \<noteq> Draining n"
    "cn_out c' = cn_out (run y)" "cn_writer c' = cn_writer (run y)"
  shows "conn_inv (y\<lparr>run := c', daemon := w', answers := answers y @ produced c'\<rparr>)"
  using assms by (auto simp: conn_inv_defs unwritten_def in_flight_def)

lemma enters_refused: "cn_out c' = cn_out (run y) \<or> cn_out c' = (cn_out (run y))\<lparr>ob_cancelled := True\<rparr> \<Longrightarrow> enters mine e c' y = y\<lparr>run := c'\<rparr>"
  by (auto simp: enters_def entered_def)

lemma enters_sent: "ob_queue (cn_out c') = ob_queue (cn_out (run y)) @ [e] \<Longrightarrow> enters mine e c' y = y\<lparr>run := c', history := history y @ [(mine, e)]\<rparr>"
  by (auto simp: enters_def entered_def)

lemma conn_inv_receive:
  assumes "conn_inv y" "cn_phase (run y) = Receiving" "c' = loop_receive now (run y)"
  shows "conn_inv (y\<lparr>run := c', answers := answers y @ produced c'\<rparr>)"
proof (cases "cn_phase c' = Ended")
  case True
  then show ?thesis using assms
    by (auto simp: loop_receive_def conn_inv_defs produced_def serve_return_def close_conn_run_def unwritten_def in_flight_def
        split: prod.splits sum.splits if_splits)
next
  case False
  then have "conn_inv (y\<lparr>run := c', daemon := daemon y, answers := answers y @ produced c'\<rparr>)"
    by (intro conn_inv_phase)
      (use assms in \<open>auto simp: loop_receive_def produced_def split: prod.splits sum.splits if_splits\<close>)
  then show ?thesis by simp
qed

lemma conn_inv_dispatch:
  assumes "conn_inv y" "cn_phase (run y) = Dispatching m" "loop_dispatch sha256 now m (run y, daemon y) = (c', w')"
  shows "conn_inv (y\<lparr>run := c', daemon := w', answers := answers y @ produced c'\<rparr>)"
  by (intro conn_inv_phase) (use assms in \<open>auto simp: loop_dispatch_def produced_def Let_def split: prod.splits\<close>)

lemma conn_inv_answer:
  assumes "conn_inv y" "cn_phase (run y) = Answering e last_one"
  shows "conn_inv (enters True e (loop_answer pick e last_one (run y)) y)"
proof (cases rule: enqueue_cases [of pick e "cn_out (run y)"])
  case sent
  then have "loop_answer pick e last_one (run y) =
      run y\<lparr>cn_out := (cn_out (run y))\<lparr>ob_queue := ob_queue (cn_out (run y)) @ [e]\<rparr>, cn_phase := (if last_one then Closing else Reading)\<rparr>"
    by (simp add: loop_answer_def)
  with assms sent(2) show ?thesis
    by (auto simp: enters_sent conn_inv_defs produced_def unwritten_def in_flight_def prefix_def)
next
  case refused
  then have "loop_answer pick e last_one (run y) = serve_return (run y)" by (simp add: loop_answer_def)
  with assms show ?thesis by (simp add: enters_refused conn_inv_return)
qed

lemma conn_inv_refuse:
  assumes "conn_inv y" "cn_phase (run y) = Refusing e"
  shows "conn_inv (enters True e (writeConnectionResponse pick e (run y)) y)"
proof (cases rule: enqueue_cases [of pick e "cn_out (run y)"])
  case sent
  let ?c = "run y\<lparr>cn_out := (cn_out (run y))\<lparr>ob_queue := ob_queue (cn_out (run y)) @ [e]\<rparr>,
    cn_phase := Draining (length (unwritten (run y)) + 1)\<rparr>"
  have "writeConnectionResponse pick e (run y) = ?c"
    using sent by (simp add: writeConnectionResponse_def unwritten_def in_flight_def)
  moreover have "unwritten ?c = unwritten (run y) @ [e]" by (simp add: unwritten_def in_flight_def)
  ultimately show ?thesis using assms sent(2)
    by (auto simp: enters_sent conn_inv_defs produced_def prefix_def dest: snoc_last)
next
  case refused
  then have "writeConnectionResponse pick e (run y) = serve_return (run y)" by (simp add: writeConnectionResponse_def)
  with assms show ?thesis by (simp add: enters_refused conn_inv_return)
qed

lemma conn_inv_take:
  assumes "conn_inv y" "cn_writer (run y) = Taking"
  shows "conn_inv (y\<lparr>run := writer_take pick (run y)\<rparr>)"
proof -
  let ?c = "writer_take pick (run y)"
  have "cn_phase ?c = cn_phase (run y)" "unwritten ?c = unwritten (run y)" "produced ?c = produced (run y)"
    "ob_wire (cn_out ?c) = ob_wire (cn_out (run y))" "ob_cap (cn_out ?c) = ob_cap (cn_out (run y))"
    "ob_cancelled (cn_out ?c) = ob_cancelled (cn_out (run y))"
    "length (ob_queue (cn_out ?c)) \<le> length (ob_queue (cn_out (run y)))" "cn_writer ?c = Stopped \<longrightarrow> ob_cancelled (cn_out ?c)"
    using assms(2) by (auto simp: writer_take_def unwritten_def in_flight_def produced_def Let_def split: list.splits)
  with assms show ?thesis by (auto simp: conn_inv_defs)
qed

lemma conn_inv_write:
  assumes "conn_inv y" "cn_writer (run y) = Writing e"
  shows "conn_inv (y\<lparr>run := writer_write ws e (run y)\<rparr>)"
proof (cases "snd (Encode ws e)")
  case None
  then show ?thesis using assms by (simp add: writer_write_def)
next
  case (Some res)
  have "map snd (history y) = ob_wire (cn_out (run y)) @ e # ob_queue (cn_out (run y))"
    using assms by (simp add: conn_inv_defs unwritten_def in_flight_def)
  then have "snd ` set (history y) = insert e (set (ob_wire (cn_out (run y))) \<union> set (ob_queue (cn_out (run y))))"
    by (metis set_map set_append list.simps(15) Un_insert_right)
  then show ?thesis using assms Some
    by (cases res; cases "ob_queue (cn_out (run y))")
      (auto simp: writer_write_def conn_inv_defs unwritten_def in_flight_def produced_def Let_def prefix_def
        split: phase.splits nat.splits)
qed

lemma conn_inv_step: "conn_step sha256 y y' \<Longrightarrow> conn_inv y \<Longrightarrow> conn_inv y'"
proof (induction rule: conn_step.induct)
  case (look y)
  then show ?case
    using conn_inv_return [of y] conn_inv_phase [of y "run y\<lparr>cn_phase := Receiving\<rparr>" "daemon y"]
    by (auto simp: loop_look_def produced_def)
next
  case (finish y)
  then show ?case by (auto simp: writer_reported_def intro: conn_inv_return)
next
  case (close y)
  then show ?case by (auto intro: conn_inv_return)
next
  case (wlook y)
  then show ?case by (auto simp: writer_look_def conn_inv_defs unwritten_def in_flight_def produced_def prefix_def)
next
  case (event e y pick)
  then show ?case
    by (cases rule: enqueue_cases [of pick e "cn_out (run y)"])
      (auto simp: enters_sent enters_refused conn_inv_defs unwritten_def in_flight_def produced_def prefix_def)
next
  case (drop y)
  then show ?case by (auto simp: conn_inv_defs unwritten_def in_flight_def produced_def)
next
  case (others y w)
  then show ?case by (simp add: conn_inv_def)
qed (auto intro: conn_inv_receive conn_inv_dispatch conn_inv_answer conn_inv_refuse conn_inv_take conn_inv_write conn_inv_hang_up)

text \<open>The loop starts with what the registration of the stream queued, if anything.\<close>

definition conn_start :: "'s conn_sys \<Rightarrow> bool" where
  "conn_start y \<longleftrightarrow> (let out = cn_out (run y) in
     cn_phase (run y) = Reading \<and> cn_writer (run y) = Looking \<and> cn_replay (run y) = [] \<and> answers y = [] \<and>
     \<not> ob_cancelled out \<and> ob_wire out = [] \<and> history y = map (Pair False) (ob_queue out) \<and> length (ob_queue out) \<le> ob_cap out)"

lemma conn_start_inv: "conn_start y \<Longrightarrow> conn_inv y"
  by (auto simp: conn_start_def conn_inv_defs unwritten_def in_flight_def produced_def comp_def filter_map Let_def)

lemma conn_inv_reachable: "(conn_step sha256)\<^sup>*\<^sup>* y0 y \<Longrightarrow> conn_inv y0 \<Longrightarrow> conn_inv y"
  by (induction rule: rtranclp_induct) (auto intro: conn_inv_step)

text \<open>The writer alone brings everything that is queued to the socket, when the socket takes it.\<close>

fun writer_steps_left :: "writer_phase \<Rightarrow> nat" where
  "writer_steps_left (Writing _) = 3"
| "writer_steps_left Looking = 2"
| "writer_steps_left Taking = 1"
| "writer_steps_left Stopped = 0"

definition can_write :: "envelope \<Rightarrow> bool" where
  "can_write e \<longleftrightarrow> (\<exists>ws. snd (Encode ws e) = Some (Inr ()))"

definition flushed :: "(bytes \<Rightarrow> bytes) \<Rightarrow> 's conn_sys \<Rightarrow> envelope list \<Rightarrow> bool" where
  "flushed sha256 y ms \<longleftrightarrow> (\<exists>y'. (conn_step sha256)\<^sup>*\<^sup>* y y' \<and> ob_wire (cn_out (run y')) = ob_wire (cn_out (run y)) @ ms \<and>
     \<not> ob_cancelled (cn_out (run y')) \<and> history y' = history y \<and> answers y' = answers y)"

lemma flushed_refl: "\<not> ob_cancelled (cn_out (run y)) \<Longrightarrow> flushed sha256 y []"
  by (auto simp: flushed_def)

lemma flushed_step:
  "conn_step sha256 y y1 \<Longrightarrow> flushed sha256 y1 ms \<Longrightarrow> ob_wire (cn_out (run y1)) = ob_wire (cn_out (run y)) @ ns \<Longrightarrow>
   history y1 = history y \<Longrightarrow> answers y1 = answers y \<Longrightarrow> flushed sha256 y (ns @ ms)"
  unfolding flushed_def by (metis append_assoc converse_rtranclp_into_rtranclp)

lemma writer_flushes:
  "\<not> ob_cancelled (cn_out (run y)) \<Longrightarrow> cn_writer (run y) \<noteq> Stopped \<Longrightarrow> \<forall>e \<in> set (unwritten (run y)). can_write e \<Longrightarrow>
   flushed sha256 y (unwritten (run y))"
proof (induction "3 * length (ob_queue (cn_out (run y))) + writer_steps_left (cn_writer (run y))" arbitrary: y rule: less_induct)
  case less
  show ?case
  proof (cases "cn_writer (run y)")
    case Looking
    let ?y = "y\<lparr>run := writer_look (run y)\<rparr>"
    have "flushed sha256 ?y (unwritten (run ?y))"
      by (rule less.hyps) (use less.prems Looking in \<open>auto simp: writer_look_def unwritten_def in_flight_def\<close>)
    with flushed_step [OF conn_step.wlook [OF Looking], where ms = "unwritten (run ?y)" and ns = "[]"] show ?thesis
      using Looking less.prems by (simp add: writer_look_def unwritten_def in_flight_def)
  next
    case Taking
    show ?thesis
    proof (cases "ob_queue (cn_out (run y))")
      case Nil
      then show ?thesis using flushed_refl less.prems Taking by (simp add: unwritten_def in_flight_def)
    next
      case (Cons e q)
      let ?y = "y\<lparr>run := writer_take True (run y)\<rparr>"
      have "flushed sha256 ?y (unwritten (run ?y))"
        by (rule less.hyps) (use less.prems Taking Cons in \<open>auto simp: writer_take_def unwritten_def in_flight_def\<close>)
      with flushed_step [OF conn_step.wtake [OF Taking, of _ True], where ms = "unwritten (run ?y)" and ns = "[]"] show ?thesis
        using Taking Cons less.prems by (simp add: writer_take_def unwritten_def in_flight_def)
    qed
  next
    case (Writing e)
    then obtain ws where ws: "snd (Encode ws e) = Some (Inr ())" using less.prems by (auto simp: unwritten_def in_flight_def can_write_def)
    let ?y = "y\<lparr>run := writer_write ws e (run y)\<rparr>"
    have "flushed sha256 ?y (unwritten (run ?y))"
      by (rule less.hyps) (use less.prems Writing ws in \<open>auto simp: writer_write_def unwritten_def in_flight_def\<close>)
    with flushed_step [OF conn_step.wwrite [OF Writing, of _ ws], where ms = "unwritten (run ?y)" and ns = "[e]"] show ?thesis
      using Writing ws by (simp add: writer_write_def unwritten_def in_flight_def)
  qed (use less.prems in simp)
qed

text \<open>
  C13: A connection writes what was queued, in that order and nothing else. Whatever the loop, the writer,
  the node streams, the goroutines of other connections and the end of the connection do, one step at a
  time, the messages on the socket are an initial part of those queued, and as long as the connection
  lives every queued message is on the socket, in the hands of the writer, or still in the queue; every
  answer of the loop is queued, in the order of the frames, except perhaps the last one before the loop
  ended because there was no room; the queue never exceeds its capacity; a loop that waits for its last
  answer is told of it only after that answer is on the socket, unless the connection has ended; and as
  long as the connection lives, a socket that takes the messages gets all that are queued from the writer.\<close>

theorem answers_written_in_order:
  assumes "(conn_step sha256)\<^sup>*\<^sup>* y0 y" "conn_start y0" "out = cn_out (run y)"
  shows "prefix (ob_wire out) (map snd (history y)) \<and>
    (\<not> ob_cancelled out \<longrightarrow> ob_wire out @ in_flight (run y) @ ob_queue out = map snd (history y)) \<and>
    length (ob_queue out) \<le> ob_cap out \<and>
    (map snd (filter fst (history y)) @ produced (run y) = answers y \<or>
     cn_phase (run y) = Ended \<and> answers y \<noteq> [] \<and> map snd (filter fst (history y)) = butlast (answers y)) \<and>
    (writer_reported (run y) \<and> \<not> ob_cancelled out \<longrightarrow> last (answers y) \<in> set (ob_wire out)) \<and>
    (\<not> ob_cancelled out \<and> (\<forall>e \<in> set (in_flight (run y) @ ob_queue out). can_write e) \<longrightarrow>
       (\<exists>y'. (conn_step sha256)\<^sup>*\<^sup>* y y' \<and> ob_wire (cn_out (run y')) = map snd (history y) \<and> history y' = history y \<and> answers y' = answers y))"
proof -
  have inv: "conn_inv y" using conn_inv_reachable [OF assms(1) conn_start_inv [OF assms(2)]] .
  then have all: "\<not> ob_cancelled out \<longrightarrow> cn_writer (run y) \<noteq> Stopped \<and> ob_wire out @ unwritten (run y) = map snd (history y)"
    by (auto simp: conn_inv_def order_ok_def assms(3) split: if_splits)
  have "\<not> ob_cancelled out \<and> (\<forall>e \<in> set (unwritten (run y)). can_write e) \<longrightarrow>
       (\<exists>y'. (conn_step sha256)\<^sup>*\<^sup>* y y' \<and> ob_wire (cn_out (run y')) = map snd (history y) \<and> history y' = history y \<and> answers y' = answers y)"
    using writer_flushes [of y sha256] all by (auto simp: flushed_def assms(3))
  with inv show ?thesis
    by (auto simp: conn_inv_defs unwritten_def writer_reported_def assms(3) split: if_splits)
qed

definition sample_run :: "requestReplayCache \<Rightarrow> conn_run" where
  "sample_run cs = \<lparr>cn_user = sample_user, cn_in = \<lparr>incoming = sample_frame, broken = False\<rparr>, cn_replay = cs,
     cn_out = \<lparr>ob_cap = 32, ob_queue = [], ob_wire = [], ob_cancelled = False\<rparr>, cn_phase = Reading, cn_writer = Looking\<rparr>"

definition sample_sys :: "requestReplayCache \<Rightarrow> unit conn_sys" where
  "sample_sys cs = \<lparr>run = sample_run cs, daemon = (NewDispatcher (\<lambda>_. False), ()), history = [], answers = []\<rparr>"

lemma sample_frame_alone: "Decode \<lparr>incoming = sample_frame, broken = b\<rparr> = (\<lparr>incoming = [], broken = b\<rparr>, sample_envelope, Inr ())"
  using sample_frame_decodes [of "[]"] by simp

lemma sample_print: "\<exists>f. requestFingerprint sha256 sample_envelope = Some f"
proof -
  have "read_value (json_text (JObj [])) = Some (JObj [], [])" using read_value_json_text [of "JObj []" "[]"] by simp
  then show ?thesis by (simp add: requestFingerprint_def sample_envelope_def NewEnvelope_def max_depth_def del: json_text.simps)
qed

text \<open>The loop reads and dispatches one frame.\<close>

definition with_message :: "envelope \<Rightarrow> reader \<Rightarrow> conn_run \<Rightarrow> conn_run" where
  "with_message m r c = c\<lparr>cn_in := r, cn_phase := Dispatching m\<rparr>"

lemma loop_reads_frame:
  assumes "cn_phase (run y) = Reading" "\<not> ob_cancelled (cn_out (run y))" "Decode (cn_in (run y)) = (r, m, Inr ())"
  shows "(conn_step sha256)\<^sup>*\<^sup>* y (y\<lparr>run := with_message m r (run y)\<rparr>)"
proof -
  let ?y = "y\<lparr>run := run y\<lparr>cn_phase := Receiving\<rparr>\<rparr>"
  have "conn_step sha256 y ?y" using conn_step.look [OF assms(1)] assms(2) by (simp add: loop_look_def)
  moreover have "conn_step sha256 ?y (y\<lparr>run := with_message m r (run y)\<rparr>)"
    using conn_step.receive [of ?y "loop_receive undefined (run ?y)" undefined] assms(3)
    by (simp add: loop_receive_def with_message_def produced_def)
  ultimately show ?thesis by (meson rtranclp.rtrancl_into_rtrancl rtranclp.rtrancl_refl)
qed

text \<open>A new request: the answer is queued and taken by the writer.\<close>

theorem answers_written_in_order_witness:
  "\<exists>y. (conn_step (\<lambda>x. x))\<^sup>*\<^sup>* (sample_sys []) y \<and> length (answers y) = 1 \<and> in_flight (run y) = answers y \<and>
     ob_wire (cn_out (run y)) @ in_flight (run y) @ ob_queue (cn_out (run y)) = map snd (history y)"
proof -
  let ?y0 = "sample_sys []"
  let ?y1 = "?y0\<lparr>run := with_message sample_envelope \<lparr>incoming = [], broken = False\<rparr> (run ?y0)\<rparr>"
  have start: "conn_start ?y0" by (simp add: conn_start_def sample_sys_def sample_run_def)
  have "(conn_step (\<lambda>x. x))\<^sup>*\<^sup>* ?y0 ?y1"
    by (rule loop_reads_frame) (simp_all add: sample_sys_def sample_run_def sample_frame_alone)
  moreover obtain c' w' where D: "loop_dispatch (\<lambda>x. x) ''t'' sample_envelope (run ?y1, daemon ?y1) = (c', w')" by (rule prod.exhaust)
  obtain f where "requestFingerprint (\<lambda>x. x) sample_envelope = Some f" using sample_print by blast
  with D obtain a where a: "cn_phase c' = Answering a False" "cn_out c' = cn_out (run ?y0)" "cn_writer c' = Looking"
    by (auto simp: loop_dispatch_def replay_Dispatch_def sample_sys_def sample_run_def with_message_def
        maxCachedRequestsPerConnection_def Let_def split: prod.splits)
  let ?y2 = "?y1\<lparr>run := c', daemon := w', answers := answers ?y1 @ produced c'\<rparr>"
  have "conn_step (\<lambda>x. x) ?y1 ?y2" by (rule conn_step.dispatch [OF _ D]) (simp add: with_message_def)
  moreover define y3 where "y3 = ?y2\<lparr>run := writer_look c'\<rparr>"
  have "conn_step (\<lambda>x. x) ?y2 y3" using conn_step.wlook [of ?y2] a by (simp add: y3_def)
  moreover define y4 where "y4 = enters True a (loop_answer True a False (run y3)) y3"
  have "conn_step (\<lambda>x. x) y3 y4" unfolding y4_def by (rule conn_step.answer) (simp add: y3_def writer_look_def a)
  moreover have y4: "run y4 = c'\<lparr>cn_out := (cn_out c')\<lparr>ob_queue := [a]\<rparr>, cn_phase := Reading, cn_writer := Taking\<rparr>" "answers y4 = [a]"
    using a by (simp_all add: y4_def y3_def enters_def writer_look_def loop_answer_def ob_enqueue_def produced_def sample_sys_def sample_run_def)
  define y5 where "y5 = y4\<lparr>run := writer_take True (run y4)\<rparr>"
  have "conn_step (\<lambda>x. x) y4 y5" unfolding y5_def by (rule conn_step.wtake) (simp add: y4)
  ultimately have reach: "(conn_step (\<lambda>x. x))\<^sup>*\<^sup>* ?y0 y5" by (meson rtranclp.rtrancl_into_rtrancl rtranclp_trans)
  have "in_flight (run y5) = [a]" "answers y5 = [a]" "\<not> ob_cancelled (cn_out (run y5))"
    using a y4 by (simp_all add: y5_def writer_take_def in_flight_def sample_sys_def sample_run_def)
  then show ?thesis using answers_written_in_order [OF reach start refl] reach by (intro exI [of _ y5]) simp
qed

section \<open>The last answer of a full connection\<close>

text \<open>Once the context is cancelled, a writer that is not past its first \<^verbatim>\<open>select\<close> never writes again.\<close>

definition writer_over :: "conn_run \<Rightarrow> bool" where
  "writer_over c \<longleftrightarrow> ob_cancelled (cn_out c) \<and> (cn_writer c = Looking \<or> cn_writer c = Stopped)"

lemma loop_keeps_writer:
  "cn_writer (loop_look c) = cn_writer c" "cn_writer (loop_receive now c) = cn_writer c"
  "loop_dispatch sha256 now m (c, w) = (c', w') \<Longrightarrow> cn_writer c' = cn_writer c"
  "cn_writer (loop_answer pick e last_one c) = cn_writer c" "cn_writer (writeConnectionResponse pick e c) = cn_writer c"
  by (auto simp: loop_look_def loop_receive_def loop_dispatch_def loop_answer_def writeConnectionResponse_def serve_return_def
      close_conn_run_def Let_def split: prod.splits sum.splits)

lemma enqueue_keeps:
  "ob_cancelled (fst (ob_enqueue pick e ob)) = ob_cancelled ob" "ob_wire (fst (ob_enqueue pick e ob)) = ob_wire ob"
  by (auto simp: ob_enqueue_def)

lemma loop_keeps_wire:
  "ob_wire (cn_out (loop_look c)) = ob_wire (cn_out c)" "ob_wire (cn_out (loop_receive now c)) = ob_wire (cn_out c)"
  "loop_dispatch sha256 now m (c, w) = (c', w') \<Longrightarrow> ob_wire (cn_out c') = ob_wire (cn_out c)"
  "ob_wire (cn_out (loop_answer pick e last_one c)) = ob_wire (cn_out c)"
  "ob_wire (cn_out (writeConnectionResponse pick e c)) = ob_wire (cn_out c)"
  by (auto simp: loop_look_def loop_receive_def loop_dispatch_def loop_answer_def writeConnectionResponse_def serve_return_def
      close_conn_run_def ob_enqueue_def Let_def split: prod.splits sum.splits)

lemma loop_keeps_cancelled:
  assumes "ob_cancelled (cn_out c)"
  shows "ob_cancelled (cn_out (loop_look c))" "ob_cancelled (cn_out (loop_receive now c))"
  "loop_dispatch sha256 now m (c, w) = (c', w') \<Longrightarrow> ob_cancelled (cn_out c')"
  "ob_cancelled (cn_out (loop_answer pick e last_one c))" "ob_cancelled (cn_out (writeConnectionResponse pick e c))"
  using assms
  by (auto simp: loop_look_def loop_receive_def loop_dispatch_def loop_answer_def writeConnectionResponse_def serve_return_def
      close_conn_run_def ob_enqueue_def Let_def split: prod.splits sum.splits)

lemma writer_over_step:
  assumes "conn_step sha256 y y'" "writer_over (run y)"
  shows "writer_over (run y') \<and> ob_wire (cn_out (run y')) = ob_wire (cn_out (run y))"
  using assms
  by (induction rule: conn_step.induct)
    (auto simp: writer_over_def enters_def writer_look_def loop_keeps_writer loop_keeps_wire loop_keeps_cancelled enqueue_keeps)

lemma writer_over_reachable:
  "(conn_step sha256)\<^sup>*\<^sup>* y y' \<Longrightarrow> writer_over (run y) \<Longrightarrow>
   writer_over (run y') \<and> ob_wire (cn_out (run y')) = ob_wire (cn_out (run y))"
  by (induction rule: rtranclp_induct) (use writer_over_step in \<open>fastforce+\<close>)

text \<open>
  C39: A connection that has used up its requests may be closed without being told. When the replay cache
  is full and a request with a new identifier arrives, the loop queues the answer that the limit is
  reached and at once closes the connection, without waiting for the writer as it does for its other
  last answers; if the writer, done with an earlier message, has not yet looked at the context by then, nothing
  that happens later writes the answer.\<close>

theorem limit_answer_may_be_lost:
  assumes "cn_phase (run y) = Reading" "\<not> ob_cancelled (cn_out (run y))" "cn_writer (run y) = Looking"
    "Decode (cn_in (run y)) = (r, m, Inr ())" "requestFingerprint sha256 m \<noteq> None"
    "map_of (cn_replay (run y)) (MessageID m) = None" "length (cn_replay (run y)) \<ge> maxCachedRequestsPerConnection"
    "length (ob_queue (cn_out (run y))) < ob_cap (cn_out (run y))"
  shows "\<exists>y2. (conn_step sha256)\<^sup>*\<^sup>* y y2 \<and>
    ob_queue (cn_out (run y2)) = ob_queue (cn_out (run y)) @ [limit_message now (MessageID m)] \<and>
    cn_phase (run y2) = Ended \<and> daemon y2 = daemon y \<and>
    (\<forall>y3. (conn_step sha256)\<^sup>*\<^sup>* y2 y3 \<longrightarrow> ob_wire (cn_out (run y3)) = ob_wire (cn_out (run y)))"
proof -
  let ?e = "limit_message now (MessageID m)"
  let ?y1 = "y\<lparr>run := with_message m r (run y)\<rparr>"
  have "(conn_step sha256)\<^sup>*\<^sup>* y ?y1" using assms by (intro loop_reads_frame)
  moreover obtain f where "requestFingerprint sha256 m = Some f" using assms(5) by blast
  then have D: "loop_dispatch sha256 now m (run ?y1, daemon ?y1) = (run ?y1\<lparr>cn_phase := Answering ?e True\<rparr>, daemon y)"
    using assms by (simp add: loop_dispatch_def replay_Dispatch_def with_message_def Let_def)
  define y2 where "y2 = ?y1\<lparr>run := run ?y1\<lparr>cn_phase := Answering ?e True\<rparr>, daemon := daemon y,
    answers := answers ?y1 @ produced (run ?y1\<lparr>cn_phase := Answering ?e True\<rparr>)\<rparr>"
  have "conn_step sha256 ?y1 y2" unfolding y2_def by (rule conn_step.dispatch [OF _ D]) (simp add: with_message_def)
  moreover define y3 where "y3 = enters True ?e (loop_answer True ?e True (run y2)) y2"
  have "conn_step sha256 y2 y3" unfolding y3_def by (rule conn_step.answer) (simp add: y2_def)
  moreover have y3: "cn_phase (run y3) = Closing" "ob_queue (cn_out (run y3)) = ob_queue (cn_out (run y)) @ [?e]" "cn_writer (run y3) = Looking"
    "ob_wire (cn_out (run y3)) = ob_wire (cn_out (run y))" "daemon y3 = daemon y"
    using assms by (simp_all add: y3_def y2_def enters_def loop_answer_def ob_enqueue_def with_message_def)
  define y4 where "y4 = y3\<lparr>run := serve_return (run y3)\<rparr>"
  have "conn_step sha256 y3 y4" unfolding y4_def by (rule conn_step.close [OF y3(1)])
  ultimately have "(conn_step sha256)\<^sup>*\<^sup>* y y4" by (meson rtranclp.rtrancl_into_rtrancl)
  moreover have "ob_wire (cn_out (run y5)) = ob_wire (cn_out (run y))" if "(conn_step sha256)\<^sup>*\<^sup>* y4 y5" for y5
    using writer_over_reachable [OF that] y3 by (simp add: y4_def writer_over_def)
  ultimately show ?thesis using y3 by (intro exI [of _ y4]) (simp add: y4_def)
qed

theorem limit_answer_may_be_lost_witness:
  "\<exists>y2. (conn_step (\<lambda>x. x))\<^sup>*\<^sup>* (sample_sys (replicate 4096 (''x'', \<lparr>cached_fingerprint = [], cached_response = zero_envelope\<rparr>))) y2 \<and>
     ob_queue (cn_out (run y2)) = [limit_message ''t'' ''m1''] \<and>
     (\<forall>y3. (conn_step (\<lambda>x. x))\<^sup>*\<^sup>* y2 y3 \<longrightarrow> ob_wire (cn_out (run y3)) = [])"
proof -
  let ?y = "sample_sys (replicate 4096 (''x'', \<lparr>cached_fingerprint = [], cached_response = zero_envelope\<rparr>))"
  have id: "MessageID sample_envelope = ''m1''" by (simp add: sample_envelope_def NewEnvelope_def)
  obtain y2 where "(conn_step (\<lambda>x. x))\<^sup>*\<^sup>* ?y y2"
    "ob_queue (cn_out (run y2)) = ob_queue (cn_out (run ?y)) @ [limit_message ''t'' (MessageID sample_envelope)]"
    "\<forall>y3. (conn_step (\<lambda>x. x))\<^sup>*\<^sup>* y2 y3 \<longrightarrow> ob_wire (cn_out (run y3)) = ob_wire (cn_out (run ?y))"
    using limit_answer_may_be_lost [of ?y "\<lparr>incoming = [], broken = False\<rparr>" sample_envelope "\<lambda>x. x" "''t''"] sample_print [of "\<lambda>x. x"]
    by (auto simp: sample_sys_def sample_run_def sample_frame_alone id maxCachedRequestsPerConnection_def map_of_eq_None_iff)
  then show ?thesis by (intro exI [of _ y2]) (auto simp: sample_sys_def sample_run_def id)
qed

section \<open>The peer of a connection\<close>

lemma user_step: "conn_step sha256 y y' \<Longrightarrow> cn_user (run y') = cn_user (run y)"
  by (induction rule: conn_step.induct)
    (auto simp: enters_def loop_look_def loop_receive_def loop_dispatch_def loop_answer_def writeConnectionResponse_def
      serve_return_def close_conn_run_def writer_look_def writer_take_def writer_write_def Let_def
      split: prod.splits sum.splits list.splits option.splits)

lemma user_reachable: "(conn_step sha256)\<^sup>*\<^sup>* y y' \<Longrightarrow> cn_user (run y') = cn_user (run y)"
  by (induction rule: rtranclp_induct) (auto simp: user_step)

text \<open>What the queue of a fresh stream holds.\<close>

lemma Register_stream_outbox:
  assumes "Register_stream pick now i (Some ob) b snap r = (r', Some j)" "ob_queue ob = []" "\<not> ob_cancelled ob" "ob_wire ob = []"
  shows "\<exists>s. objs r' j = Some s \<and> \<not> ob_cancelled (s_out s) \<and> ob_wire (s_out s) = [] \<and> length (ob_queue (s_out s)) \<le> ob_cap (s_out s)"
  using assms
  by (auto simp: Register_stream_def stream_enqueue_def newNodeStream_def ob_enqueue_def Let_def split: prod.splits if_splits)

lemma closed_entry [simp]: "Get j (close_object a m) = Get j m" "Get j (alloc a c m) = Get j m"
  "Get j (Unregister i (close_object a m)) = Get j (Unregister i m)"
  by (simp_all add: Get_def Unregister_def alloc_def)

lemma conn_ident_alloc [simp]: "conn_ident a (alloc a c m) = Some (conn_ID c)"
  by (simp add: conn_ident_def alloc_def)

text \<open>What \<^verbatim>\<open>serveConnection\<close> does before its loop, for a connection object that it could create.\<close>

lemma serve_start_cases:
  assumes "serve_start pick now a i (Some env) rand1 rand2 input bad cache r m = Some (r', m', started)"
  obtains (unknown) "started = None" "m' = m"
  | (duplicate) cc where "started = None" "m' = close_object a (alloc a cc m)"
  | (no_stream) cc m1 where "NewConnection (Some env) rand1 rand2 = Some (Inr cc)" "started = None"
      "Register (Some a) (alloc a cc m) = (m1, Inr ())" "m' = Unregister (conn_ID cc) (close_object a m1)"
  | (served) cc c where "NewConnection (Some env) rand1 rand2 = Some (Inr cc)" "Register (Some a) (alloc a cc m) = (m', Inr ())"
      "started = Some c" "cn_user c = User cc" "cn_phase c = Reading" "cn_writer c = Looking" "cn_replay c = []"
      "\<not> ob_cancelled (cn_out c)" "ob_wire (cn_out c) = []" "length (ob_queue (cn_out c)) \<le> ob_cap (cn_out c)"
proof -
  show thesis
  proof (cases "NewConnection (Some env) rand1 rand2")
    case (Some res)
    show thesis
    proof (cases res)
      case (Inr cc)
      obtain m1 reg where R: "Register (Some a) (alloc a cc m) = (m1, reg)" by (rule prod.exhaust)
      show thesis
      proof (cases reg)
        case (Inl err)
        then have "m1 = alloc a cc m" using R by (auto simp: Register_def split: option.splits if_splits)
        then show thesis using assms Some Inr R Inl duplicate [of cc] by (simp add: serve_start_def)
      next
        case Inr': (Inr u)
        show thesis
        proof (cases r)
          case None
          then show thesis using assms Some Inr R Inr' by (intro served [of cc "the started"]) (auto simp: serve_start_def)
        next
          case r: (Some r0)
          let ?out = "\<lparr>ob_cap = nat (QueueSize (Some r0)), ob_queue = [], ob_wire = [], ob_cancelled = False\<rparr>"
          obtain r1 so where S: "Register_stream pick now i (Some ?out) True (cache_Snapshot cache) r0 = (r1, so)" by (rule prod.exhaust)
          show thesis
          proof (cases so)
            case None
            then show thesis using assms Some Inr R Inr' r S no_stream [of cc m1] by (simp add: serve_start_def)
          next
            case so: (Some j)
            then show thesis
              using assms Some Inr R Inr' r S Register_stream_outbox [OF S [unfolded so]]
              by (intro served [of cc "the started"]) (auto simp: serve_start_def)
          qed
        qed
      qed
    qed (use assms Some unknown in \<open>simp add: serve_start_def\<close>)
  qed (use assms in \<open>simp add: serve_start_def\<close>)
qed

text \<open>
  A connection is served as the peer that the kernel named, and leaves no trace. When the loop of a new
  connection starts, the connection is in the table under its identifier, its user is the peer of the socket
  with its name from the user database, and every message it ever receives is dispatched as this user;
  when the connection cannot be served, or when its serving ends, the table is for everybody as it was before.\<close>

theorem connection_served_as_peer:
  assumes "serve_start pick now a i (Some env) rand1 rand2 input bad cache r m = Some (r', m', started)"
    "manager_ok m" "objects m a = None"
  shows "case started of None \<Rightarrow> (\<forall>j. Get j m' = Get j m)
    | Some c \<Rightarrow> (\<exists>cc. objects m' a = Some cc \<and> from_kernel env cc \<and> Get (conn_ID cc) m' = Some a \<and>
        (\<forall>s j. Get j (snd (serve_end a s (conn_ID cc) (r', m'))) = Get j m) \<and>
        (\<forall>y0. run y0 = c \<and> answers y0 = [] \<and> history y0 = map (Pair False) (ob_queue (cn_out c)) \<longrightarrow> conn_start y0 \<and>
          (\<forall>y. (conn_step sha256)\<^sup>*\<^sup>* y0 y \<longrightarrow> cn_user (run y) = User cc)))"
  using assms(1)
proof (cases rule: serve_start_cases)
  case (no_stream cc m1)
  have "manager_ok (alloc a cc m)" using NewConnection_ok [OF no_stream(1)] assms(2,3) by (auto intro: manager_ok_alloc)
  from table.served_and_forgotten [OF this _ no_stream(3), of "conn_ID cc"] show ?thesis
    using no_stream by simp
next
  case (served cc c)
  have "manager_ok (alloc a cc m)" using NewConnection_ok [OF served(1)] assms(2,3) by (auto intro: manager_ok_alloc)
  note t = table.served_and_forgotten [OF this _ served(2), of "conn_ID cc"]
  have "objects m' a = Some cc" using served(2) objects_of(1) [of a "alloc a cc m"] by (simp add: alloc_def)
  moreover have "Get (conn_ID cc) m' = Some a" using t(1) by simp
  moreover have "Get j (snd (serve_end a s (conn_ID cc) (r', m'))) = Get j m" for s j
    using t(3) by (simp add: serve_end_def split: option.splits)
  ultimately show ?thesis using NewConnection_from_kernel [OF served(1)] served
    by (auto simp: conn_start_def user_reachable Let_def)
qed simp_all

theorem connection_served_as_peer_witness:
  "\<exists>m' c cc. serve_start True ''t'' 7 0 (Some sample_socket) (Some []) (Some []) [] False NewNodeCache None NewConnectionManager =
       Some (None, m', Some c) \<and> Get (conn_ID cc) m' = Some 7 \<and> from_kernel sample_socket cc \<and> cn_user c = User cc"
proof -
  obtain cc where cc: "NewConnection (Some sample_socket) (Some []) (Some []) = Some (Inr cc)"
    by (auto simp: NewConnection_def sample_socket_def newID_def mustNewID_def peerIdentity_def peerIdentityForCredentials_def
        peer_user_def Let_def)
  obtain m' where "Register (Some 7) (alloc 7 cc NewConnectionManager) = (m', Inr ())"
    by (auto simp: Register_def alloc_def NewConnectionManager_def Get_def)
  with cc obtain c where s: "serve_start True ''t'' 7 0 (Some sample_socket) (Some []) (Some []) [] False NewNodeCache None NewConnectionManager =
      Some (None, m', Some c)" by (simp add: serve_start_def)
  have "manager_ok NewConnectionManager" "objects NewConnectionManager 7 = None"
    by (simp_all add: manager_ok_def NewConnectionManager_def)
  from connection_served_as_peer [where ?sha256.0 = "\<lambda>x. x", OF s this, simplified option.case] obtain cc where
    h: "from_kernel sample_socket cc" "Get (conn_ID cc) m' = Some 7"
      "\<forall>y0 :: unit conn_sys. run y0 = c \<and> answers y0 = [] \<and> history y0 = map (Pair False) (ob_queue (cn_out c)) \<longrightarrow> conn_start y0 \<and>
          (\<forall>y. (conn_step (\<lambda>x. x))\<^sup>*\<^sup>* y0 y \<longrightarrow> cn_user (run y) = User cc)" by blast
  let ?y0 = "\<lparr>run = c, daemon = (NewDispatcher (\<lambda>_. False), ()), history = map (Pair False) (ob_queue (cn_out c)), answers = []\<rparr>"
  have "cn_user (run ?y0) = User cc"
    using h(3) [rule_format, of ?y0, THEN conjunct2, rule_format, of ?y0] by simp
  then have "cn_user c = User cc" by simp
  with s h show ?thesis by blast
qed

section \<open>The server\<close>

text \<open>
  A listening server with its goroutines: \<^verbatim>\<open>Serve\<close> waits in \<^verbatim>\<open>Accept\<close>, is between \<^verbatim>\<open>Accept\<close> and its
  critical section, or has returned; \<open>to_close\<close> is what a running \<^verbatim>\<open>Close\<close> copied and has not closed yet.
\<close>

datatype serve_state = Accepting | Tracking conn_id | Returned "ipc_error option"

record server_sys =
  srv :: server
  serving :: serve_state
  to_close :: "conn_id set"

inductive server_step :: "server_sys \<Rightarrow> server_sys \<Rightarrow> bool" where
  accept: "serving y = Accepting \<Longrightarrow> listener_open (srv y) \<Longrightarrow> c \<notin> open_conns (srv y) \<Longrightarrow>
    server_step y (y\<lparr>srv := (srv y)\<lparr>open_conns := insert c (open_conns (srv y))\<rparr>, serving := Tracking c\<rparr>)"
| accept_fails: "serving y = Accepting \<Longrightarrow> server_step y (y\<lparr>serving := Returned (accept_error (srv y))\<rparr>)"
| track: "serving y = Tracking c \<Longrightarrow> serve_track c (srv y) = (s', go_on) \<Longrightarrow>
    server_step y (y\<lparr>srv := s', serving := (if go_on then Accepting else Returned None)\<rparr>)"
| conn_return: "c \<in> waiting (srv y) \<Longrightarrow> server_step y (y\<lparr>srv := conn_returns c (srv y)\<rparr>)"
| close_begin: "Close_begin (srv y) = (s', Some cs) \<Longrightarrow> server_step y (y\<lparr>srv := s', to_close := cs\<rparr>)"
| close_listener: "closed (srv y) \<Longrightarrow> server_step y (y\<lparr>srv := Close_listener (srv y)\<rparr>)"
| close_conn: "c \<in> to_close y \<Longrightarrow> server_step y (y\<lparr>srv := Close_conns {c} (srv y), to_close := to_close y - {c}\<rparr>)"
| close_end: "closed (srv y) \<Longrightarrow> to_close y = {} \<Longrightarrow> waiting (srv y) = {} \<Longrightarrow> server_step y (y\<lparr>srv := fst (Close_end ok (srv y))\<rparr>)"

definition accepted :: "server_sys \<Rightarrow> conn_id set" where
  "accepted y = (case serving y of Tracking c \<Rightarrow> {c} | _ \<Rightarrow> {})"

definition server_inv :: "server_sys \<Rightarrow> bool" where
  "server_inv y \<longleftrightarrow> (let s = srv y in
     (listening s \<longrightarrow> \<not> closed s) \<and>
     (\<not> closed s \<longrightarrow> to_close y = {} \<and> open_conns s \<subseteq> active s \<union> accepted y) \<and>
     (closed s \<longrightarrow> open_conns s \<subseteq> to_close y \<union> accepted y) \<and>
     open_conns s - accepted y \<subseteq> waiting s \<and> active s \<subseteq> waiting s \<and>
     (serving y = Returned None \<longrightarrow> closed s))"

lemma server_inv_step: "server_step y y' \<Longrightarrow> server_inv y \<Longrightarrow> server_inv y'"
proof (induction rule: server_step.induct)
  case (accept y c)
  then show ?case by (auto simp: server_inv_def accepted_def Let_def)
next
  case (accept_fails y)
  then show ?case by (auto simp: server_inv_def accepted_def accept_error_def Let_def)
next
  case (track y c s' go_on)
  then show ?case by (auto simp: server_inv_def accepted_def serve_track_def Let_def split: if_splits)
next
  case (conn_return c y)
  then show ?case by (auto simp: server_inv_def accepted_def conn_returns_def untrackConn_def Let_def)
next
  case (close_begin y s' cs)
  then show ?case by (auto simp: server_inv_def accepted_def Close_begin_def Let_def split: if_splits)
next
  case (close_listener y)
  then show ?case by (auto simp: server_inv_def accepted_def Close_listener_def Let_def)
next
  case (close_conn c y)
  then show ?case by (auto simp: server_inv_def accepted_def Close_conns_def Let_def)
next
  case (close_end y ok)
  then show ?case by (auto simp: server_inv_def accepted_def Close_end_def Let_def)
qed

text \<open>
  C24: A closed server leaves no connection behind. Start a server with \<^verbatim>\<open>Listen\<close> and let connections
  arrive, be registered, end, and \<^verbatim>\<open>Close\<close> run, in any interleaving: once \<^verbatim>\<open>Close\<close> has closed what
  it found and no accepted connection is still on its way into the table, no connection is open, even
  those that were accepted while the server was closing; before that, every open connection has a
  goroutine that \<^verbatim>\<open>Close\<close> waits for or is on its way; a closed server is not listening; and \<^verbatim>\<open>Serve\<close>
  returns without an error only when the server was closed.\<close>

theorem close_leaves_no_connection:
  assumes "NewServerWithDispatcher env path d fresh = (s0, d0)" "Listen os s0 = (s1, None)"
    "server_step\<^sup>*\<^sup>* \<lparr>srv = s1, serving = Accepting, to_close = {}\<rparr> y"
  shows "(closed (srv y) \<and> to_close y = {} \<and> accepted y = {} \<longrightarrow> open_conns (srv y) = {}) \<and>
    open_conns (srv y) - accepted y \<subseteq> waiting (srv y) \<and> (listening (srv y) \<longrightarrow> \<not> closed (srv y)) \<and>
    (serving y = Returned None \<longrightarrow> closed (srv y))"
proof -
  have "server_inv \<lparr>srv = s1, serving = Accepting, to_close = {}\<rparr>"
    using assms(1,2)
    by (auto simp: NewServerWithDispatcher_def Listen_def server_inv_def accepted_def Let_def split: if_splits option.splits prod.splits)
  with assms(3) have "server_inv y" by (induction rule: rtranclp_induct) (auto intro: server_inv_step)
  then show ?thesis by (auto simp: server_inv_def Let_def)
qed

definition clean_os :: path_env where
  "clean_os = \<lparr>mkdir_ok = True, lstat_of = Info True, dial_of = DialRefused, remove_ok = True, listen_ok = True, chmod_ok = True\<rparr>"

text \<open>A connection that is accepted just before the server closes.\<close>

theorem close_leaves_no_connection_witness:
  "\<exists>s1 y. Listen clean_os (fst (NewServerWithDispatcher [] [] None (NewDispatcher (\<lambda>_. False) :: unit dispatcher))) = (s1, None) \<and>
     server_step\<^sup>*\<^sup>* \<lparr>srv = s1, serving = Accepting, to_close = {}\<rparr> y \<and> closed (srv y) \<and> open_conns (srv y) = {}"
proof -
  let ?n = "NewServerWithDispatcher [] [] None (NewDispatcher (\<lambda>_. False) :: unit dispatcher)"
  obtain s1 where s1: "Listen clean_os (fst ?n) = (s1, None)" "\<not> closed s1" "listener_open s1" "open_conns s1 = {}" "active s1 = {}"
    by (simp add: Listen_def clean_os_def removeStaleSocket_def NewServerWithDispatcher_def)
  let ?y0 = "\<lparr>srv = s1, serving = Accepting, to_close = {}\<rparr>"
  let ?y1 = "\<lparr>srv = s1\<lparr>open_conns := {1}\<rparr>, serving = Tracking 1, to_close = {}\<rparr>"
  let ?s2 = "s1\<lparr>open_conns := {1}, closed := True, listening := False\<rparr>"
  let ?y2 = "\<lparr>srv = ?s2, serving = Tracking 1, to_close = {}\<rparr>"
  let ?y3 = "\<lparr>srv = fst (serve_track 1 ?s2), serving = Returned None, to_close = {}\<rparr>"
  have "server_step ?y0 ?y1" using server_step.accept [of ?y0 1] s1 by simp
  moreover have "server_step ?y1 ?y2" using server_step.close_begin [of ?y1 "srv ?y2" "{}"] s1 by (simp add: Close_begin_def)
  moreover have "server_step ?y2 ?y3" using server_step.track [of ?y2 1 "srv ?y3" False] by (simp add: serve_track_def)
  ultimately have reach: "server_step\<^sup>*\<^sup>* ?y0 ?y3" by (meson rtranclp.rtrancl_into_rtrancl rtranclp.rtrancl_refl)
  have "closed (srv ?y3)" by (simp add: serve_track_def)
  moreover from this have "open_conns (srv ?y3) = {}"
    using close_leaves_no_connection [OF surjective_pairing s1(1) reach] by (simp add: accepted_def)
  ultimately show ?thesis using s1(1) reach by blast
qed

text \<open>
  The end of the daemon does not wait for the goroutines of its connections. When the context ends,
  \<^verbatim>\<open>Close\<close> runs in a goroutine of its own, and \<^verbatim>\<open>Serve\<close> returns without an error as soon as that has
  closed the listener, whatever requests are being served; \<^verbatim>\<open>main\<close> then closes the executor and the ledger and exits.\<close>

theorem Serve_returns_with_work_in_progress:
  assumes "serving y = Accepting" "\<not> closed (srv y)"
  shows "\<exists>y'. server_step\<^sup>*\<^sup>* y y' \<and> serving y' = Returned None \<and> waiting (srv y') = waiting (srv y) \<and>
    to_close y' = active (srv y) \<and> open_conns (srv y') = open_conns (srv y)"
proof -
  define y1 where "y1 = y\<lparr>srv := (srv y)\<lparr>closed := True, listening := False\<rparr>, to_close := active (srv y)\<rparr>"
  define y2 where "y2 = y1\<lparr>srv := Close_listener (srv y1)\<rparr>"
  define y3 where "y3 = y2\<lparr>serving := Returned (accept_error (srv y2))\<rparr>"
  have "server_step y y1" unfolding y1_def by (rule server_step.close_begin) (use assms in \<open>simp add: Close_begin_def\<close>)
  moreover have "server_step y1 y2" unfolding y2_def by (rule server_step.close_listener) (simp add: y1_def)
  moreover have "server_step y2 y3" unfolding y3_def by (rule server_step.accept_fails) (simp add: y2_def y1_def assms)
  ultimately have "server_step\<^sup>*\<^sup>* y y3" by (meson rtranclp.rtrancl_into_rtrancl rtranclp.rtrancl_refl)
  then show ?thesis
    by (intro exI [of _ y3]) (simp add: y3_def y2_def y1_def accept_error_def Close_listener_def)
qed

text \<open>One connection is served while the daemon ends.\<close>

theorem Serve_returns_with_work_in_progress_witness:
  "\<exists>s1 y. Listen clean_os (fst (NewServerWithDispatcher [] [] None (NewDispatcher (\<lambda>_. False) :: unit dispatcher))) = (s1, None) \<and>
     server_step\<^sup>*\<^sup>* \<lparr>srv = s1, serving = Accepting, to_close = {}\<rparr> y \<and> serving y = Returned None \<and> waiting (srv y) = {1}"
proof -
  let ?n = "NewServerWithDispatcher [] [] None (NewDispatcher (\<lambda>_. False) :: unit dispatcher)"
  obtain s1 where s1: "Listen clean_os (fst ?n) = (s1, None)" "\<not> closed s1" "listener_open s1" "open_conns s1 = {}" "waiting s1 = {}"
    by (simp add: Listen_def clean_os_def removeStaleSocket_def NewServerWithDispatcher_def)
  let ?y0 = "\<lparr>srv = s1, serving = Accepting, to_close = {}\<rparr>"
  let ?y1 = "\<lparr>srv = s1\<lparr>open_conns := {1}\<rparr>, serving = Tracking 1, to_close = {}\<rparr>"
  let ?y2 = "\<lparr>srv = fst (serve_track 1 (srv ?y1)), serving = Accepting, to_close = {}\<rparr>"
  have "server_step ?y0 ?y1" using server_step.accept [of ?y0 1] s1 by simp
  moreover have "server_step ?y1 ?y2" using server_step.track [of ?y1 1 "srv ?y2" True] s1 by (simp add: serve_track_def)
  ultimately have reach: "server_step\<^sup>*\<^sup>* ?y0 ?y2" by (meson rtranclp.rtrancl_into_rtrancl rtranclp.rtrancl_refl)
  have "\<not> closed (srv ?y2)" "waiting (srv ?y2) = {1}" using s1 by (simp_all add: serve_track_def)
  with Serve_returns_with_work_in_progress [of ?y2] obtain y where
    "server_step\<^sup>*\<^sup>* ?y2 y" "serving y = Returned None" "waiting (srv y) = {1}" by auto
  with reach s1(1) show ?thesis by (meson rtranclp_trans)
qed

text \<open>
  The socket path is never taken from a running server. \<^verbatim>\<open>Listen\<close> removes a file only if it is a
  socket that refuses connections; if somebody answers, or nobody can tell, or the file is no socket,
  it fails and changes nothing. It succeeds exactly when the server was not listening, the path is
  free or stale, and the operating system grants every step; on any error the server does not listen.\<close>

theorem Listen_takes_no_live_socket:
  "(snd (removeStaleSocket os) \<longrightarrow> lstat_of os = Info True \<and> dial_of os = DialRefused) \<and>
   (lstat_of os = Info True \<and> dial_of os = DialOk \<longrightarrow> removeStaleSocket os = (Some ErrSocketInUse, False)) \<and>
   (fst (removeStaleSocket os) \<noteq> None \<longrightarrow> fst (Listen os s) = s) \<and>
   (snd (Listen os s) = None \<longleftrightarrow> \<not> listening s \<and> mkdir_ok os \<and> listen_ok os \<and> chmod_ok os \<and>
      (lstat_of os = NotExist \<or> lstat_of os = Info True \<and> dial_of os = DialRefused \<and> remove_ok os)) \<and>
   (snd (Listen os s) \<noteq> None \<longrightarrow> listening (fst (Listen os s)) = listening s) \<and>
   (snd (Listen os s) = None \<longrightarrow> listening (fst (Listen os s)) \<and> \<not> closed (fst (Listen os s)))"
  by (cases "lstat_of os"; cases "dial_of os") (auto simp: removeStaleSocket_def Listen_def)

theorem Listen_takes_no_live_socket_witness:
  "fst (Listen (clean_os\<lparr>dial_of := DialOk\<rparr>) (fst (NewServerWithDispatcher [] [] None (NewDispatcher (\<lambda>_. False) :: unit dispatcher)))) =
     fst (NewServerWithDispatcher [] [] None (NewDispatcher (\<lambda>_. False) :: unit dispatcher)) \<and>
   snd (Listen clean_os (fst (NewServerWithDispatcher [] [] None (NewDispatcher (\<lambda>_. False) :: unit dispatcher)))) = None"
proof -
  let ?s = "fst (NewServerWithDispatcher [] [] None (NewDispatcher (\<lambda>_. False) :: unit dispatcher))"
  have "removeStaleSocket (clean_os\<lparr>dial_of := DialOk\<rparr>) = (Some ErrSocketInUse, False)" "\<not> listening ?s"
    by (simp_all add: clean_os_def removeStaleSocket_def NewServerWithDispatcher_def)
  then show ?thesis
    using Listen_takes_no_live_socket [of "clean_os\<lparr>dial_of := DialOk\<rparr>" ?s] Listen_takes_no_live_socket [of clean_os ?s]
    by (simp add: clean_os_def)
qed

end
