(* ===== verification/Slurm_Json.thy ===== *)
theory Slurm_Json
  imports Go_Json
begin

text \<open>
  \<^verbatim>\<open>json.Unmarshal\<close> into the generated types of the Slurm API: a description of Go types, their
  values, and the decoder that \<^verbatim>\<open>encoding/json\<close> builds from a type by reflection.

  A value keeps what the decoder distinguishes: nil and non-nil pointers, slices and maps; integers
  as numbers; a float keeps its text, since nothing of the program computes with one.
\<close>

section \<open>Types and values\<close>

datatype gotype = GString | GBool | GInt nat | GFloat | GPtr gotype | GSlice gotype | GMapAny
  | GStruct "(string \<times> gotype) list"

datatype goval = VStr string | VBool bool | VInt int | VFloat string | VNil | VPtr goval | VSlice "goval list"
  | VMap "(string \<times> json) list" | VStruct "(string \<times> goval) list"

primrec zero_value :: "gotype \<Rightarrow> goval" where
  "zero_value GString = VStr []"
| "zero_value GBool = VBool False"
| "zero_value (GInt w) = VInt 0"
| "zero_value GFloat = VFloat ''0''"
| "zero_value (GPtr t) = VNil"
| "zero_value (GSlice t) = VNil"
| "zero_value GMapAny = VNil"
| "zero_value (GStruct fs) = VStruct (map (map_prod (\<lambda>x. x) zero_value) fs)"

section \<open>Decoding\<close>

text \<open>A decoder takes a JSON value and what is there before, and says whether all went well.\<close>

type_synonym decoder = "json \<Rightarrow> goval \<Rightarrow> goval \<times> bool"

text \<open>\<^verbatim>\<open>strconv.ParseInt\<close> of a JSON number into \<open>w\<close> bits: no fraction, no exponent, no overflow.\<close>

definition int_literal :: "string \<Rightarrow> int option" where
  "int_literal x =
     (case x of [] \<Rightarrow> None
      | c # cs \<Rightarrow>
        if c = CHR ''-'' then (if cs \<noteq> [] \<and> list_all is_dig cs then Some (- int (undec cs)) else None)
        else if list_all is_dig x then Some (int (undec x)) else None)"

definition fits :: "nat \<Rightarrow> int \<Rightarrow> bool" where
  "fits w i \<longleftrightarrow> - (2 ^ (w - 1)) \<le> i \<and> i < 2 ^ (w - 1)"

definition decode_int :: "nat \<Rightarrow> decoder" where
  "decode_int w v old =
     (case v of
        JNull \<Rightarrow> (old, True)
      | JNum x \<Rightarrow> (case int_literal x of Some i \<Rightarrow> if fits w i then (VInt i, True) else (old, False) | None \<Rightarrow> (old, False))
      | _ \<Rightarrow> (old, False))"

definition decode_str :: decoder where
  "decode_str v old = (case v of JNull \<Rightarrow> (old, True) | JStr s \<Rightarrow> (VStr s, True) | _ \<Rightarrow> (old, False))"

definition decode_boolean :: decoder where
  "decode_boolean v old = (case v of JNull \<Rightarrow> (old, True) | JBool b \<Rightarrow> (VBool b, True) | _ \<Rightarrow> (old, False))"

definition decode_float :: decoder where
  "decode_float v old =
     (case v of JNull \<Rightarrow> (old, True) | JNum x \<Rightarrow> if float_overflows x then (old, False) else (VFloat x, True) | _ \<Rightarrow> (old, False))"

text \<open>A pointer that is nil is given a new zero value first.\<close>

definition decode_pointer :: "goval \<Rightarrow> decoder \<Rightarrow> decoder" where
  "decode_pointer zero d v old =
     (if v = JNull then (VNil, True)
      else (let (y, ok) = d v (case old of VPtr x \<Rightarrow> x | _ \<Rightarrow> zero) in (VPtr y, ok)))"

text \<open>
  An array is decoded over the elements that the slice had; further ones start at zero. (A slice that
  was shortened by an earlier value for the same key still has its longer memory, which is not
  kept here: that takes the key three times in one object.)
\<close>

fun decode_elems :: "goval \<Rightarrow> decoder \<Rightarrow> json list \<Rightarrow> goval list \<Rightarrow> goval list \<times> bool" where
  "decode_elems zero d [] olds = ([], True)"
| "decode_elems zero d (v # vs) olds =
     (let (y, ok) = d v (case olds of [] \<Rightarrow> zero | x # xs \<Rightarrow> x);
          (ys, oks) = decode_elems zero d vs (drop 1 olds)
      in (y # ys, ok \<and> oks))"

definition decode_slice :: "goval \<Rightarrow> decoder \<Rightarrow> decoder" where
  "decode_slice zero d v old =
     (case v of
        JNull \<Rightarrow> (VNil, True)
      | JArr vs \<Rightarrow> (let (ys, ok) = decode_elems zero d vs (case old of VSlice xs \<Rightarrow> xs | _ \<Rightarrow> []) in (VSlice ys, ok))
      | _ \<Rightarrow> (old, False))"

text \<open>Numbers in an untyped value become floats, so they must fit one.\<close>

fun floats_fit :: "json \<Rightarrow> bool" where
  "floats_fit (JNum x) = (\<not> float_overflows x)"
| "floats_fit (JArr vs) = list_all floats_fit vs"
| "floats_fit (JObj ms) = list_all (\<lambda>(k, v). floats_fit v) ms"
| "floats_fit v = True"

definition decode_map_any :: decoder where
  "decode_map_any v old =
     (case v of
        JNull \<Rightarrow> (VNil, True)
      | JObj ms \<Rightarrow> (VMap ((case old of VMap xs \<Rightarrow> xs | _ \<Rightarrow> []) @ ms), floats_fit v)
      | _ \<Rightarrow> (old, False))"

text \<open>
  A struct: each member goes to the field of its name, or of its name up to the case of letters; other
  members are skipped. All members are decoded even after one has failed.
\<close>

definition struct_fields :: "goval \<Rightarrow> (string \<times> goval) list" where
  "struct_fields x = (case x of VStruct fs \<Rightarrow> fs | _ \<Rightarrow> [])"

definition set_field :: "string \<Rightarrow> goval \<Rightarrow> (string \<times> goval) list \<Rightarrow> (string \<times> goval) list" where
  "set_field f x fs = map (\<lambda>(g, y). if g = f then (g, x) else (g, y)) fs"

fun decode_fields :: "(string \<times> decoder) list \<Rightarrow> (string \<times> json) list \<Rightarrow> (string \<times> goval) list \<Rightarrow> (string \<times> goval) list \<times> bool" where
  "decode_fields ds [] fs = (fs, True)"
| "decode_fields ds ((k, v) # ms) fs =
     (case find_field (map fst ds) k of
        None \<Rightarrow> decode_fields ds ms fs
      | Some f \<Rightarrow>
        (let (y, ok) = (the (map_of ds f)) v (case map_of fs f of Some x \<Rightarrow> x | None \<Rightarrow> VNil);
             (fs', oks) = decode_fields ds ms (set_field f y fs)
         in (fs', ok \<and> oks)))"

definition decode_object :: "(string \<times> decoder) list \<Rightarrow> decoder" where
  "decode_object ds v old =
     (case v of
        JNull \<Rightarrow> (old, True)
      | JObj ms \<Rightarrow> (let (fs, ok) = decode_fields ds ms (struct_fields old) in (VStruct fs, ok))
      | _ \<Rightarrow> (old, False))"

primrec decode_value :: "gotype \<Rightarrow> decoder" where
  "decode_value GString = decode_str"
| "decode_value GBool = decode_boolean"
| "decode_value (GInt w) = decode_int w"
| "decode_value GFloat = decode_float"
| "decode_value (GPtr t) = decode_pointer (zero_value t) (decode_value t)"
| "decode_value (GSlice t) = decode_slice (zero_value t) (decode_value t)"
| "decode_value GMapAny = decode_map_any"
| "decode_value (GStruct fs) = decode_object (map (map_prod (\<lambda>x. x) decode_value) fs)"

text \<open>\<^verbatim>\<open>json.Unmarshal\<close> into a zero value of the type; \<open>None\<close> is an error.\<close>

definition unmarshal_value :: "gotype \<Rightarrow> bytes \<Rightarrow> goval option" where
  "unmarshal_value t data =
     (case read_text data of None \<Rightarrow> None
      | Some v \<Rightarrow>
        if max_depth < jdepth v then None
        else (let (y, ok) = decode_value t v (zero_value t) in if ok then Some y else None))"

text \<open>\<^verbatim>\<open>json.Unmarshal\<close> into \<^verbatim>\<open>map[string]json.RawMessage\<close>, with the values in place of their texts.\<close>

definition unmarshal_shape :: "bytes \<Rightarrow> (string \<times> json) list option" where
  "unmarshal_shape data =
     (case read_text data of
        Some v \<Rightarrow> if max_depth < jdepth v then None else (case v of JObj ms \<Rightarrow> Some ms | JNull \<Rightarrow> Some [] | _ \<Rightarrow> None)
      | None \<Rightarrow> None)"

section \<open>Reading decoded values\<close>

definition field :: "string \<Rightarrow> goval \<Rightarrow> goval" where
  "field f x = (case map_of (struct_fields x) f of Some y \<Rightarrow> y | None \<Rightarrow> VNil)"

definition string_at :: "goval \<Rightarrow> string" where
  "string_at x = (case x of VStr s \<Rightarrow> s | _ \<Rightarrow> [])"

definition int_at :: "goval \<Rightarrow> int" where
  "int_at x = (case x of VInt i \<Rightarrow> i | _ \<Rightarrow> 0)"

definition bool_at :: "goval \<Rightarrow> bool" where
  "bool_at x = (case x of VBool b \<Rightarrow> b | _ \<Rightarrow> False)"

definition pointee :: "goval \<Rightarrow> goval option" where
  "pointee x = (case x of VPtr y \<Rightarrow> Some y | _ \<Rightarrow> None)"

definition elems :: "goval \<Rightarrow> goval list" where
  "elems x = (case x of VSlice ys \<Rightarrow> ys | _ \<Rightarrow> [])"

end
