(* ===== verification/Slurm_Models.thy ===== *)
theory Slurm_Models
  imports Slurm_Json
begin

text \<open>
  The generated types of the Slurm API (\<^verbatim>\<open>hack/openapi/slurm_openapi.gen.go\<close>) that the daemon reads:
  everything reachable from \<^verbatim>\<open>V0043OpenapiNodesResp\<close> and \<^verbatim>\<open>V0043OpenapiUsersResp\<close>, each field under its
  JSON name. The rest of that file is not used by the program.
\<close>

definition V0043OpenapiError :: gotype where
  "V0043OpenapiError = GStruct [
    (''description'', GPtr GString), (''error'', GPtr GString), (''error_number'', GPtr (GInt 32)),
    (''source'', GPtr GString)]"

definition V0043OpenapiErrors :: gotype where
  "V0043OpenapiErrors = GSlice V0043OpenapiError"

definition V0043Uint64NoValStruct :: gotype where
  "V0043Uint64NoValStruct = GStruct [
    (''infinite'', GPtr GBool), (''number'', GPtr (GInt 64)), (''set'', GPtr GBool)]"

definition V0043StringArray :: gotype where
  "V0043StringArray = GSlice GString"

definition V0043OpenapiMeta :: gotype where
  "V0043OpenapiMeta = GStruct [
    (''client'', GPtr (GStruct [(''group'', GPtr GString), (''source'', GPtr GString), (''user'', GPtr GString)])),
    (''command'', GPtr V0043StringArray),
    (''plugin'', GPtr (GStruct [(''accounting_storage'', GPtr GString), (''data_parser'', GPtr GString), (''name'', GPtr GString), (''type'', GPtr GString)])),
    (''slurm'', GPtr (GStruct [(''cluster'', GPtr GString), (''release'', GPtr GString), (''version'', GPtr (GStruct [(''major'', GPtr GString), (''micro'', GPtr GString), (''minor'', GPtr GString)]))]))]"

definition V0043CsvString :: gotype where
  "V0043CsvString = GSlice GString"

definition V0043NodeCertFlags :: gotype where
  "V0043NodeCertFlags = GString"

definition V0043Uint32NoValStruct :: gotype where
  "V0043Uint32NoValStruct = GStruct [
    (''infinite'', GPtr GBool), (''number'', GPtr (GInt 32)), (''set'', GPtr GBool)]"

definition V0043AcctGatherEnergy :: gotype where
  "V0043AcctGatherEnergy = GStruct [
    (''average_watts'', GPtr (GInt 32)), (''base_consumed_energy'', GPtr (GInt 64)),
    (''consumed_energy'', GPtr (GInt 64)), (''current_watts'', GPtr V0043Uint32NoValStruct),
    (''last_collected'', GPtr (GInt 64)), (''previous_consumed_energy'', GPtr (GInt 64))]"

definition V0043NodeNextStateAfterReboot :: gotype where
  "V0043NodeNextStateAfterReboot = GString"

definition V0043NodeState :: gotype where
  "V0043NodeState = GString"

definition V0043Node :: gotype where
  "V0043Node = GStruct [
    (''active_features'', GPtr V0043CsvString), (''address'', GPtr GString), (''alloc_cpus'', GPtr (GInt 32)),
    (''alloc_idle_cpus'', GPtr (GInt 32)), (''alloc_memory'', GPtr (GInt 64)),
    (''architecture'', GPtr GString), (''boards'', GPtr (GInt 32)),
    (''boot_time'', GPtr V0043Uint64NoValStruct), (''burstbuffer_network_address'', GPtr GString),
    (''cert_flags'', GPtr (GSlice V0043NodeCertFlags)), (''cluster_name'', GPtr GString),
    (''comment'', GPtr GString), (''cores'', GPtr (GInt 32)), (''cpu_binding'', GPtr (GInt 32)),
    (''cpu_load'', GPtr (GInt 32)), (''cpus'', GPtr (GInt 32)), (''effective_cpus'', GPtr (GInt 32)),
    (''energy'', GPtr V0043AcctGatherEnergy), (''external_sensors'', GPtr GMapAny), (''extra'', GPtr GString),
    (''features'', GPtr V0043CsvString), (''free_mem'', GPtr V0043Uint64NoValStruct),
    (''gpu_spec'', GPtr GString), (''gres'', GPtr GString), (''gres_drained'', GPtr GString),
    (''gres_used'', GPtr GString), (''hostname'', GPtr GString), (''instance_id'', GPtr GString),
    (''instance_type'', GPtr GString), (''last_busy'', GPtr V0043Uint64NoValStruct),
    (''mcs_label'', GPtr GString), (''name'', GPtr GString),
    (''next_state_after_reboot'', GPtr (GSlice V0043NodeNextStateAfterReboot)),
    (''operating_system'', GPtr GString), (''owner'', GPtr GString), (''partitions'', GPtr V0043CsvString),
    (''port'', GPtr (GInt 32)), (''power'', GPtr GMapAny), (''real_memory'', GPtr (GInt 64)),
    (''reason'', GPtr GString), (''reason_changed_at'', GPtr V0043Uint64NoValStruct),
    (''reason_set_by_user'', GPtr GString), (''res_cores_per_gpu'', GPtr (GInt 32)),
    (''reservation'', GPtr GString), (''resume_after'', GPtr V0043Uint64NoValStruct),
    (''slurmd_start_time'', GPtr V0043Uint64NoValStruct), (''sockets'', GPtr (GInt 32)),
    (''specialized_cores'', GPtr (GInt 32)), (''specialized_cpus'', GPtr GString),
    (''specialized_memory'', GPtr (GInt 64)), (''state'', GPtr (GSlice V0043NodeState)),
    (''temporary_disk'', GPtr (GInt 32)), (''threads'', GPtr (GInt 32)),
    (''tls_cert_last_renewal'', GPtr V0043Uint64NoValStruct), (''topology'', GPtr GString),
    (''tres'', GPtr GString), (''tres_used'', GPtr GString), (''tres_weighted'', GPtr GFloat),
    (''version'', GPtr GString), (''weight'', GPtr (GInt 32))]"

definition V0043Nodes :: gotype where
  "V0043Nodes = GSlice V0043Node"

definition V0043OpenapiWarning :: gotype where
  "V0043OpenapiWarning = GStruct [
    (''description'', GPtr GString), (''source'', GPtr GString)]"

definition V0043OpenapiWarnings :: gotype where
  "V0043OpenapiWarnings = GSlice V0043OpenapiWarning"

definition V0043OpenapiNodesResp :: gotype where
  "V0043OpenapiNodesResp = GStruct [
    (''errors'', GPtr V0043OpenapiErrors), (''last_update'', V0043Uint64NoValStruct),
    (''meta'', GPtr V0043OpenapiMeta), (''nodes'', V0043Nodes), (''warnings'', GPtr V0043OpenapiWarnings)]"

definition V0043UserAdministratorLevel :: gotype where
  "V0043UserAdministratorLevel = GString"

definition V0043AssocShort :: gotype where
  "V0043AssocShort = GStruct [
    (''account'', GPtr GString), (''cluster'', GPtr GString), (''id'', GPtr (GInt 32)),
    (''partition'', GPtr GString), (''user'', GString)]"

definition V0043AssocShortList :: gotype where
  "V0043AssocShortList = GSlice V0043AssocShort"

definition V0043Coord :: gotype where
  "V0043Coord = GStruct [
    (''direct'', GPtr GBool), (''name'', GString)]"

definition V0043CoordList :: gotype where
  "V0043CoordList = GSlice V0043Coord"

definition V0043UserFlags :: gotype where
  "V0043UserFlags = GString"

definition V0043Tres :: gotype where
  "V0043Tres = GStruct [
    (''count'', GPtr (GInt 64)), (''id'', GPtr (GInt 32)), (''name'', GPtr GString), (''type'', GString)]"

definition V0043Accounting :: gotype where
  "V0043Accounting = GStruct [
    (''TRES'', GPtr V0043Tres), (''allocated'', GPtr (GStruct [(''seconds'', GPtr (GInt 64))])),
    (''id'', GPtr (GInt 32)), (''id_alt'', GPtr (GInt 32)), (''start'', GPtr (GInt 64))]"

definition V0043AccountingList :: gotype where
  "V0043AccountingList = GSlice V0043Accounting"

definition V0043WckeyFlags :: gotype where
  "V0043WckeyFlags = GString"

definition V0043Wckey :: gotype where
  "V0043Wckey = GStruct [
    (''accounting'', GPtr V0043AccountingList), (''cluster'', GString),
    (''flags'', GPtr (GSlice V0043WckeyFlags)), (''id'', GPtr (GInt 32)), (''name'', GString),
    (''user'', GString)]"

definition V0043WckeyList :: gotype where
  "V0043WckeyList = GSlice V0043Wckey"

definition V0043User :: gotype where
  "V0043User = GStruct [
    (''administrator_level'', GPtr (GSlice V0043UserAdministratorLevel)),
    (''associations'', GPtr V0043AssocShortList), (''coordinators'', GPtr V0043CoordList),
    (''default'', GPtr (GStruct [(''account'', GPtr GString), (''wckey'', GPtr GString)])),
    (''flags'', GPtr (GSlice V0043UserFlags)), (''name'', GString), (''old_name'', GPtr GString),
    (''wckeys'', GPtr V0043WckeyList)]"

definition V0043UserList :: gotype where
  "V0043UserList = GSlice V0043User"

definition V0043OpenapiUsersResp :: gotype where
  "V0043OpenapiUsersResp = GStruct [
    (''errors'', GPtr V0043OpenapiErrors), (''meta'', GPtr V0043OpenapiMeta), (''users'', V0043UserList),
    (''warnings'', GPtr V0043OpenapiWarnings)]"

end
