(* ===== verification/Slurm_Source.thy ===== *)
theory Slurm_Source
  imports Slurm_Models Node Access "HOL-Library.List_Lexorder" "HOL-Library.Char_ord"
begin

text \<open>
  What the daemon reads from Slurm: the nodes from \<^verbatim>\<open>scontrol\<close> (\<^verbatim>\<open>internal/resource/node_adapter.go\<close>) and
  the users from \<^verbatim>\<open>sacctmgr\<close> (\<^verbatim>\<open>internal/identity/sacctmgr.go\<close>).

  The programs are parameters: \<open>exec name args\<close> is the standard output, or nothing when the program
  failed, could not be started or took too long.
\<close>

type_synonym exec_fn = "string \<Rightarrow> string list \<Rightarrow> bytes option"

section \<open>Nodes (node_adapter.go)\<close>

datatype adapter_error = ErrScontrol | ErrNodesJSON | ErrNodesMissing | ErrNodesNotArray | ErrNodesReported

text \<open>The fields of the generated node that \<^const>\<open>MapSlurmNode\<close> reads.\<close>

definition slurm_node_of :: "goval \<Rightarrow> slurm_node" where
  "slurm_node_of n =
     \<lparr>sn_Address = map_option string_at (pointee (field ''address'' n)),
      sn_Hostname = map_option string_at (pointee (field ''hostname'' n)),
      sn_Name = map_option string_at (pointee (field ''name'' n)),
      sn_CpuLoad = map_option int_at (pointee (field ''cpu_load'' n)),
      sn_RealMemory = map_option int_at (pointee (field ''real_memory'' n)),
      sn_AllocMemory = map_option int_at (pointee (field ''alloc_memory'' n)),
      sn_FreeMem = map_option (\<lambda>m. (map_option int_at (pointee (field ''number'' m)), map_option bool_at (pointee (field ''set'' m))))
        (pointee (field ''free_mem'' n)),
      sn_Reason = map_option string_at (pointee (field ''reason'' n)),
      sn_State = map_option (\<lambda>s. map string_at (elems s)) (pointee (field ''state'' n))\<rparr>"

text \<open>The \<^verbatim>\<open>errors\<close> of a response are there and not empty.\<close>

definition reported_errors :: "goval \<Rightarrow> bool" where
  "reported_errors resp \<longleftrightarrow> (case pointee (field ''errors'' resp) of None \<Rightarrow> False | Some es \<Rightarrow> elems es \<noteq> [])"

text \<open>The last value of a member in the shape of a document; an array is what starts with a bracket.\<close>

definition shape_value :: "string \<Rightarrow> (string \<times> json) list \<Rightarrow> json option" where
  "shape_value k shape = map_of (rev shape) k"

definition is_array :: "json \<Rightarrow> bool" where
  "is_array v = (case v of JArr _ \<Rightarrow> True | _ \<Rightarrow> False)"

text \<open>\<open>nows i\<close> is the clock when node \<open>i\<close> is mapped.\<close>

definition ListNodes :: "exec_fn \<Rightarrow> (nat \<Rightarrow> string) \<Rightarrow> adapter_error + node list" where
  "ListNodes exec nows =
     (case exec ''scontrol'' [''show'', ''nodes'', ''--json''] of
        None \<Rightarrow> Inl ErrScontrol
      | Some out \<Rightarrow>
        (case unmarshal_shape out of
           None \<Rightarrow> Inl ErrNodesJSON
         | Some shape \<Rightarrow>
           (case shape_value ''nodes'' shape of
              None \<Rightarrow> Inl ErrNodesMissing
            | Some rawNodes \<Rightarrow>
              if \<not> is_array rawNodes then Inl ErrNodesNotArray
              else
                (case unmarshal_value V0043OpenapiNodesResp out of
                   None \<Rightarrow> Inl ErrNodesJSON
                 | Some resp \<Rightarrow>
                   if reported_errors resp then Inl ErrNodesReported
                   else Inr (map (\<lambda>(i, n). MapSlurmNode (nows i) (slurm_node_of n)) (List.enumerate 0 (elems (field ''nodes'' resp))))))))"

section \<open>Users (sacctmgr.go)\<close>

definition sacctmgrPath :: string where
  "sacctmgrPath = ''/usr/bin/sacctmgr''"

definition username_rune :: "rune \<Rightarrow> bool" where
  "username_rune c \<longleftrightarrow> is_lower c \<or> is_upper c \<or> is_digit c \<or> c = 95 \<or> c = 46 \<or> c = 45"

definition validSlurmUsername :: "string \<Rightarrow> bool" where
  "validSlurmUsername username \<longleftrightarrow> \<not> (username = [] \<or> length username > 255) \<and> list_all username_rune (runes username)"

text \<open>Of equal neighbours one is kept.\<close>

fun compact_from :: "string \<Rightarrow> string list \<Rightarrow> string list" where
  "compact_from prev [] = []"
| "compact_from prev (v # vs) = (if v \<noteq> prev then v # compact_from v vs else compact_from prev vs)"

definition compactStrings :: "string list \<Rightarrow> string list" where
  "compactStrings values = (case values of [] \<Rightarrow> [] | v # vs \<Rightarrow> if length values < 2 then values else v # compact_from v vs)"

text \<open>The accounts of the associations, without absent and empty ones, each once.\<close>

fun new_accounts :: "string set \<Rightarrow> goval list \<Rightarrow> string list" where
  "new_accounts seen [] = []"
| "new_accounts seen (a # as) =
     (case pointee (field ''account'' a) of
        None \<Rightarrow> new_accounts seen as
      | Some x \<Rightarrow>
        if string_at x = [] \<or> string_at x \<in> seen then new_accounts seen as
        else string_at x # new_accounts (insert (string_at x) seen) as)"

definition pointed_elems :: "goval \<Rightarrow> goval list" where
  "pointed_elems x = (case pointee x of None \<Rightarrow> [] | Some s \<Rightarrow> elems s)"

text \<open>All errors are \<^const>\<open>ErrSlurmUserLookup\<close> with a text.\<close>

definition parseSacctmgrUser :: "bytes \<Rightarrow> string \<Rightarrow> access_error + slurm_user option" where
  "parseSacctmgrUser output requestedUsername =
     (case unmarshal_shape output of
        None \<Rightarrow> Inl ErrSlurmUserLookup
      | Some shape \<Rightarrow>
        (case shape_value ''users'' shape of
           None \<Rightarrow> Inl ErrSlurmUserLookup
         | Some rawUsers \<Rightarrow>
           if \<not> is_array rawUsers then Inl ErrSlurmUserLookup
           else
             (case unmarshal_value V0043OpenapiUsersResp output of
                None \<Rightarrow> Inl ErrSlurmUserLookup
              | Some response \<Rightarrow>
                if reported_errors response then Inl ErrSlurmUserLookup
                else
                  (case elems (field ''users'' response) of
                     [] \<Rightarrow> Inr None
                   | user # others \<Rightarrow>
                     if others \<noteq> [] \<or> string_at (field ''name'' user) \<noteq> requestedUsername then Inl ErrSlurmUserLookup
                     else
                       (let levels = map string_at (pointed_elems (field ''administrator_level'' user)) in
                        if length levels > 1 then Inl ErrSlurmUserLookup
                        else Inr (Some
                          \<lparr>su_Username = string_at (field ''name'' user),
                           su_AdminLevel = (if length levels = 1 then hd levels else []),
                           su_Accounts = sort (new_accounts {} (pointed_elems (field ''associations'' user))),
                           su_CoordinatorAccounts = compactStrings (sort (filter (\<lambda>n. n \<noteq> [])
                             (map (\<lambda>c. string_at (field ''name'' c)) (pointed_elems (field ''coordinators'' user)))))\<rparr>))))))"

definition sacctmgr_args :: "string \<Rightarrow> string list" where
  "sacctmgr_args username = [''--readonly'', ''--json'', ''show'', ''user'', ''where'', ''name='' @ username, ''withcoords'', ''withassoc'']"

text \<open>\<open>None\<close> stands for a lookup without an executor.\<close>

definition LookupUser :: "exec_fn option \<Rightarrow> user_lookup_fn" where
  "LookupUser exec username =
     (if \<not> validSlurmUsername username then Inl ErrSlurmUserLookup
      else
        (case exec of None \<Rightarrow> Inl ErrSlurmUserLookup
         | Some run \<Rightarrow>
           (case run sacctmgrPath (sacctmgr_args username) of
              None \<Rightarrow> Inl ErrSlurmUserLookup
            | Some output \<Rightarrow> parseSacctmgrUser output username)))"

end
