(* ===== verification/Slurm_Source_Props.thy ===== *)
theory Slurm_Source_Props
  imports Slurm_Source Node_Stream Protocol_Props Go_Json_Valid Node_Props
begin

text \<open>
  Documents in the format of \<^verbatim>\<open>scontrol\<close> are read as they were written, and a user that is found is
  the one that was asked for.
\<close>

section \<open>Decoding objects\<close>

lemma map_of_map_prod: "map_of (map (map_prod (\<lambda>x. x) f) xs) k = map_option f (map_of xs k)"
  by (induction xs) auto

lemma fst_map_prod: "map fst (map (map_prod (\<lambda>x. x) f) xs) = map fst xs"
  by (induction xs) auto

lemma map_of_set_field: "map_of (set_field f x fs) g = (if g = f \<and> map_of fs f \<noteq> None then Some x else map_of fs g)"
  by (induction fs) (auto simp: set_field_def)

text \<open>Distinct members that name fields exactly: each field gets the value of its member.\<close>

lemma decode_fields_exact:
  assumes "distinct (map fst ms)" "fst ` set ms \<subseteq> fst ` set ds" "\<forall>k \<in> fst ` set ds. map_of fs k \<noteq> None"
    "\<forall>(k, v) \<in> set ms. the (map_of ds k) v (the (map_of fs k)) = (val k, True)"
  shows "\<exists>fs'. decode_fields ds ms fs = (fs', True) \<and>
    (\<forall>f. map_of fs' f = (if f \<in> fst ` set ms then Some (val f) else map_of fs f))"
  using assms
proof (induction ms arbitrary: fs)
  case (Cons m ms)
  obtain k v where m: "m = (k, v)" by fastforce
  have k: "k \<in> fst ` set ds" "map_of fs k \<noteq> None" using Cons.prems(2,3) m by auto
  then have ff: "find_field (map fst ds) k = Some k" by (intro find_field_exact) auto
  have old: "(case map_of fs k of Some x \<Rightarrow> x | None \<Rightarrow> VNil) = the (map_of fs k)" using k(2) by auto
  have d: "the (map_of ds k) v (the (map_of fs k)) = (val k, True)" using Cons.prems(4) m by auto
  let ?fs = "set_field k (val k) fs"
  have "\<exists>fs'. decode_fields ds ms ?fs = (fs', True) \<and>
    (\<forall>f. map_of fs' f = (if f \<in> fst ` set ms then Some (val f) else map_of ?fs f))"
  proof (rule Cons.IH)
    show "\<forall>(j, w) \<in> set ms. the (map_of ds j) w (the (map_of ?fs j)) = (val j, True)"
      using Cons.prems(1,4) m by (force simp: map_of_set_field)
  qed (use Cons.prems m in \<open>auto simp: map_of_set_field\<close>)
  then obtain fs' where fs': "decode_fields ds ms ?fs = (fs', True)"
      "\<And>f. map_of fs' f = (if f \<in> fst ` set ms then Some (val f) else map_of ?fs f)" by blast
  have "decode_fields ds (m # ms) fs = (fs', True)" using fs'(1) ff old d m by simp
  moreover have "map_of fs' f = (if f \<in> fst ` set (m # ms) then Some (val f) else map_of fs f)" for f
    using fs'(2) [of f] k(2) m by (auto simp: map_of_set_field)
  ultimately show ?case by blast
qed simp

text \<open>The same for an object decoded into a new struct.\<close>

lemma decode_struct_exact:
  assumes "distinct (map fst ms)" "\<forall>(k, v) \<in> set ms. \<exists>t. map_of ts k = Some t \<and> decode_value t v (zero_value t) = (val k, True)"
  shows "\<exists>x. decode_value (GStruct ts) (JObj ms) (zero_value (GStruct ts)) = (x, True) \<and>
    (\<forall>f. field f x = (if f \<in> fst ` set ms then val f else case map_of ts f of None \<Rightarrow> VNil | Some t \<Rightarrow> zero_value t))"
proof -
  let ?ds = "map (map_prod (\<lambda>x. x) decode_value) ts" and ?fs = "map (map_prod (\<lambda>x. x) zero_value) ts"
  have keys: "fst ` set ?ds = fst ` set ts" by (force simp: image_iff)
  have "\<exists>fs'. decode_fields ?ds ms ?fs = (fs', True) \<and>
    (\<forall>f. map_of fs' f = (if f \<in> fst ` set ms then Some (val f) else map_of ?fs f))"
  proof (rule decode_fields_exact [OF assms(1)])
    show "fst ` set ms \<subseteq> fst ` set ?ds" unfolding keys
      using assms(2) by (force dest: map_of_SomeD)
    show "\<forall>k \<in> fst ` set ?ds. map_of ?fs k \<noteq> None" unfolding keys
      by (auto simp: map_of_map_prod map_of_eq_None_iff image_iff)
    show "\<forall>(k, v) \<in> set ms. the (map_of ?ds k) v (the (map_of ?fs k)) = (val k, True)"
      using assms(2) by (fastforce simp: map_of_map_prod)
  qed
  then obtain fs' where "decode_fields ?ds ms ?fs = (fs', True)"
      "\<And>f. map_of fs' f = (if f \<in> fst ` set ms then Some (val f) else map_of ?fs f)" by blast
  then show ?thesis
    by (auto simp: decode_object_def struct_fields_def field_def map_of_map_prod split: option.splits)
qed

lemma decode_elems_new:
  "\<forall>v \<in> set vs. snd (d v zero) \<Longrightarrow> decode_elems zero d vs [] = (map (\<lambda>v. fst (d v zero)) vs, True)"
  by (induction vs) (auto simp: case_prod_beta)

lemma decode_struct_ok:
  assumes "distinct (map fst ms)" "\<forall>(k, v) \<in> set ms. \<exists>t. map_of ts k = Some t \<and> snd (decode_value t v (zero_value t))"
  shows "\<exists>x. decode_value (GStruct ts) (JObj ms) (zero_value (GStruct ts)) = (x, True) \<and>
    (\<forall>f t. map_of ts f = Some t \<longrightarrow>
       field f x = (case map_of ms f of None \<Rightarrow> zero_value t | Some v \<Rightarrow> fst (decode_value t v (zero_value t))))"
proof -
  define val where "val k = fst (decode_value (the (map_of ts k)) (the (map_of ms k)) (zero_value (the (map_of ts k))))" for k
  have "\<forall>(k, v) \<in> set ms. \<exists>t. map_of ts k = Some t \<and> decode_value t v (zero_value t) = (val k, True)"
    using assms by (fastforce simp: val_def prod_eq_iff)
  from decode_struct_exact [OF assms(1) this] obtain x where x: "decode_value (GStruct ts) (JObj ms) (zero_value (GStruct ts)) = (x, True)"
    "\<And>f. field f x = (if f \<in> fst ` set ms then val f else case map_of ts f of None \<Rightarrow> VNil | Some t \<Rightarrow> zero_value t)" by blast
  have "field f x = (case map_of ms f of None \<Rightarrow> zero_value t | Some v \<Rightarrow> fst (decode_value t v (zero_value t)))"
    if "map_of ts f = Some t" for f t
  proof (cases "map_of ms f")
    case None
    then have "f \<notin> fst ` set ms" by (simp add: map_of_eq_None_iff)
    with None that x(2) [of f] show ?thesis by simp
  next
    case (Some v)
    then have "f \<in> fst ` set ms" by (force dest: map_of_SomeD)
    with Some that x(2) [of f] show ?thesis by (simp add: val_def)
  qed
  with x(1) show ?thesis by blast
qed

section \<open>Integers\<close>

lemma dec_head: "n \<noteq> 0 \<Longrightarrow> hd (dec n) \<noteq> CHR ''0''"
proof (induction n rule: dec.induct)
  case (1 n)
  then show ?case
    by (subst dec.simps) (auto simp: hd_append dest: arg_cong [where f = "of_char :: char \<Rightarrow> nat"])
qed

lemma dec_digs: "list_all is_dig (dec n)"
  using dec_digits by (auto simp: list_all_iff is_dig_def)

lemma scan_int_dec: "scan_int (dec n) = Some (dec n, [])"
proof (cases "n = 0")
  case True
  have "dec 0 = ''0''" by code_simp
  with True show ?thesis by (simp add: scan_int_iff)
next
  case False
  then show ?thesis using dec_head dec_digs by (simp add: scan_int_iff no_digit_def)
qed

definition int_text :: "int \<Rightarrow> string" where
  "int_text x = (if x < 0 then ''-'' @ dec (nat (- x)) else dec (nat x))"

lemma dec_no_sign: "\<exists>c cs. dec n = c # cs \<and> is_dig c \<and> c \<noteq> CHR ''-''"
  using dec_digs [of n] by (cases "dec n") (auto simp: is_dig_def)

lemma int_text_ok: "num_ok (int_text x)"
proof -
  have "scan_frac [] = Some ([], [])" "scan_exp [] = Some ([], [])" by (simp_all add: scan_frac_def scan_exp_def)
  moreover have "scan_sign {CHR ''-''} (dec n) = ([], dec n)" for n using dec_no_sign [of n] by (auto simp: scan_sign_def)
  ultimately show ?thesis
    by (auto simp: num_ok_def scan_number_def int_text_def scan_int_dec) (simp add: scan_sign_def scan_int_dec)
qed

lemma int_literal_dec: "int_literal (dec n) = Some (int n)"
proof -
  obtain c cs where c: "dec n = c # cs" "c \<noteq> CHR ''-''" using dec_no_sign by blast
  then have "undec (c # cs) = n" "list_all is_dig (c # cs)" using undec_dec [of n] dec_digs [of n] by simp_all
  with c show ?thesis by (simp add: int_literal_def)
qed

lemma int_literal_text: "int_literal (int_text x) = Some x"
  using dec_digs int_literal_dec by (auto simp: int_text_def) (simp add: int_literal_def)

lemma int_json_text: "int_json x = JNum (int_text x)"
  by (simp add: int_json_def int_text_def)

section \<open>The nodes\<close>

text \<open>How \<^verbatim>\<open>scontrol\<close> writes a node with the fields that the daemon reads; absent fields are left out.\<close>

definition opt_member :: "string \<Rightarrow> ('a \<Rightarrow> json) \<Rightarrow> 'a option \<Rightarrow> (string \<times> json) list" where
  "opt_member k f x = (case x of None \<Rightarrow> [] | Some y \<Rightarrow> [(k, f y)])"

definition number_json :: "int option \<times> bool option \<Rightarrow> json" where
  "number_json p = JObj (opt_member ''set'' JBool (snd p) @ opt_member ''number'' int_json (fst p))"

definition slurm_node_members :: "slurm_node \<Rightarrow> (string \<times> json) list" where
  "slurm_node_members n =
     opt_member ''address'' JStr (sn_Address n) @ opt_member ''alloc_memory'' int_json (sn_AllocMemory n) @
     opt_member ''cpu_load'' int_json (sn_CpuLoad n) @ opt_member ''free_mem'' number_json (sn_FreeMem n) @
     opt_member ''hostname'' JStr (sn_Hostname n) @ opt_member ''name'' JStr (sn_Name n) @
     opt_member ''real_memory'' int_json (sn_RealMemory n) @ opt_member ''reason'' JStr (sn_Reason n) @
     opt_member ''state'' (\<lambda>ss. JArr (map JStr ss)) (sn_State n)"

definition nodes_document :: "slurm_node list \<Rightarrow> json" where
  "nodes_document ns = JObj [(''nodes'', JArr (map (\<lambda>n. JObj (slurm_node_members n)) ns)), (''errors'', JArr [])]"

definition opt_all :: "('a \<Rightarrow> bool) \<Rightarrow> 'a option \<Rightarrow> bool" where
  "opt_all P x \<longleftrightarrow> (case x of None \<Rightarrow> True | Some y \<Rightarrow> P y)"

text \<open>Texts are UTF-8 and numbers fit their fields.\<close>

definition slurm_node_ok :: "slurm_node \<Rightarrow> bool" where
  "slurm_node_ok n \<longleftrightarrow> opt_all valid_utf8 (sn_Address n) \<and> opt_all valid_utf8 (sn_Hostname n) \<and> opt_all valid_utf8 (sn_Name n) \<and>
     opt_all valid_utf8 (sn_Reason n) \<and> opt_all (list_all valid_utf8) (sn_State n) \<and> opt_all (fits 32) (sn_CpuLoad n) \<and>
     opt_all (fits 64) (sn_RealMemory n) \<and> opt_all (fits 64) (sn_AllocMemory n) \<and> opt_all (\<lambda>p. opt_all (fits 64) (fst p)) (sn_FreeMem n)"

lemma opt_all_simps [simp]: "opt_all P None" "opt_all P (Some x) \<longleftrightarrow> P x"
  by (simp_all add: opt_all_def)

lemma opt_member_simps [simp]: "opt_member k f None = []" "opt_member k f (Some x) = [(k, f x)]"
  by (simp_all add: opt_member_def)

lemma decode_int_text: "fits w x \<Longrightarrow> decode_int w (int_json x) old = (VInt x, True)"
  by (simp add: decode_int_def int_json_text int_literal_text)

lemma decode_number:
  assumes "opt_all (fits 64) (fst p)"
  shows "\<exists>x. decode_value V0043Uint64NoValStruct (number_json p) (zero_value V0043Uint64NoValStruct) = (x, True) \<and>
    map_option int_at (pointee (field ''number'' x)) = fst p \<and> map_option bool_at (pointee (field ''set'' x)) = snd p"
proof -
  let ?ts = "[(''infinite'', GPtr GBool), (''number'', GPtr (GInt 64)), (''set'', GPtr GBool)]"
  let ?ms = "opt_member ''set'' JBool (snd p) @ opt_member ''number'' int_json (fst p)"
  have i: "int_json k \<noteq> JNull" for k by (simp add: int_json_def)
  have "\<exists>x. decode_value (GStruct ?ts) (JObj ?ms) (zero_value (GStruct ?ts)) = (x, True) \<and>
    (\<forall>f t. map_of ?ts f = Some t \<longrightarrow>
       field f x = (case map_of ?ms f of None \<Rightarrow> zero_value t | Some v \<Rightarrow> fst (decode_value t v (zero_value t))))"
    by (rule decode_struct_ok; cases "fst p"; cases "snd p")
      (use assms i in \<open>auto simp: decode_pointer_def decode_boolean_def decode_int_text\<close>)
  then obtain x where x: "decode_value (GStruct ?ts) (JObj ?ms) (zero_value (GStruct ?ts)) = (x, True)"
    "\<And>f t. map_of ?ts f = Some t \<Longrightarrow>
       field f x = (case map_of ?ms f of None \<Rightarrow> zero_value t | Some v \<Rightarrow> fst (decode_value t v (zero_value t)))" by blast
  have "map_option int_at (pointee (field ''number'' x)) = fst p" "map_option bool_at (pointee (field ''set'' x)) = snd p"
    using x(2) [of "''number''" "GPtr (GInt 64)"] x(2) [of "''set''" "GPtr GBool"] assms i
    by (cases "fst p"; cases "snd p"; auto simp: decode_pointer_def decode_boolean_def decode_int_text pointee_def int_at_def bool_at_def)+
  with x(1) show ?thesis by (auto simp: V0043Uint64NoValStruct_def number_json_def)
qed

lemma number_json_neq: "number_json p \<noteq> JNull" "int_json k \<noteq> JNull"
  by (simp_all add: number_json_def int_json_def)

definition node_fields :: "(string \<times> gotype) list" where
  "node_fields = (case V0043Node of GStruct ts \<Rightarrow> ts | _ \<Rightarrow> [])"

lemma node_fields_simps:
  "V0043Node = GStruct node_fields"
  "map_of node_fields ''address'' = Some (GPtr GString)" "map_of node_fields ''hostname'' = Some (GPtr GString)"
  "map_of node_fields ''name'' = Some (GPtr GString)" "map_of node_fields ''reason'' = Some (GPtr GString)"
  "map_of node_fields ''cpu_load'' = Some (GPtr (GInt 32))" "map_of node_fields ''real_memory'' = Some (GPtr (GInt 64))"
  "map_of node_fields ''alloc_memory'' = Some (GPtr (GInt 64))" "map_of node_fields ''free_mem'' = Some (GPtr V0043Uint64NoValStruct)"
  "map_of node_fields ''state'' = Some (GPtr (GSlice V0043NodeState))"
  by (simp_all add: node_fields_def V0043Node_def)

lemma in_opt_member: "(j, v) \<in> set (opt_member k f x) \<longleftrightarrow> j = k \<and> (\<exists>y. x = Some y \<and> v = f y)"
  by (auto simp: opt_member_def split: option.splits)

lemma map_of_opt_member:
  "map_of (opt_member k f x @ ms) j = (if j = k \<and> x \<noteq> None then Some (f (the x)) else map_of ms j)"
  "map_of (opt_member k f x) j = (if j = k \<and> x \<noteq> None then Some (f (the x)) else None)"
  by (auto simp: opt_member_def split: option.splits)

lemma distinct_opt_member:
  "distinct (map fst (opt_member k f x @ ms)) \<longleftrightarrow> distinct (map fst ms) \<and> (x \<noteq> None \<longrightarrow> k \<notin> fst ` set ms)"
  "distinct (map fst (opt_member k f x))"
  by (auto simp: opt_member_def split: option.splits)

lemma fst_opt_member:
  "j \<in> fst ` set (opt_member k f x @ ms) \<longleftrightarrow> j = k \<and> x \<noteq> None \<or> j \<in> fst ` set ms"
  "j \<in> fst ` set (opt_member k f x) \<longleftrightarrow> j = k \<and> x \<noteq> None"
  by (auto simp: opt_member_def split: option.splits)

lemma members_distinct: "distinct (map fst (slurm_node_members n))"
  unfolding slurm_node_members_def by (simp only: distinct_opt_member fst_opt_member) simp

lemma some_the: "x \<noteq> None \<longrightarrow> Some (f (the x)) = map_option f x"
  by (cases x) simp_all

lemma map_of_members:
  "map_of (slurm_node_members n) ''address'' = map_option JStr (sn_Address n)"
  "map_of (slurm_node_members n) ''alloc_memory'' = map_option int_json (sn_AllocMemory n)"
  "map_of (slurm_node_members n) ''cpu_load'' = map_option int_json (sn_CpuLoad n)"
  "map_of (slurm_node_members n) ''free_mem'' = map_option number_json (sn_FreeMem n)"
  "map_of (slurm_node_members n) ''hostname'' = map_option JStr (sn_Hostname n)"
  "map_of (slurm_node_members n) ''name'' = map_option JStr (sn_Name n)"
  "map_of (slurm_node_members n) ''real_memory'' = map_option int_json (sn_RealMemory n)"
  "map_of (slurm_node_members n) ''reason'' = map_option JStr (sn_Reason n)"
  "map_of (slurm_node_members n) ''state'' = map_option (\<lambda>ss. JArr (map JStr ss)) (sn_State n)"
  unfolding slurm_node_members_def by (simp_all only: map_of_opt_member) (simp_all del: not_None_eq, (rule some_the)+)

lemma decode_states: "decode_value (GPtr (GSlice V0043NodeState)) (JArr (map JStr ss)) VNil = (VPtr (VSlice (map VStr ss)), True)"
  by (simp add: V0043NodeState_def decode_pointer_def decode_slice_def decode_elems_new decode_str_def comp_def)

lemma decode_node:
  assumes "slurm_node_ok n"
  shows "\<exists>x. decode_value V0043Node (JObj (slurm_node_members n)) (zero_value V0043Node) = (x, True) \<and> slurm_node_of x = n"
proof -
  note ok = assms [unfolded slurm_node_ok_def]
  have str: "decode_value (GPtr GString) (JStr s) VNil = (VPtr (VStr s), True)" for s
    by (simp add: decode_pointer_def decode_str_def)
  have int: "fits w i \<Longrightarrow> decode_value (GPtr (GInt w)) (int_json i) VNil = (VPtr (VInt i), True)" for w i
    by (simp add: decode_pointer_def decode_int_text number_json_neq)
  have num: "\<exists>y. decode_value (GPtr V0043Uint64NoValStruct) (number_json p) VNil = (VPtr y, True) \<and>
      map_option int_at (pointee (field ''number'' y)) = fst p \<and> map_option bool_at (pointee (field ''set'' y)) = snd p"
    if "opt_all (fits 64) (fst p)" for p
    using decode_number [OF that] by (auto simp: decode_pointer_def number_json_neq)
  have numS: "snd (decode_value (GPtr V0043Uint64NoValStruct) (number_json p) VNil)" if "opt_all (fits 64) (fst p)" for p
    using num [OF that] by auto
  have z: "zero_value (GPtr t) = VNil" for t by simp
  have "\<forall>(k, v) \<in> set (slurm_node_members n). \<exists>t. map_of node_fields k = Some t \<and> snd (decode_value t v (zero_value t))"
    using ok unfolding slurm_node_members_def
    by (auto simp: in_opt_member node_fields_simps str int numS z decode_states simp del: decode_value.simps)
  from decode_struct_ok [OF members_distinct this] obtain x
    where x: "decode_value V0043Node (JObj (slurm_node_members n)) (zero_value V0043Node) = (x, True)"
      "\<And>f t. map_of node_fields f = Some t \<Longrightarrow> field f x =
         (case map_of (slurm_node_members n) f of None \<Rightarrow> zero_value t | Some v \<Rightarrow> fst (decode_value t v (zero_value t)))"
    unfolding node_fields_simps by blast
  have strs: "map_option string_at (pointee (field ''address'' x)) = sn_Address n" "map_option string_at (pointee (field ''hostname'' x)) = sn_Hostname n"
    "map_option string_at (pointee (field ''name'' x)) = sn_Name n" "map_option string_at (pointee (field ''reason'' x)) = sn_Reason n"
    by (simp_all add: x(2) [OF node_fields_simps(2)] x(2) [OF node_fields_simps(3)] x(2) [OF node_fields_simps(4)] x(2) [OF node_fields_simps(5)]
        map_of_members str pointee_def string_at_def split: option.split del: decode_value.simps)
  have ints: "map_option int_at (pointee (field ''cpu_load'' x)) = sn_CpuLoad n"
    "map_option int_at (pointee (field ''real_memory'' x)) = sn_RealMemory n" "map_option int_at (pointee (field ''alloc_memory'' x)) = sn_AllocMemory n"
    using ok by (auto simp: x(2) [OF node_fields_simps(6)] x(2) [OF node_fields_simps(7)] x(2) [OF node_fields_simps(8)]
        map_of_members int pointee_def int_at_def split: option.split simp del: decode_value.simps)
  have free: "map_option (\<lambda>m. (map_option int_at (pointee (field ''number'' m)), map_option bool_at (pointee (field ''set'' m))))
      (pointee (field ''free_mem'' x)) = sn_FreeMem n"
  proof (cases "sn_FreeMem n")
    case None
    then show ?thesis by (simp add: x(2) [OF node_fields_simps(9)] map_of_members pointee_def del: decode_value.simps)
  next
    case (Some p)
    then have "opt_all (fits 64) (fst p)" using ok by simp
    from num [OF this] obtain y where y: "decode_value (GPtr V0043Uint64NoValStruct) (number_json p) VNil = (VPtr y, True)"
      "map_option int_at (pointee (field ''number'' y)) = fst p" "map_option bool_at (pointee (field ''set'' y)) = snd p" by blast
    have "field ''free_mem'' x = VPtr y"
      using Some by (simp add: x(2) [OF node_fields_simps(9)] map_of_members y(1) del: decode_value.simps)
    with Some y(2,3) show ?thesis by (simp add: pointee_def)
  qed
  have st: "map_option (\<lambda>s. map string_at (elems s)) (pointee (field ''state'' x)) = sn_State n"
    by (cases "sn_State n") (auto simp: x(2) [OF node_fields_simps(10)] map_of_members decode_states pointee_def elems_def string_at_def comp_def
        simp del: decode_value.simps)
  show ?thesis using x(1) strs ints free st by (intro exI [of _ x]) (simp add: slurm_node_of_def)
qed

text \<open>A written document is well formed and flat.\<close>

lemma list_all_opt_member: "list_all P (opt_member k f x) \<longleftrightarrow> opt_all (\<lambda>y. P (k, f y)) x"
  by (cases x) simp_all

lemma int_json_ok: "json_ok (int_json k)"
  by (simp add: int_json_text int_text_ok)

lemma ascii_names:
  "valid_utf8 ''address''" "valid_utf8 ''alloc_memory''" "valid_utf8 ''cpu_load''" "valid_utf8 ''free_mem''" "valid_utf8 ''hostname''"
  "valid_utf8 ''name''" "valid_utf8 ''real_memory''" "valid_utf8 ''reason''" "valid_utf8 ''state''" "valid_utf8 ''set''" "valid_utf8 ''number''"
  "valid_utf8 ''nodes''" "valid_utf8 ''errors''"
  by (rule ascii_valid; simp)+

lemma opt_all_True [simp]: "opt_all (\<lambda>y. True) x"
  by (cases x) simp_all

lemma number_json_ok: "json_ok (number_json p)"
  by (simp add: number_json_def list_all_opt_member int_json_ok ascii_names)

lemma node_members_ok: "slurm_node_ok n \<Longrightarrow> json_ok (JObj (slurm_node_members n))"
  by (simp add: slurm_node_ok_def slurm_node_members_def list_all_opt_member int_json_ok number_json_ok ascii_names list_all_iff [of json_ok])
    (auto simp: opt_all_def list_all_iff split: option.splits)

lemma document_ok: "list_all slurm_node_ok ns \<Longrightarrow> json_ok (nodes_document ns)"
proof -
  assume "list_all slurm_node_ok ns"
  then have "list_all json_ok (map (\<lambda>n. JObj (slurm_node_members n)) ns)"
    using node_members_ok unfolding list_all_iff by (auto simp del: json_ok.simps)
  then show ?thesis by (simp add: nodes_document_def ascii_names)
qed

lemma fold_max_le: "fold max xs a \<le> b \<longleftrightarrow> a \<le> b \<and> (\<forall>x \<in> set xs. x \<le> (b::nat))"
  by (induction xs arbitrary: a) auto

lemma number_depth: "jdepth (number_json p) \<le> 1"
  by (cases "fst p"; cases "snd p") (simp_all add: number_json_def int_json_def)

lemma strings_depth: "jdepth (JArr (map JStr ss)) \<le> 1"
proof -
  have "fold max (map jdepth (map JStr ss)) 0 \<le> 0" by (subst fold_max_le) auto
  then show ?thesis by simp
qed

lemma member_depth: "(k, v) \<in> set (slurm_node_members n) \<Longrightarrow> jdepth v \<le> 1"
  using number_depth strings_depth by (auto simp: slurm_node_members_def in_opt_member int_json_def fold_max_le simp del: jdepth.simps(1))

lemma document_depth: "jdepth (nodes_document ns) \<le> max_depth"
proof -
  have "jdepth (JObj (slurm_node_members n)) \<le> 2" for n using member_depth by (auto simp: fold_max_le)
  then have "jdepth (JArr (map (\<lambda>n. JObj (slurm_node_members n)) ns)) \<le> 3" by (auto simp: fold_max_le simp del: jdepth.simps(2))
  moreover have "jdepth (JArr []) \<le> 3" by simp
  ultimately have "jdepth (nodes_document ns) \<le> 4" by (auto simp: nodes_document_def fold_max_le simp del: jdepth.simps(1))
  then show ?thesis by (simp add: max_depth_def)
qed

lemma decode_nodes:
  assumes "list_all slurm_node_ok ns"
  shows "\<exists>xs. decode_value V0043Nodes (JArr (map (\<lambda>n. JObj (slurm_node_members n)) ns)) VNil = (VSlice xs, True) \<and> map slurm_node_of xs = ns"
proof -
  let ?d = "\<lambda>n. decode_value V0043Node (JObj (slurm_node_members n)) (zero_value V0043Node)"
  have d: "snd (?d n) \<and> slurm_node_of (fst (?d n)) = n" if "n \<in> set ns" for n
    using decode_node [of n] that assms by (auto simp: list_all_iff)
  then have "decode_elems (zero_value V0043Node) (decode_value V0043Node) (map (\<lambda>n. JObj (slurm_node_members n)) ns) [] =
      (map (\<lambda>n. fst (?d n)) ns, True)"
    by (subst decode_elems_new) (auto simp: comp_def)
  then show ?thesis using d by (auto simp: V0043Nodes_def decode_slice_def comp_def intro: map_idI)
qed

definition nodes_resp_fields :: "(string \<times> gotype) list" where
  "nodes_resp_fields = (case V0043OpenapiNodesResp of GStruct ts \<Rightarrow> ts | _ \<Rightarrow> [])"

lemma nodes_resp_simps:
  "V0043OpenapiNodesResp = GStruct nodes_resp_fields"
  "map_of nodes_resp_fields ''nodes'' = Some V0043Nodes" "map_of nodes_resp_fields ''errors'' = Some (GPtr V0043OpenapiErrors)"
  by (simp_all add: nodes_resp_fields_def V0043OpenapiNodesResp_def)

lemma decode_document:
  assumes "list_all slurm_node_ok ns"
  shows "\<exists>x. unmarshal_value V0043OpenapiNodesResp (json_text (nodes_document ns)) = Some x \<and> \<not> reported_errors x \<and>
    map slurm_node_of (elems (field ''nodes'' x)) = ns"
proof -
  let ?nodes = "JArr (map (\<lambda>n. JObj (slurm_node_members n)) ns)" and ?ms = "[(''nodes'', JArr (map (\<lambda>n. JObj (slurm_node_members n)) ns)), (''errors'', JArr [])]"
  obtain xs where xs: "decode_value V0043Nodes ?nodes VNil = (VSlice xs, True)" "map slurm_node_of xs = ns"
    using decode_nodes [OF assms] by blast
  have z: "zero_value V0043Nodes = VNil" by (simp add: V0043Nodes_def)
  have es: "decode_value (GPtr V0043OpenapiErrors) (JArr []) VNil = (VPtr (VSlice []), True)"
    by (simp add: V0043OpenapiErrors_def decode_pointer_def decode_slice_def)
  have "\<forall>(k, v) \<in> set ?ms. \<exists>t. map_of nodes_resp_fields k = Some t \<and> snd (decode_value t v (zero_value t))"
    using xs(1) es z by (simp add: nodes_resp_simps del: decode_value.simps)
  from decode_struct_ok [OF _ this] obtain x
    where x: "decode_value V0043OpenapiNodesResp (JObj ?ms) (zero_value V0043OpenapiNodesResp) = (x, True)"
      "\<And>f t. map_of nodes_resp_fields f = Some t \<Longrightarrow> field f x =
         (case map_of ?ms f of None \<Rightarrow> zero_value t | Some v \<Rightarrow> fst (decode_value t v (zero_value t)))"
    unfolding nodes_resp_simps by auto
  have "field ''nodes'' x = VSlice xs" "field ''errors'' x = VPtr (VSlice [])"
    using x(2) [OF nodes_resp_simps(2)] x(2) [OF nodes_resp_simps(3)] xs(1) es z by (simp_all del: decode_value.simps)
  moreover have "unmarshal_value V0043OpenapiNodesResp (json_text (nodes_document ns)) = Some x"
    using read_text_json_text [OF document_ok [OF assms]] document_depth [of ns] x(1)
    by (simp add: unmarshal_value_def nodes_document_def)
  ultimately show ?thesis using xs(2) by (auto simp: reported_errors_def pointee_def elems_def)
qed

lemma ListNodes_document:
  assumes "list_all slurm_node_ok ns"
    "exec ''scontrol'' [''show'', ''nodes'', ''--json''] = Some (json_text (nodes_document ns))"
  shows "ListNodes exec nows = Inr (map (\<lambda>(i, n). MapSlurmNode (nows i) n) (List.enumerate 0 ns))"
proof -
  obtain x where x: "unmarshal_value V0043OpenapiNodesResp (json_text (nodes_document ns)) = Some x" "\<not> reported_errors x"
    "map slurm_node_of (elems (field ''nodes'' x)) = ns"
    using decode_document [OF assms(1)] by blast
  have shape: "unmarshal_shape (json_text (nodes_document ns)) =
      Some [(''nodes'', JArr (map (\<lambda>n. JObj (slurm_node_members n)) ns)), (''errors'', JArr [])]"
    using read_text_json_text [OF document_ok [OF assms(1)]] document_depth [of ns] by (simp add: unmarshal_shape_def nodes_document_def)
  have "map (\<lambda>(i, n). MapSlurmNode (nows i) (slurm_node_of n)) (List.enumerate 0 (elems (field ''nodes'' x))) =
      map (\<lambda>(i, n). MapSlurmNode (nows i) n) (List.enumerate 0 ns)"
    unfolding x(3) [symmetric] by (simp add: enumerate_eq_zip zip_map2 comp_def case_prod_beta)
  then show ?thesis using assms(2) shape x(1,2)
    by (simp add: ListNodes_def shape_value_def is_array_def)
qed


definition sample_slurm_node :: slurm_node where
  "sample_slurm_node = \<lparr>sn_Address = None, sn_Hostname = Some ''h1'', sn_Name = Some ''n1'', sn_CpuLoad = Some (- 1), sn_RealMemory = Some 64000,
     sn_AllocMemory = None, sn_FreeMem = Some (Some 5, Some True), sn_Reason = None, sn_State = Some [''IDLE'', ''DRAIN'']\<rparr>"

lemma sample_slurm_node_ok: "list_all slurm_node_ok [sample_slurm_node]"
proof -
  have "valid_utf8 ''h1''" "valid_utf8 ''n1''" "valid_utf8 ''IDLE''" "valid_utf8 ''DRAIN''" by (rule ascii_valid; simp)+
  then show ?thesis by (simp add: sample_slurm_node_def slurm_node_ok_def fits_def)
qed


end
