(* ===== verification/Access_Contract.thy ===== *)
theory Access_Contract
  imports Access
begin

text \<open>
  What the resolver and the authorizer need of the interface \<^verbatim>\<open>SlurmUserLookup\<close>
  (\<^verbatim>\<open>internal/identity/capabilities.go\<close>): who is found has the name that was asked for, and has the
  level of an administrator only if an administrator.
\<close>

locale slurm_users =
  fixes lookup :: user_lookup_fn and administrator :: "string \<Rightarrow> bool"
  assumes found_name: "lookup name = Inr (Some u) \<Longrightarrow> su_Username u = name"
    and found_admin: "lookup name = Inr (Some u) \<Longrightarrow> normalizeAdminLevel (su_AdminLevel u) = Inr ''admin'' \<Longrightarrow> administrator name"
begin

text \<open>A found user is refused for the level only; the identity always agrees.\<close>

lemma Resolve_outcomes:
  assumes "Username requester \<noteq> []"
  shows "Resolve (Some lookup) requester \<noteq> Inl ErrIdentityUnavailable"
proof
  assume "Resolve (Some lookup) requester = Inl ErrIdentityUnavailable"
  then obtain u where "lookup (Username requester) = Inr (Some u)" "su_Username u = [] \<or> su_Username u \<noteq> Username requester"
    using assms by (auto simp: Resolve_def normalizeAdminLevel_def Let_def split: if_splits sum.splits option.splits)
  then show False using found_name assms by metis
qed

lemma capability_of_administrator:
  assumes "Resolve (Some lookup) requester = Inr ctx"
    "has_capability (Capabilities ctx) CapabilityNodeDrain \<or> has_capability (Capabilities ctx) CapabilityNodeResume"
  shows "administrator (Username requester)"
proof -
  obtain u where "lookup (Username requester) = Inr (Some u)" "normalizeAdminLevel (su_AdminLevel u) = Inr ''admin''"
    using assms by (auto simp: Resolve_def has_capability_def Let_def CapabilityNodeDrain_def CapabilityNodeResume_def
        split: if_splits sum.splits option.splits)
  then show ?thesis by (rule found_admin)
qed

lemma allowed_administrator:
  assumes "NewGlobalRegistry es H V = Inr registry"
    "Authorize (Some registry) (Some (Resolve (Some lookup))) requester opn = Inr decision" "Allowed decision"
  shows "administrator (Username requester)"
  using Authorize_allowed [OF assms] found_admin by blast

end

end
