(* ===== verification/Slurm_User_Props.thy ===== *)
theory Slurm_User_Props
  imports Slurm_Source_Props Access_Contract
begin

text \<open>
  The lookup of a Slurm user, against what \<^verbatim>\<open>sacctmgr\<close> may print, and what a user must have there to be
  given the capabilities on nodes.
\<close>

section \<open>Accounts and coordinators\<close>

definition account_names :: "goval list \<Rightarrow> string set" where
  "account_names as = {string_at x |x. \<exists>a \<in> set as. pointee (field ''account'' a) = Some x} - {[]}"

lemma account_names_simps:
  "account_names [] = {}"
  "account_names (a # as) =
     (case pointee (field ''account'' a) of None \<Rightarrow> account_names as
      | Some x \<Rightarrow> (if string_at x = [] then account_names as else insert (string_at x) (account_names as)))"
  by (auto simp: account_names_def split: option.splits)

lemma set_new_accounts: "set (new_accounts seen as) = account_names as - seen"
  by (induction as arbitrary: seen) (auto simp: account_names_simps split: option.splits)

lemma distinct_new_accounts: "distinct (new_accounts seen as)"
  by (induction as arbitrary: seen) (auto simp: set_new_accounts split: option.splits)

lemma finite_account_names: "finite (account_names as)"
  by (induction as) (simp_all add: account_names_simps split: option.splits)

lemma sort_new_accounts: "sort (new_accounts {} as) = sorted_list_of_set (account_names as)"
  by (rule sorted_distinct_set_unique)
    (simp_all add: distinct_new_accounts set_new_accounts finite_account_names)

lemma compact_from_sorted:
  "sorted (prev # vs) \<Longrightarrow> set (prev # compact_from prev vs) = set (prev # vs) \<and> sorted (prev # compact_from prev vs) \<and>
     distinct (prev # compact_from prev vs)"
proof (induction vs arbitrary: prev)
  case (Cons v vs)
  then have le: "prev \<le> v" and s: "sorted (v # vs)" "sorted (prev # vs)" by auto
  show ?case
  proof (cases "v = prev")
    case True
    then show ?thesis using Cons.IH [OF s(2)] by auto
  next
    case False
    then have "prev < v" using le by simp
    then show ?thesis using Cons.IH [OF s(1)] s(1) False by fastforce
  qed
qed simp

lemma compactStrings_sorted: "compactStrings (sort vs) = sorted_list_of_set (set vs)"
proof (cases "sort vs")
  case Nil
  then have "vs = []" by (metis set_empty set_sort)
  then show ?thesis by (simp add: compactStrings_def)
next
  case (Cons w ws)
  have "sorted (w # ws)" using Cons by (metis sorted_sort)
  from compact_from_sorted [OF this] have *: "set (w # compact_from w ws) = set vs" "sorted (w # compact_from w ws)"
      "distinct (w # compact_from w ws)" using Cons by (metis set_sort, blast, blast)
  have "compactStrings (sort vs) = w # compact_from w ws" using Cons by (cases ws) (simp_all add: compactStrings_def)
  then show ?thesis using * by (simp add: sorted_distinct_set_unique del: compact_from.simps)
qed

section \<open>What sacctmgr writes\<close>

text \<open>A user in the accounting database, as far as the daemon asks; absent fields are left out.\<close>

record account_user =
  au_Name :: string
  au_Levels :: "string list option"
  au_Accounts :: "string option list option"
  au_Coordinators :: "string list option"

definition association_json :: "string \<Rightarrow> string option \<Rightarrow> json" where
  "association_json user account = JObj (opt_member ''account'' JStr account @ [(''user'', JStr user)])"

definition coordinator_json :: "string \<Rightarrow> json" where
  "coordinator_json name = JObj [(''name'', JStr name)]"

definition account_user_members :: "account_user \<Rightarrow> (string \<times> json) list" where
  "account_user_members u =
     opt_member ''administrator_level'' (\<lambda>ls. JArr (map JStr ls)) (au_Levels u) @
     opt_member ''associations'' (\<lambda>as. JArr (map (association_json (au_Name u)) as)) (au_Accounts u) @
     opt_member ''coordinators'' (\<lambda>cs. JArr (map coordinator_json cs)) (au_Coordinators u) @
     [(''name'', JStr (au_Name u))]"

definition users_document :: "account_user list \<Rightarrow> json" where
  "users_document us = JObj [(''users'', JArr (map (\<lambda>u. JObj (account_user_members u)) us)), (''errors'', JArr [])]"

definition account_user_ok :: "account_user \<Rightarrow> bool" where
  "account_user_ok u \<longleftrightarrow> valid_utf8 (au_Name u) \<and> opt_all (list_all valid_utf8) (au_Levels u) \<and>
     opt_all (list_all (opt_all valid_utf8)) (au_Accounts u) \<and> opt_all (list_all valid_utf8) (au_Coordinators u)"

definition option_list :: "'a list option \<Rightarrow> 'a list" where
  "option_list x = (case x of None \<Rightarrow> [] | Some ys \<Rightarrow> ys)"

text \<open>The Slurm user that the daemon should see.\<close>

definition account_slurm_user :: "account_user \<Rightarrow> slurm_user" where
  "account_slurm_user u =
     \<lparr>su_Username = au_Name u,
      su_AdminLevel = concat (option_list (au_Levels u)),
      su_Accounts = sorted_list_of_set ({a. Some a \<in> set (option_list (au_Accounts u))} - {[]}),
      su_CoordinatorAccounts = sorted_list_of_set (set (option_list (au_Coordinators u)) - {[]})\<rparr>"

text \<open>The reference for the lookup: the only user of the answer, if its name is the requested one.\<close>

definition lookup_reference :: "account_user list \<Rightarrow> string \<Rightarrow> access_error + slurm_user option" where
  "lookup_reference us name =
     (case us of
        [] \<Rightarrow> Inr None
      | u # others \<Rightarrow>
        if others = [] \<and> au_Name u = name \<and> length (option_list (au_Levels u)) \<le> 1
        then Inr (Some (account_slurm_user u)) else Inl ErrSlurmUserLookup)"

section \<open>Decoding a user\<close>

lemma decode_list:
  assumes "\<And>y. y \<in> set ys \<Longrightarrow> \<exists>x. decode_value t (f y) (zero_value t) = (x, True) \<and> g x = h y"
  shows "\<exists>xs. decode_value (GSlice t) (JArr (map f ys)) VNil = (VSlice xs, True) \<and> map g xs = map h ys"
proof -
  let ?d = "\<lambda>y. decode_value t (f y) (zero_value t)"
  have d: "snd (?d y) \<and> g (fst (?d y)) = h y" if "y \<in> set ys" for y using assms [OF that] by auto
  then have "decode_elems (zero_value t) (decode_value t) (map f ys) [] = (map (\<lambda>y. fst (?d y)) ys, True)"
    by (subst decode_elems_new) (auto simp: comp_def)
  then show ?thesis using d by (auto simp: decode_slice_def)
qed

lemma decode_association:
  "\<exists>x. decode_value V0043AssocShort (association_json n a) (zero_value V0043AssocShort) = (x, True) \<and>
     map_option string_at (pointee (field ''account'' x)) = a"
proof -
  let ?ts = "[(''account'', GPtr GString), (''cluster'', GPtr GString), (''id'', GPtr (GInt 32)), (''partition'', GPtr GString), (''user'', GString)]"
  let ?ms = "opt_member ''account'' JStr a @ [(''user'', JStr n)]"
  have "\<exists>x. decode_value (GStruct ?ts) (JObj ?ms) (zero_value (GStruct ?ts)) = (x, True) \<and>
    (\<forall>f t. map_of ?ts f = Some t \<longrightarrow>
       field f x = (case map_of ?ms f of None \<Rightarrow> zero_value t | Some v \<Rightarrow> fst (decode_value t v (zero_value t))))"
    by (rule decode_struct_ok; cases a) (auto simp: decode_pointer_def decode_str_def)
  then obtain x where x: "decode_value (GStruct ?ts) (JObj ?ms) (zero_value (GStruct ?ts)) = (x, True)"
    "\<And>f t. map_of ?ts f = Some t \<Longrightarrow>
       field f x = (case map_of ?ms f of None \<Rightarrow> zero_value t | Some v \<Rightarrow> fst (decode_value t v (zero_value t)))" by blast
  have "map_option string_at (pointee (field ''account'' x)) = a"
    using x(2) [of "''account''" "GPtr GString"] by (cases a; auto simp: decode_pointer_def decode_str_def pointee_def string_at_def)
  with x(1) show ?thesis by (auto simp: V0043AssocShort_def association_json_def)
qed

lemma decode_coordinator:
  "\<exists>x. decode_value V0043Coord (coordinator_json c) (zero_value V0043Coord) = (x, True) \<and> string_at (field ''name'' x) = c"
proof -
  let ?ts = "[(''direct'', GPtr GBool), (''name'', GString)]" and ?ms = "[(''name'', JStr c)]"
  have "\<exists>x. decode_value (GStruct ?ts) (JObj ?ms) (zero_value (GStruct ?ts)) = (x, True) \<and>
    (\<forall>f t. map_of ?ts f = Some t \<longrightarrow>
       field f x = (case map_of ?ms f of None \<Rightarrow> zero_value t | Some v \<Rightarrow> fst (decode_value t v (zero_value t))))"
    by (rule decode_struct_ok) (auto simp: decode_str_def)
  then obtain x where x: "decode_value (GStruct ?ts) (JObj ?ms) (zero_value (GStruct ?ts)) = (x, True)"
    "\<And>f t. map_of ?ts f = Some t \<Longrightarrow>
       field f x = (case map_of ?ms f of None \<Rightarrow> zero_value t | Some v \<Rightarrow> fst (decode_value t v (zero_value t)))" by blast
  have "string_at (field ''name'' x) = c"
    using x(2) [of "''name''" GString] by (auto simp: decode_str_def string_at_def)
  with x(1) show ?thesis by (auto simp: V0043Coord_def coordinator_json_def)
qed

lemma decode_associations:
  "\<exists>xs. decode_value (GPtr V0043AssocShortList) (JArr (map (association_json n) as)) VNil = (VPtr (VSlice xs), True) \<and>
     map (\<lambda>x. map_option string_at (pointee (field ''account'' x))) xs = as"
  using decode_list [of as V0043AssocShort "association_json n" "\<lambda>x. map_option string_at (pointee (field ''account'' x))" "\<lambda>a. a"]
    decode_association by (auto simp: decode_pointer_def V0043AssocShortList_def)

lemma decode_coordinators:
  "\<exists>xs. decode_value (GPtr V0043CoordList) (JArr (map coordinator_json cs)) VNil = (VPtr (VSlice xs), True) \<and>
     map (\<lambda>x. string_at (field ''name'' x)) xs = cs"
  using decode_list [of cs V0043Coord coordinator_json "\<lambda>x. string_at (field ''name'' x)" "\<lambda>a. a"]
    decode_coordinator by (auto simp: decode_pointer_def V0043CoordList_def)

lemma decode_levels:
  "decode_value (GPtr (GSlice V0043UserAdministratorLevel)) (JArr (map JStr ss)) VNil = (VPtr (VSlice (map VStr ss)), True)"
  by (simp add: V0043UserAdministratorLevel_def decode_pointer_def decode_slice_def decode_elems_new decode_str_def comp_def)

definition user_fields :: "(string \<times> gotype) list" where
  "user_fields = (case V0043User of GStruct ts \<Rightarrow> ts | _ \<Rightarrow> [])"

lemma user_fields_simps:
  "V0043User = GStruct user_fields"
  "map_of user_fields ''administrator_level'' = Some (GPtr (GSlice V0043UserAdministratorLevel))"
  "map_of user_fields ''associations'' = Some (GPtr V0043AssocShortList)"
  "map_of user_fields ''coordinators'' = Some (GPtr V0043CoordList)" "map_of user_fields ''name'' = Some GString"
  by (simp_all add: user_fields_def V0043User_def)

lemma user_members_distinct: "distinct (map fst (account_user_members u))"
  unfolding account_user_members_def by (simp only: distinct_opt_member fst_opt_member) simp

lemma map_of_user_members:
  "map_of (account_user_members u) ''administrator_level'' = map_option (\<lambda>ls. JArr (map JStr ls)) (au_Levels u)"
  "map_of (account_user_members u) ''associations'' = map_option (\<lambda>as. JArr (map (association_json (au_Name u)) as)) (au_Accounts u)"
  "map_of (account_user_members u) ''coordinators'' = map_option (\<lambda>cs. JArr (map coordinator_json cs)) (au_Coordinators u)"
  "map_of (account_user_members u) ''name'' = Some (JStr (au_Name u))"
  unfolding account_user_members_def by (simp_all only: map_of_opt_member) (simp_all del: not_None_eq, (rule some_the)+)

text \<open>The parts of a decoded user that the lookup reads.\<close>

definition decoded_user :: "goval \<Rightarrow> account_user \<Rightarrow> bool" where
  "decoded_user x u \<longleftrightarrow> string_at (field ''name'' x) = au_Name u \<and>
     map string_at (pointed_elems (field ''administrator_level'' x)) = option_list (au_Levels u) \<and>
     map (\<lambda>a. map_option string_at (pointee (field ''account'' a))) (pointed_elems (field ''associations'' x)) = option_list (au_Accounts u) \<and>
     map (\<lambda>c. string_at (field ''name'' c)) (pointed_elems (field ''coordinators'' x)) = option_list (au_Coordinators u)"

lemma decode_user:
  "\<exists>x. decode_value V0043User (JObj (account_user_members u)) (zero_value V0043User) = (x, True) \<and> decoded_user x u"
proof -
  have z: "zero_value (GPtr t) = VNil" for t by simp
  have str: "decode_value GString (JStr s) (VStr []) = (VStr s, True)" for s by (simp add: decode_str_def)
  have ok: "snd (decode_value (GPtr V0043AssocShortList) (JArr (map (association_json n) as)) VNil)"
    "snd (decode_value (GPtr V0043CoordList) (JArr (map coordinator_json cs)) VNil)" for n as cs
    using decode_associations [of n as] decode_coordinators [of cs] by auto
  have "\<forall>(k, v) \<in> set (account_user_members u). \<exists>t. map_of user_fields k = Some t \<and> snd (decode_value t v (zero_value t))"
    unfolding account_user_members_def
    by (auto simp: in_opt_member user_fields_simps str ok z decode_levels simp del: decode_value.simps)
  from decode_struct_ok [OF user_members_distinct this] obtain x
    where x: "decode_value V0043User (JObj (account_user_members u)) (zero_value V0043User) = (x, True)"
      "\<And>f t. map_of user_fields f = Some t \<Longrightarrow> field f x =
         (case map_of (account_user_members u) f of None \<Rightarrow> zero_value t | Some v \<Rightarrow> fst (decode_value t v (zero_value t)))"
    unfolding user_fields_simps by blast
  note fields = x(2) [OF user_fields_simps(2)] x(2) [OF user_fields_simps(3)] x(2) [OF user_fields_simps(4)] x(2) [OF user_fields_simps(5)]
  note read = pointed_elems_def pointee_def elems_def string_at_def option_list_def
  have "string_at (field ''name'' x) = au_Name u"
    by (simp add: fields map_of_user_members str read del: decode_value.simps)
  moreover have "map string_at (pointed_elems (field ''administrator_level'' x)) = option_list (au_Levels u)"
    by (cases "au_Levels u") (simp_all add: fields map_of_user_members decode_levels z read comp_def del: decode_value.simps)
  moreover have "map (\<lambda>a. map_option string_at (pointee (field ''account'' a))) (pointed_elems (field ''associations'' x)) = option_list (au_Accounts u)"
  proof (cases "au_Accounts u")
    case (Some as)
    obtain xs where "decode_value (GPtr V0043AssocShortList) (JArr (map (association_json (au_Name u)) as)) VNil = (VPtr (VSlice xs), True)"
      "map (\<lambda>x. map_option string_at (pointee (field ''account'' x))) xs = as" using decode_associations [of "au_Name u" as] by blast
    with Some show ?thesis
      by (simp add: fields map_of_user_members z pointed_elems_def pointee_def elems_def option_list_def del: decode_value.simps)
  qed (simp add: fields map_of_user_members z read del: decode_value.simps)
  moreover have "map (\<lambda>c. string_at (field ''name'' c)) (pointed_elems (field ''coordinators'' x)) = option_list (au_Coordinators u)"
  proof (cases "au_Coordinators u")
    case (Some cs)
    obtain xs where "decode_value (GPtr V0043CoordList) (JArr (map coordinator_json cs)) VNil = (VPtr (VSlice xs), True)"
      "map (\<lambda>x. string_at (field ''name'' x)) xs = cs" using decode_coordinators [of cs] by blast
    with Some show ?thesis
      by (simp add: fields map_of_user_members z pointed_elems_def pointee_def elems_def option_list_def del: decode_value.simps)
  qed (simp add: fields map_of_user_members z read del: decode_value.simps)
  ultimately show ?thesis using x(1) by (auto simp: decoded_user_def)
qed

section \<open>The lookup\<close>

definition users_resp_fields :: "(string \<times> gotype) list" where
  "users_resp_fields = (case V0043OpenapiUsersResp of GStruct ts \<Rightarrow> ts | _ \<Rightarrow> [])"

lemma users_resp_simps:
  "V0043OpenapiUsersResp = GStruct users_resp_fields"
  "map_of users_resp_fields ''users'' = Some (GSlice V0043User)" "map_of users_resp_fields ''errors'' = Some (GPtr V0043OpenapiErrors)"
  by (simp_all add: users_resp_fields_def V0043OpenapiUsersResp_def V0043UserList_def)

lemma ascii_user_names:
  "valid_utf8 ''account''" "valid_utf8 ''user''" "valid_utf8 ''name''" "valid_utf8 ''administrator_level''" "valid_utf8 ''associations''"
  "valid_utf8 ''coordinators''" "valid_utf8 ''users''" "valid_utf8 ''errors''"
  by (rule ascii_valid; simp)+

lemma user_member_ok:
  assumes "account_user_ok u"
  shows "json_ok (JObj (account_user_members u))"
proof -
  have "json_ok (association_json (au_Name u) a)" if "opt_all valid_utf8 a" for a
    using that assms by (cases a) (simp_all add: association_json_def account_user_ok_def ascii_user_names)
  moreover have "json_ok (coordinator_json c)" if "valid_utf8 c" for c
    using that by (simp add: coordinator_json_def ascii_user_names)
  ultimately show ?thesis using assms
    by (auto simp: account_user_ok_def account_user_members_def list_all_opt_member ascii_user_names list_all_iff opt_all_def split: option.splits)
qed

lemma array_depth: "(\<And>y. y \<in> set ys \<Longrightarrow> jdepth (f y) \<le> n) \<Longrightarrow> jdepth (JArr (map f ys)) \<le> Suc n"
  by (auto simp: fold_max_le)

lemma object_depth: "(\<And>k v. (k, v) \<in> set ms \<Longrightarrow> jdepth v \<le> n) \<Longrightarrow> jdepth (JObj ms) \<le> Suc n"
  by (auto simp: fold_max_le)

lemma user_member_depth: "jdepth (JObj (account_user_members u)) \<le> 3"
proof -
  have "jdepth (association_json n a) \<le> 1" for n a
    unfolding association_json_def by (cases a) simp_all
  then have as: "jdepth (JArr (map (association_json n) as)) \<le> 2" for n as by (metis array_depth Suc_1)
  have "jdepth (coordinator_json c) \<le> 1" for c by (simp add: coordinator_json_def)
  then have cs: "jdepth (JArr (map coordinator_json cs)) \<le> 2" for cs by (metis array_depth Suc_1)
  have "jdepth (JObj (account_user_members u)) \<le> Suc 2"
    using as cs strings_depth le_trans [OF strings_depth, of 2]
    by (intro object_depth) (auto simp: account_user_members_def in_opt_member simp del: jdepth.simps(1))
  then show ?thesis by simp
qed

lemma users_document_ok: "list_all account_user_ok us \<Longrightarrow> json_ok (users_document us)"
proof -
  assume "list_all account_user_ok us"
  then have "list_all json_ok (map (\<lambda>u. JObj (account_user_members u)) us)"
    using user_member_ok unfolding list_all_iff by (auto simp del: json_ok.simps)
  then show ?thesis by (simp add: users_document_def ascii_user_names)
qed

lemma users_document_depth: "jdepth (users_document us) \<le> max_depth"
proof -
  have "jdepth (JArr (map (\<lambda>u. JObj (account_user_members u)) us)) \<le> Suc 3" by (rule array_depth) (rule user_member_depth)
  moreover have "jdepth (JArr []) \<le> Suc 3" by simp
  ultimately have "jdepth (users_document us) \<le> Suc (Suc 3)"
    unfolding users_document_def by (intro object_depth) (auto simp del: jdepth.simps)
  then show ?thesis by (simp add: max_depth_def)
qed

lemma decode_users:
  "\<exists>xs. decode_value (GSlice V0043User) (JArr (map (\<lambda>u. JObj (account_user_members u)) us)) VNil = (VSlice xs, True) \<and>
     list_all2 decoded_user xs us"
proof -
  let ?d = "\<lambda>u. decode_value V0043User (JObj (account_user_members u)) (zero_value V0043User)"
  have d: "snd (?d u) \<and> decoded_user (fst (?d u)) u" for u using decode_user [of u] by auto
  then have "decode_elems (zero_value V0043User) (decode_value V0043User) (map (\<lambda>u. JObj (account_user_members u)) us) [] =
      (map (\<lambda>u. fst (?d u)) us, True)"
    by (subst decode_elems_new) (auto simp: comp_def)
  then show ?thesis using d by (auto simp: decode_slice_def list_all2_conv_all_nth)
qed

lemma decode_users_document:
  assumes "list_all account_user_ok us"
  shows "\<exists>x. unmarshal_value V0043OpenapiUsersResp (json_text (users_document us)) = Some x \<and> \<not> reported_errors x \<and>
    list_all2 decoded_user (elems (field ''users'' x)) us"
proof -
  let ?users = "JArr (map (\<lambda>u. JObj (account_user_members u)) us)" and ?ms = "[(''users'', JArr (map (\<lambda>u. JObj (account_user_members u)) us)), (''errors'', JArr [])]"
  obtain xs where xs: "decode_value (GSlice V0043User) ?users VNil = (VSlice xs, True)" "list_all2 decoded_user xs us"
    using decode_users by blast
  have es: "decode_value (GPtr V0043OpenapiErrors) (JArr []) VNil = (VPtr (VSlice []), True)"
    by (simp add: V0043OpenapiErrors_def decode_pointer_def decode_slice_def)
  have "\<forall>(k, v) \<in> set ?ms. \<exists>t. map_of users_resp_fields k = Some t \<and> snd (decode_value t v (zero_value t))"
    using xs(1) es by (simp add: users_resp_simps del: decode_value.simps)
  from decode_struct_ok [OF _ this] obtain x
    where x: "decode_value V0043OpenapiUsersResp (JObj ?ms) (zero_value V0043OpenapiUsersResp) = (x, True)"
      "\<And>f t. map_of users_resp_fields f = Some t \<Longrightarrow> field f x =
         (case map_of ?ms f of None \<Rightarrow> zero_value t | Some v \<Rightarrow> fst (decode_value t v (zero_value t)))"
    unfolding users_resp_simps by auto
  have "field ''users'' x = VSlice xs" "field ''errors'' x = VPtr (VSlice [])"
    using x(2) [OF users_resp_simps(2)] x(2) [OF users_resp_simps(3)] xs(1) es by (simp_all del: decode_value.simps)
  moreover have "unmarshal_value V0043OpenapiUsersResp (json_text (users_document us)) = Some x"
    using read_text_json_text [OF users_document_ok [OF assms]] users_document_depth [of us] x(1)
    by (simp add: unmarshal_value_def users_document_def)
  ultimately show ?thesis using xs(2) by (auto simp: reported_errors_def pointee_def elems_def)
qed

lemma account_names_some:
  "account_names as = {a. Some a \<in> set (map (\<lambda>a. map_option string_at (pointee (field ''account'' a))) as)} - {[]}"
  by (fastforce simp: account_names_def image_iff map_option_case split: option.splits)

text \<open>Parsing such a document is the reference lookup.\<close>

lemma parse_users_document:
  assumes "list_all account_user_ok us"
  shows "parseSacctmgrUser (json_text (users_document us)) name = lookup_reference us name"
proof -
  obtain x where x: "unmarshal_value V0043OpenapiUsersResp (json_text (users_document us)) = Some x" "\<not> reported_errors x"
    "list_all2 decoded_user (elems (field ''users'' x)) us"
    using decode_users_document [OF assms] by blast
  have shape: "unmarshal_shape (json_text (users_document us)) =
      Some [(''users'', JArr (map (\<lambda>u. JObj (account_user_members u)) us)), (''errors'', JArr [])]"
    using read_text_json_text [OF users_document_ok [OF assms]] users_document_depth [of us] by (simp add: unmarshal_shape_def users_document_def)
  have level: "(if length ls = 1 then hd ls else []) = concat ls" if "length ls \<le> 1" for ls :: "string list"
    using that by (cases ls) auto
  show ?thesis
  proof (cases "elems (field ''users'' x)")
    case Nil
    then show ?thesis using x shape by (simp add: parseSacctmgrUser_def shape_value_def is_array_def lookup_reference_def)
  next
    case (Cons y ys)
    then obtain u us' where us: "us = u # us'" "decoded_user y u" "ys = [] \<longleftrightarrow> us' = []"
      using x(3) by (auto simp: list_all2_Cons1)
    note d = us(2) [unfolded decoded_user_def]
    have acc: "sort (new_accounts {} (pointed_elems (field ''associations'' y))) = su_Accounts (account_slurm_user u)"
      using d by (simp add: sort_new_accounts account_names_some account_slurm_user_def del: set_map)
    have "map (\<lambda>c. string_at (field ''name'' c)) (pointed_elems (field ''coordinators'' y)) = option_list (au_Coordinators u)"
      using d by blast
    then have coord: "compactStrings (sort (filter (\<lambda>n. n \<noteq> []) (map (\<lambda>c. string_at (field ''name'' c)) (pointed_elems (field ''coordinators'' y))))) =
        su_CoordinatorAccounts (account_slurm_user u)"
      unfolding compactStrings_sorted by (simp add: account_slurm_user_def set_diff_eq)
    show ?thesis
      unfolding parseSacctmgrUser_def using d us(1,3) x(1,2) shape Cons acc coord level [of "option_list (au_Levels u)"]
      by (simp add: shape_value_def is_array_def lookup_reference_def Let_def) (auto simp: account_slurm_user_def)
  qed
qed

text \<open>
  C21: The lookup of a user is the reference lookup on what the accounting database holds. If
  \<^verbatim>\<open>sacctmgr\<close> prints the document of some users, all in UTF-8, then a valid user name is answered
  by the only user printed if it has that name and at most one administrator level, with its accounts
  and the accounts it coordinates sorted and each once; no user is answered by nothing, and anything
  else is an error.\<close>

theorem LookupUser_reference:
  assumes "list_all account_user_ok us" "validSlurmUsername name"
    "run sacctmgrPath (sacctmgr_args name) = Some (json_text (users_document us))"
  shows "LookupUser (Some run) name = lookup_reference us name"
  using assms by (simp add: LookupUser_def parse_users_document)

definition sample_account_user :: account_user where
  "sample_account_user = \<lparr>au_Name = ''bob'', au_Levels = Some [''admin''],
     au_Accounts = Some [Some ''phys'', None, Some ''chem'', Some ''phys''], au_Coordinators = Some [''phys'', [], ''phys'']\<rparr>"

lemma sample_account_user_ok: "list_all account_user_ok [sample_account_user]" "validSlurmUsername ''bob''"
proof -
  have "valid_utf8 ''bob''" "valid_utf8 ''admin''" "valid_utf8 ''phys''" "valid_utf8 ''chem''" "valid_utf8 []"
    by (rule ascii_valid; simp)+
  then show "list_all account_user_ok [sample_account_user]"
    by (simp add: sample_account_user_def account_user_ok_def)
  show "validSlurmUsername ''bob''" by code_simp
qed

lemma sample_lookup: "lookup_reference [sample_account_user] ''bob'' =
  Inr (Some \<lparr>su_Username = ''bob'', su_AdminLevel = ''admin'', su_Accounts = [''chem'', ''phys''], su_CoordinatorAccounts = [''phys'']\<rparr>)"
proof -
  have "{a. Some a \<in> set [Some ''phys'', None, Some ''chem'', Some ''phys'']} - {[]} = {''chem'', ''phys''}" by auto
  moreover have "set [''phys'', [], ''phys''] - {[]} = {''phys''}" by auto
  moreover have "sorted_list_of_set {''chem'', ''phys''} = [''chem'', ''phys'']" by simp
  ultimately show ?thesis by (simp add: lookup_reference_def sample_account_user_def account_slurm_user_def option_list_def)
qed

theorem LookupUser_reference_witness:
  "LookupUser (Some (\<lambda>_ _. Some (json_text (users_document [sample_account_user])))) ''bob'' =
     Inr (Some \<lparr>su_Username = ''bob'', su_AdminLevel = ''admin'', su_Accounts = [''chem'', ''phys''], su_CoordinatorAccounts = [''phys'']\<rparr>)"
  using LookupUser_reference [OF sample_account_user_ok, of "\<lambda>_ _. Some (json_text (users_document [sample_account_user]))"] sample_lookup
  by simp

text \<open>Whoever is found is in the answer of \<^verbatim>\<open>sacctmgr\<close> to the question for this very name, alone.\<close>

lemma LookupUser_found:
  assumes "LookupUser exec name = Inr (Some u)"
  obtains run out response user where "exec = Some run" "validSlurmUsername name"
    "run sacctmgrPath (sacctmgr_args name) = Some out" "unmarshal_value V0043OpenapiUsersResp out = Some response"
    "\<not> reported_errors response" "elems (field ''users'' response) = [user]" "string_at (field ''name'' user) = name"
    "su_Username u = name"
    "su_AdminLevel u = [] \<or> map string_at (pointed_elems (field ''administrator_level'' user)) = [su_AdminLevel u]"
proof -
  obtain run out where run: "exec = Some run" "validSlurmUsername name" "run sacctmgrPath (sacctmgr_args name) = Some out"
    "parseSacctmgrUser out name = Inr (Some u)"
    using assms by (auto simp: LookupUser_def split: if_splits option.splits)
  then obtain response user where resp: "unmarshal_value V0043OpenapiUsersResp out = Some response"
    "\<not> reported_errors response" "elems (field ''users'' response) = [user]" "string_at (field ''name'' user) = name"
    and u: "\<not> length (map string_at (pointed_elems (field ''administrator_level'' user))) > 1" "su_Username u = name"
    "su_AdminLevel u = (let ls = map string_at (pointed_elems (field ''administrator_level'' user)) in if length ls = 1 then hd ls else [])"
    by (auto simp: parseSacctmgrUser_def Let_def split: if_splits option.splits list.splits)
  have "su_AdminLevel u = [] \<or> map string_at (pointed_elems (field ''administrator_level'' user)) = [su_AdminLevel u]"
    using u(1,3) by (cases "map string_at (pointed_elems (field ''administrator_level'' user))") (simp_all add: Let_def split: if_splits)
  then show ?thesis by (rule that [OF run(1-3) resp u(2)])
qed

text \<open>
  The account of \<open>name\<close> in the accounting database says administrator: \<^verbatim>\<open>sacctmgr\<close> was asked for exactly
  this name and answered, without errors, with exactly one user of this name and one level.\<close>

definition slurm_administrator :: "exec_fn option \<Rightarrow> string \<Rightarrow> bool" where
  "slurm_administrator exec name \<longleftrightarrow> validSlurmUsername name \<and>
     (\<exists>run out response user level. exec = Some run \<and> run sacctmgrPath (sacctmgr_args name) = Some out \<and>
        unmarshal_value V0043OpenapiUsersResp out = Some response \<and> \<not> reported_errors response \<and>
        elems (field ''users'' response) = [user] \<and> string_at (field ''name'' user) = name \<and>
        map string_at (pointed_elems (field ''administrator_level'' user)) = [level] \<and>
        ToLower (TrimSpace level) \<in> {''admin'', ''administrator''})"

lemma found_administrator:
  assumes "LookupUser exec name = Inr (Some u)" "normalizeAdminLevel (su_AdminLevel u) = Inr ''admin''"
  shows "slurm_administrator exec name"
proof -
  have "normalizeAdminLevel [] \<noteq> Inr ''admin''" by code_simp
  with assms(2) have "su_AdminLevel u \<noteq> []" by metis
  moreover have "ToLower (TrimSpace (su_AdminLevel u)) \<in> {''admin'', ''administrator''}"
    using assms(2) by (auto simp: normalizeAdminLevel_def Let_def split: if_splits)
  ultimately show ?thesis unfolding slurm_administrator_def using LookupUser_found [OF assms(1)] by metis
qed

interpretation sacctmgr: slurm_users "LookupUser exec" "slurm_administrator exec"
  by unfold_locales (auto elim: LookupUser_found intro: found_administrator)

text \<open>
  C6: Only an administrator of the accounting database may act on nodes. If the capabilities of a
  requester include draining or resuming nodes, or the authorizer allows the requester any operation of
  any registry, then the requester's name is a valid Slurm user name, \<^verbatim>\<open>sacctmgr\<close> was asked for exactly
  this name and answered, without errors, with exactly one user of this name, whose one administrator
  level reads \<^verbatim>\<open>admin\<close> or \<^verbatim>\<open>administrator\<close>.\<close>

theorem node_capability_needs_administrator:
  assumes "(\<exists>ctx. Resolve (Some (LookupUser exec)) requester = Inr ctx \<and>
      (has_capability (Capabilities ctx) CapabilityNodeDrain \<or> has_capability (Capabilities ctx) CapabilityNodeResume)) \<or>
    (\<exists>es H V registry opn d. NewGlobalRegistry es H V = Inr registry \<and>
      Authorize (Some registry) (Some (Resolve (Some (LookupUser exec)))) requester opn = Inr d \<and> Allowed d)"
  shows "validSlurmUsername (Username requester) \<and>
    (\<exists>run out response user level. exec = Some run \<and>
       run sacctmgrPath (sacctmgr_args (Username requester)) = Some out \<and>
       unmarshal_value V0043OpenapiUsersResp out = Some response \<and> \<not> reported_errors response \<and>
       elems (field ''users'' response) = [user] \<and> string_at (field ''name'' user) = Username requester \<and>
       map string_at (pointed_elems (field ''administrator_level'' user)) = [level] \<and>
       ToLower (TrimSpace level) \<in> {''admin'', ''administrator''})"
proof -
  have "slurm_administrator exec (Username requester)"
    using assms sacctmgr.capability_of_administrator sacctmgr.allowed_administrator by blast
  then show ?thesis unfolding slurm_administrator_def .
qed

definition sample_requester :: user_context where
  "sample_requester = \<lparr>UID = 1000, GID = 1000, Username = ''bob'', AdminLevel = [], Accounts = [], CoordinatorAccounts = [], Capabilities = []\<rparr>"

definition sample_sacctmgr :: "exec_fn option" where
  "sample_sacctmgr = Some (\<lambda>_ _. Some (json_text (users_document [sample_account_user])))"

theorem node_capability_needs_administrator_witness:
  "\<exists>ctx. Resolve (Some (LookupUser sample_sacctmgr)) sample_requester = Inr ctx \<and>
     has_capability (Capabilities ctx) CapabilityNodeDrain \<and>
     (\<exists>run out. sample_sacctmgr = Some run \<and> run sacctmgrPath (sacctmgr_args ''bob'') = Some out)"
proof -
  have "LookupUser sample_sacctmgr ''bob'' = Inr (Some \<lparr>su_Username = ''bob'', su_AdminLevel = ''admin'',
      su_Accounts = [''chem'', ''phys''], su_CoordinatorAccounts = [''phys'']\<rparr>)"
    using sample_account_user_ok(2) sample_lookup
    by (simp add: LookupUser_def sample_sacctmgr_def parse_users_document [OF sample_account_user_ok(1)])
  moreover have "TrimSpace ''admin'' = ''admin''" "ToLower ''admin'' = ''admin''"
    using TrimSpace_id [of "CHR ''a''" "CHR ''n''" "''dmi''"] ToLower_id [of "''admin''"] by (simp_all add: IsSpace_def is_upper_def)
  then have "normalizeAdminLevel ''admin'' = Inr ''admin''" by (simp add: normalizeAdminLevel_def)
  ultimately obtain ctx where ctx: "Resolve (Some (LookupUser sample_sacctmgr)) sample_requester = Inr ctx"
    "has_capability (Capabilities ctx) CapabilityNodeDrain"
    by (simp add: Resolve_def sample_requester_def has_capability_def)
  have "\<exists>run out. sample_sacctmgr = Some run \<and> run sacctmgrPath (sacctmgr_args (Username sample_requester)) = Some out"
    using node_capability_needs_administrator [of sample_sacctmgr sample_requester] ctx by blast
  moreover have "Username sample_requester = ''bob''" by (simp add: sample_requester_def)
  ultimately show ?thesis using ctx by metis
qed

end
