(* ===== verification/Nodehelper_Props.thy ===== *)
theory Nodehelper_Props
  imports Nodehelper
begin

text \<open>
  What the privileged helper runs: nothing, or one \<^verbatim>\<open>scontrol update\<close> of one node with plain arguments.
\<close>

lemma high_segment:
  "\<not> byte_of c < 128 \<Longrightarrow> x \<in> set (take (snd (decode_rune (c # cs))) (c # cs)) \<Longrightarrow> 128 \<le> byte_of x"
  by (auto simp: decode_rune_def decode2_def decode3_def decode4_def accept3_def accept4_def cont_byte_def
      split: if_splits list.splits)

text \<open>An ASCII byte of a string is a rune of it.\<close>

lemma ascii_rune: "x \<in> set s \<Longrightarrow> byte_of x < 128 \<Longrightarrow> byte_of x \<in> set (runes s)"
proof (induction s rule: length_induct)
  case (1 s)
  show ?case
  proof (cases s)
    case (Cons c cs)
    let ?n = "snd (decode_rune (c # cs))"
    have runes: "runes s = fst (decode_rune s) # runes (drop ?n s)" by (simp add: Cons runes_def rune_segments_Cons)
    consider "x \<in> set (take ?n s)" | "x \<in> set (drop ?n s)" using "1.prems"(1) by (metis append_take_drop_id set_append Un_iff)
    then show ?thesis
    proof cases
      case 1
      then have low: "byte_of c < 128" using high_segment [of c x cs] "1.prems"(2) Cons by force
      then have "?n = 1" by (simp add: decode_rune_ascii)
      then have "x = c" using 1 Cons by simp
      with low runes show ?thesis by (simp add: Cons decode_rune_ascii)
    next
      case 2
      have "length (drop ?n s) < length s" using decode_rune_size(1) [of "c # cs"] Cons by simp
      with 2 "1.IH" "1.prems"(2) have "byte_of x \<in> set (runes (drop ?n s))" by blast
      with runes show ?thesis by simp
    qed
  qed (use "1.prems" in simp)
qed

lemma reason_plain:
  assumes "validateDrainReason reason"
  shows "reason \<noteq> [] \<and> length reason \<le> 256 \<and> list_all (\<lambda>c. 32 \<le> byte_of c \<and> byte_of c \<noteq> 127) reason"
proof -
  have "TrimSpace [] = []" by code_simp
  moreover have "32 \<le> byte_of c \<and> byte_of c \<noteq> 127" if "c \<in> set reason" for c
    using assms that ascii_rune [OF that] by (fastforce simp: validateDrainReason_def IsControl_def list_ex_iff)
  ultimately show ?thesis using assms by (auto simp: validateDrainReason_def list_all_iff)
qed

text \<open>The one command that a valid request stands for.\<close>

definition scontrol_request :: "string \<Rightarrow> string \<Rightarrow> string \<Rightarrow> string list \<Rightarrow> bool" where
  "scontrol_request op node reason args \<longleftrightarrow>
     node \<noteq> [] \<and> length node \<le> 255 \<and> alnum (byte_of (hd node)) \<and> list_all name_char node \<and> map ascii_upper node \<noteq> ''ALL'' \<and>
     (op = OperationNodeDrain \<and> reason \<noteq> [] \<and> length reason \<le> 256 \<and> list_all (\<lambda>c. 32 \<le> byte_of c \<and> byte_of c \<noteq> 127) reason \<and>
        args = [''update'', ''NodeName='' @ node, ''State=DRAIN'', ''Reason='' @ reason] \<or>
      op = OperationNodeResume \<and> reason = [] \<and> args = [''update'', ''NodeName='' @ node, ''State=RESUME''])"

text \<open>
  C7: The privileged helper runs nothing but a plain update of one node, and only for the daemon. Whatever
  it is sent, it runs at most one program, \<^verbatim>\<open>scontrol\<close> by its full path. It does so exactly when it is
  complete, the sender's connection belongs to the service account and the arguments are valid; then the
  node is one name of letters, digits, underscores, dots and hyphens, which starts with a letter or
  digit and is not the word for all nodes, the reason has no control characters, and the answer says
  whether the program succeeded. Otherwise the answer is an error that says nothing was run. And the
  helper that its \<^verbatim>\<open>main\<close> started runs as the Slurm account of the user database, and runs a program only for a
  connection that the bus attributes to the daemon's account.\<close>

theorem helper_runs_plain_update:
  assumes "SetNodeState svc sender op node reason = (cs, res)"
  shows "(cs \<noteq> [] \<longleftrightarrow>
      (\<exists>s uid_of run name args. svc = Some s \<and> peers s = Some uid_of \<and> runner s = Some run \<and> sender = Some (Some name) \<and>
         name \<noteq> [] \<and> uid_of name = Some (serviceUID s) \<and> BuildScontrolArgs op node reason = Inr args)) \<and>
    (cs \<noteq> [] \<longrightarrow> (\<exists>s run args. svc = Some s \<and> runner s = Some run \<and> cs = [(ScontrolPath, args)] \<and> scontrol_request op node reason args \<and>
       res = (if run ScontrolPath args then Inr ''succeeded'' else Inl ExecutionFailed))) \<and>
    (cs = [] \<longrightarrow> res \<in> {Inl InternalError, Inl AccessDenied, Inl InvalidArguments}) \<and>
    (\<forall>env bus ends s. cs \<noteq> [] \<and> helper_main env bus ends = Inr s \<and> svc = Some s \<longrightarrow>
      (\<exists>su n slu name. he_lookup env SlurmAccount = Some slu \<and> ParseUint32 slu = Some (he_euid env) \<and>
         he_lookup env ServiceAccount = Some su \<and> ParseUint32 su = Some n \<and>
         sender = Some (Some name) \<and> bus name = Some (word_of_nat n)))"
proof (intro conjI impI allI)
  show "cs \<noteq> [] \<longleftrightarrow>
      (\<exists>s uid_of run name args. svc = Some s \<and> peers s = Some uid_of \<and> runner s = Some run \<and> sender = Some (Some name) \<and>
         name \<noteq> [] \<and> uid_of name = Some (serviceUID s) \<and> BuildScontrolArgs op node reason = Inr args)"
    using assms by (auto simp: SetNodeState_def split: option.split_asm sum.split_asm if_split_asm)
next
  assume "cs \<noteq> []"
  from SetNodeState_runs [OF assms this] obtain s args run where *: "svc = Some s" "cs = [(ScontrolPath, args)]"
    "BuildScontrolArgs op node reason = Inr args" "runner s = Some run"
    "res = Inr ''succeeded'' \<and> run ScontrolPath args \<or> res = Inl ExecutionFailed \<and> \<not> run ScontrolPath args" by blast
  have "scontrol_request op node reason args"
    using BuildScontrolArgs_ok [OF *(3)] validNodeName_chars [of node] reason_plain [of reason]
    by (auto simp: scontrol_request_def)
  with * show "\<exists>s run args. svc = Some s \<and> runner s = Some run \<and> cs = [(ScontrolPath, args)] \<and> scontrol_request op node reason args \<and>
       res = (if run ScontrolPath args then Inr ''succeeded'' else Inl ExecutionFailed)" by auto
next
  assume "cs = []"
  with assms show "res \<in> {Inl InternalError, Inl AccessDenied, Inl InvalidArguments}" by (auto dest: SetNodeState_no_run)
next
  fix env bus ends s
  assume *: "cs \<noteq> [] \<and> helper_main env bus ends = Inr s \<and> svc = Some s"
  then obtain name where "sender = Some (Some name)" "bus name = Some (serviceUID s)"
    using SetNodeState_runs [OF assms] helper_main_started [of env bus ends s] by auto
  with * show "\<exists>su n slu name. he_lookup env SlurmAccount = Some slu \<and> ParseUint32 slu = Some (he_euid env) \<and>
      he_lookup env ServiceAccount = Some su \<and> ParseUint32 su = Some n \<and> sender = Some (Some name) \<and> bus name = Some (word_of_nat n)"
    using helper_main_started [of env bus ends s] by auto
qed

theorem helper_runs_plain_update_witness:
  "\<exists>cs res. SetNodeState (Some \<lparr>serviceUID = 201, peers = Some (\<lambda>_. Some 201), runner = Some (\<lambda>_ _. True)\<rparr>) (Some (Some '':1.7''))
     OperationNodeResume ''n1'' [] = (cs, res) \<and> cs = [(ScontrolPath, [''update'', ''NodeName=n1'', ''State=RESUME''])] \<and> res = Inr ''succeeded''"
proof -
  let ?s = "\<lparr>serviceUID = 201, peers = Some (\<lambda>_. Some 201), runner = Some (\<lambda>_ _. True)\<rparr>"
  obtain cs res where r: "SetNodeState (Some ?s) (Some (Some '':1.7'')) OperationNodeResume ''n1'' [] = (cs, res)" by fastforce
  have "validNodeName ''n1''" by code_simp
  then have "BuildScontrolArgs OperationNodeResume ''n1'' [] = Inr [''update'', ''NodeName=n1'', ''State=RESUME'']"
    by (simp add: BuildScontrolArgs_def OperationNodeDrain_def OperationNodeResume_def)
  with helper_runs_plain_update [OF r] have "cs \<noteq> []" by auto
  with helper_runs_plain_update [OF r] have "\<exists>args. cs = [(ScontrolPath, args)] \<and> scontrol_request OperationNodeResume ''n1'' [] args \<and> res = Inr ''succeeded''"
    by fastforce
  with r show ?thesis by (auto simp: scontrol_request_def OperationNodeDrain_def OperationNodeResume_def)
qed

end
