(* ===== verification/Execution_Props.thy ===== *)
theory Execution_Props
  imports Nodehelper_Props Command
begin

text \<open>
  From the helper's program back to the command: how \<^verbatim>\<open>scontrol\<close> ended, what the helper answers, how the
  daemon's client classifies the answer, and what the command service records.
\<close>

text \<open>The service that the helper exports, with the runner of programs.\<close>

definition exec_helper :: "uint32 \<Rightarrow> (string \<Rightarrow> uint32 option) \<Rightarrow> (string \<Rightarrow> string list \<Rightarrow> program_end) \<Rightarrow> helper_service" where
  "exec_helper uid uid_of ends = \<lparr>serviceUID = uid, peers = Some uid_of, runner = Some (execCommandRunner_Run ends)\<rparr>"

lemma helper_main_exec: "helper_main env bus ends = Inr s \<Longrightarrow> s = exec_helper (serviceUID s) bus ends"
  using helper_main_started [of env bus ends s] by (simp add: exec_helper_def)

text \<open>The call of the daemon's client for an operation of the registry, answered by the helper over the bus.\<close>

definition mutation_answer :: "operation_id \<Rightarrow> dbus_kind + string \<Rightarrow> exec_error + unit" where
  "mutation_answer op res = Execute (Some (caller_SetNodeState (Some (bus_reply res)))) op"

lemma mutation_answer_simps:
  assumes "op = OperationNodeDrain \<or> op = OperationNodeResume"
  shows "mutation_answer op (Inr ''succeeded'') = Inr ()" "mutation_answer op (Inl ExecutionFailed) = Inl ExecRejected"
    "mutation_answer op (Inl AccessDenied) = Inl ExecRejected" "mutation_answer op (Inl InvalidArguments) = Inl ExecRejected"
    "mutation_answer op (Inl InternalError) = Inl ExecOutcomeUnknown"
  using assms by (auto simp: mutation_answer_def Execute_def caller_SetNodeState_def bus_reply_def)



end
