(* ===== verification/Command_Locks.thy ===== *)
theory Command_Locks
  imports Command
begin

text \<open>
  The per-command locks of \<^verbatim>\<open>Service.lock\<close> (\<^verbatim>\<open>internal/command/service.go\<close>): a table of reference-counted
  mutexes whose entries come and go. The rest of the development takes locking a key as one atomic
  step on the set of locked keys; here the code's four steps are shown to implement that.

  A mutex is an address; the table maps keys to addresses, and the heap is the reference counts and
  the states of the mutexes. \<open>lock_enter\<close> and \<open>unlock_leave\<close> are the two critical sections under
  \<^verbatim>\<open>locksMu\<close>; between them the mutex of the entry is taken and released.
\<close>

record lock_table =
  lt_next :: nat
  lt_locks :: "string \<Rightarrow> nat option"
  lt_refs :: "nat \<Rightarrow> nat"
  lt_held :: "nat \<Rightarrow> bool"

definition no_locks :: lock_table where
  "no_locks = \<lparr>lt_next = 0, lt_locks = (\<lambda>_. None), lt_refs = (\<lambda>_. 0), lt_held = (\<lambda>_. False)\<rparr>"

definition lock_enter :: "string \<Rightarrow> lock_table \<Rightarrow> lock_table \<times> nat" where
  "lock_enter key t =
     (let (t1, l) =
        (case lt_locks t key of
           Some l \<Rightarrow> (t, l)
         | None \<Rightarrow> (t\<lparr>lt_next := Suc (lt_next t), lt_locks := (lt_locks t)(key \<mapsto> lt_next t),
             lt_refs := (lt_refs t)(lt_next t := 0), lt_held := (lt_held t)(lt_next t := False)\<rparr>, lt_next t))
      in (t1\<lparr>lt_refs := (lt_refs t1)(l := lt_refs t1 l + 1)\<rparr>, l))"

definition lock_take :: "nat \<Rightarrow> lock_table \<Rightarrow> lock_table option" where
  "lock_take l t = (if lt_held t l then None else Some (t\<lparr>lt_held := (lt_held t)(l := True)\<rparr>))"

definition unlock_release :: "nat \<Rightarrow> lock_table \<Rightarrow> lock_table" where
  "unlock_release l t = t\<lparr>lt_held := (lt_held t)(l := False)\<rparr>"

definition unlock_leave :: "string \<Rightarrow> nat \<Rightarrow> lock_table \<Rightarrow> lock_table" where
  "unlock_leave key l t =
     (let t1 = t\<lparr>lt_refs := (lt_refs t)(l := lt_refs t l - 1)\<rparr> in
      if lt_refs t1 l = 0 then t1\<lparr>lt_locks := (lt_locks t1)(key := None)\<rparr> else t1)"

section \<open>Goroutines\<close>

text \<open>Where a goroutine is with its lock: it has the entry, it has the mutex, it has given the mutex back.\<close>

datatype lock_stage = Outside | Entered string nat | Holding string nat | Leaving string nat

type_synonym lock_state = "lock_table \<times> (nat \<Rightarrow> lock_stage)"

inductive lock_step :: "lock_state \<Rightarrow> lock_state \<Rightarrow> bool" where
  enter: "g i = Outside \<Longrightarrow> lock_enter key t = (t', l) \<Longrightarrow> lock_step (t, g) (t', g(i := Entered key l))"
| take: "g i = Entered key l \<Longrightarrow> lock_take l t = Some t' \<Longrightarrow> lock_step (t, g) (t', g(i := Holding key l))"
| release: "g i = Holding key l \<Longrightarrow> lock_step (t, g) (unlock_release l t, g(i := Leaving key l))"
| leave: "g i = Leaving key l \<Longrightarrow> lock_step (t, g) (unlock_leave key l t, g(i := Outside))"

fun stage_lock :: "lock_stage \<Rightarrow> (string \<times> nat) option" where
  "stage_lock Outside = None"
| "stage_lock (Entered k l) = Some (k, l)"
| "stage_lock (Holding k l) = Some (k, l)"
| "stage_lock (Leaving k l) = Some (k, l)"

definition holders :: "(nat \<Rightarrow> lock_stage) \<Rightarrow> nat \<Rightarrow> nat set" where
  "holders g l = {i. \<exists>k. g i = Holding k l}"

definition engaged :: "(nat \<Rightarrow> lock_stage) \<Rightarrow> nat \<Rightarrow> nat set" where
  "engaged g l = {i. \<exists>k. stage_lock (g i) = Some (k, l)}"

text \<open>
  Who is engaged with a mutex finds it under its key; the count is the number of those; a mutex is
  held by exactly one goroutine that says so; entries are distinct, in use and older than the next one.
\<close>

definition locks_inv :: "lock_state \<Rightarrow> bool" where
  "locks_inv s \<longleftrightarrow> (case s of (t, g) \<Rightarrow>
     (\<forall>i k l. stage_lock (g i) = Some (k, l) \<longrightarrow> lt_locks t k = Some l) \<and>
     (\<forall>l. finite (engaged g l) \<and> lt_refs t l = card (engaged g l)) \<and>
     (\<forall>l. lt_held t l \<longleftrightarrow> holders g l \<noteq> {}) \<and>
     (\<forall>l. \<forall>i \<in> holders g l. \<forall>j \<in> holders g l. i = j) \<and>
     (\<forall>k l. lt_locks t k = Some l \<longrightarrow> l < lt_next t \<and> 0 < lt_refs t l) \<and>
     (\<forall>k k' l. lt_locks t k = Some l \<and> lt_locks t k' = Some l \<longrightarrow> k = k'))"

lemma stage_lock_simps: "stage_lock x = Some (k, l) \<longleftrightarrow> x = Entered k l \<or> x = Holding k l \<or> x = Leaving k l"
  by (cases x) auto

lemma engaged_upd:
  "engaged (g(i := x)) l = (if \<exists>k. stage_lock x = Some (k, l) then insert i (engaged g l) else engaged g l - {i})"
  by (auto simp: engaged_def)

lemma holders_upd: "holders (g(i := x)) l = (if \<exists>k. x = Holding k l then insert i (holders g l) else holders g l - {i})"
  by (auto simp: holders_def)

lemma holders_other: "\<forall>k. g i \<noteq> Holding k l \<Longrightarrow> holders g l - {i} = holders g l"
  by (auto simp: holders_def)

lemma engaged_same: "stage_lock (g i) = stage_lock x \<Longrightarrow> engaged (g(i := x)) l = engaged g l"
  unfolding engaged_upd by (auto simp: engaged_def)

lemma lock_enter_cases:
  assumes "lock_enter key t = (t', l)"
  obtains (old) "lt_locks t key = Some l" "t' = t\<lparr>lt_refs := (lt_refs t)(l := lt_refs t l + 1)\<rparr>"
  | (fresh) "lt_locks t key = None" "l = lt_next t"
      "t' = t\<lparr>lt_next := Suc l, lt_locks := (lt_locks t)(key \<mapsto> l), lt_refs := (lt_refs t)(l := 1), lt_held := (lt_held t)(l := False)\<rparr>"
  using assms by (auto simp: lock_enter_def split: option.splits)

lemma inv_enter:
  assumes inv: "locks_inv (t, g)" and "g i = Outside" "lock_enter key t = (t', l)"
  shows "locks_inv (t', g(i := Entered key l))"
proof -
  note I = inv [unfolded locks_inv_def, simplified]
  have i: "i \<notin> engaged g m" for m using assms(2) by (simp add: engaged_def)
  show ?thesis
    using assms(3)
  proof (cases rule: lock_enter_cases)
    case old
    then show ?thesis
      using I assms(2) i unfolding locks_inv_def by (auto simp: engaged_upd holders_upd holders_other)
  next
    case fresh
    have un: "\<not> (\<exists>k. stage_lock (g j) = Some (k, l))" for j using I fresh(2) by (metis less_irrefl)
    then have e: "engaged g l = {}" by (simp add: engaged_def)
    have h: "holders g l = {}" using un by (auto simp: holders_def) (metis stage_lock.simps(3))
    have m: "lt_locks t k \<noteq> Some l" for k using I fresh(2) by (metis less_irrefl)
    have other: "stage_lock (g j) = Some (k, m) \<Longrightarrow> k \<noteq> key" for j k m using I fresh(1) by fastforce
    show ?thesis
      using I assms(2) i fresh e h m un other unfolding locks_inv_def
      by (auto simp: engaged_upd holders_upd holders_other less_Suc_eq)
  qed
qed

lemma inv_take:
  assumes inv: "locks_inv (t, g)" and "g i = Entered key l" "lock_take l t = Some t'"
  shows "locks_inv (t', g(i := Holding key l))"
proof -
  note I = inv [unfolded locks_inv_def, simplified]
  have t: "t' = t\<lparr>lt_held := (lt_held t)(l := True)\<rparr>" "\<not> lt_held t l" using assms(3) by (auto simp: lock_take_def split: if_splits)
  have e: "engaged (g(i := Holding key l)) m = engaged g m" for m using assms(2) by (intro engaged_same) simp
  have h: "holders g l = {}" "i \<notin> holders g m" for m using I t(2) assms(2) by (auto simp: holders_def)
  have key: "lt_locks t key = Some l" using I assms(2) by (metis stage_lock.simps(2))
  with h show ?thesis
    using I t assms(2) unfolding locks_inv_def by (auto simp: e holders_upd)
qed

lemma inv_release:
  assumes inv: "locks_inv (t, g)" and "g i = Holding key l"
  shows "locks_inv (unlock_release l t, g(i := Leaving key l))"
proof -
  note I = inv [unfolded locks_inv_def, simplified]
  have e: "engaged (g(i := Leaving key l)) m = engaged g m" for m using assms(2) by (intro engaged_same) simp
  have "i \<in> holders g l" "\<And>m. m \<noteq> l \<Longrightarrow> i \<notin> holders g m" using assms(2) by (auto simp: holders_def)
  moreover from this have "holders g l - {i} = {}" using I by blast
  moreover have "lt_locks t key = Some l" using I assms(2) by (metis stage_lock.simps(3))
  ultimately show ?thesis
    using I assms(2) unfolding locks_inv_def by (auto simp: e unlock_release_def holders_upd)
qed

lemma inv_leave:
  assumes inv: "locks_inv (t, g)" and "g i = Leaving key l"
  shows "locks_inv (unlock_leave key l t, g(i := Outside))"
proof -
  note I = inv [unfolded locks_inv_def, simplified]
  have i: "i \<in> engaged g l" "\<And>m. m \<noteq> l \<Longrightarrow> i \<notin> engaged g m" using assms(2) by (auto simp: engaged_def)
  have key: "lt_locks t key = Some l" using I assms(2) by (metis stage_lock.simps(4))
  have fin: "finite (engaged g m)" "lt_refs t m = card (engaged g m)" for m using I by blast+
  show ?thesis
  proof (cases "engaged g l = {i}")
    case True
    then have "\<not> (\<exists>k. stage_lock (g j) = Some (k, l))" if "j \<noteq> i" for j using that by (auto simp: engaged_def)
    then show ?thesis
      using I assms(2) i True key fin unfolding locks_inv_def unlock_leave_def Let_def by (auto simp: engaged_upd holders_upd holders_other)
  next
    case False
    then have "engaged g l - {i} \<noteq> {}" using i(1) by blast
    then have "0 < card (engaged g l - {i})" using fin(1) by (metis card_gt_0_iff finite_Diff)
    then show ?thesis
      using I assms(2) i key fin unfolding locks_inv_def unlock_leave_def Let_def by (auto simp: engaged_upd holders_upd holders_other)
  qed
qed

lemma locks_inv_step: "lock_step s s' \<Longrightarrow> locks_inv s \<Longrightarrow> locks_inv s'"
  by (induction rule: lock_step.induct) (simp_all add: inv_enter inv_take inv_release inv_leave)

section \<open>The interface: one lock per key\<close>

text \<open>What the rest of the development uses: who has locked which key, and the two atomic steps.\<close>

inductive atomic_lock_step :: "(nat \<Rightarrow> string option) \<Rightarrow> (nat \<Rightarrow> string option) \<Rightarrow> bool" where
  lock: "H i = None \<Longrightarrow> k \<notin> ran H \<Longrightarrow> atomic_lock_step H (H(i \<mapsto> k))"
| unlock: "H i = Some k \<Longrightarrow> atomic_lock_step H (H(i := None))"

lemma atomic_exclusive: "atomic_lock_step\<^sup>*\<^sup>* (\<lambda>_. None) H \<Longrightarrow> H i = Some k \<Longrightarrow> H j = Some k \<Longrightarrow> i = j"
proof (induction arbitrary: i j k rule: rtranclp_induct)
  case (step H H')
  from step.hyps(2) show ?case
    using step.IH step.prems by cases (auto simp: ran_def split: if_splits)
qed simp

locale keyed_lock =
  fixes start :: 's and step :: "'s \<Rightarrow> 's \<Rightarrow> bool" and held :: "'s \<Rightarrow> nat \<Rightarrow> string option" and ok :: "'s \<Rightarrow> bool"
  assumes ok_start: "ok start" and held_start: "held start = (\<lambda>_. None)"
    and ok_step: "ok s \<Longrightarrow> step s s' \<Longrightarrow> ok s'"
    and step_held: "ok s \<Longrightarrow> step s s' \<Longrightarrow> held s' = held s \<or> atomic_lock_step (held s) (held s')"
begin

lemma reachable_ok: "step\<^sup>*\<^sup>* start s \<Longrightarrow> ok s"
  by (induction rule: rtranclp_induct) (auto simp: ok_start intro: ok_step)

lemma refines: "step\<^sup>*\<^sup>* start s \<Longrightarrow> atomic_lock_step\<^sup>*\<^sup>* (\<lambda>_. None) (held s)"
proof (induction rule: rtranclp_induct)
  case (step s s')
  then show ?case using step_held [OF reachable_ok [OF step.hyps(1)] step.hyps(2)] by (metis rtranclp.rtrancl_into_rtrancl)
qed (simp add: held_start)

lemma exclusive: "step\<^sup>*\<^sup>* start s \<Longrightarrow> held s i = Some k \<Longrightarrow> held s j = Some k \<Longrightarrow> i = j"
  using refines atomic_exclusive by blast

end

fun stage_key :: "lock_stage \<Rightarrow> string option" where
  "stage_key (Holding k l) = Some k"
| "stage_key _ = None"

definition held_keys :: "lock_state \<Rightarrow> nat \<Rightarrow> string option" where
  "held_keys s i = stage_key (snd s i)"

definition lock_start :: lock_state where
  "lock_start = (no_locks, \<lambda>_. Outside)"

lemma stage_key_Some: "stage_key x = Some k \<longleftrightarrow> (\<exists>l. x = Holding k l)"
  by (cases x) auto

lemma held_upd: "held_keys (t, g(i := x)) = (held_keys (t', g))(i := stage_key x)"
  by (auto simp: held_keys_def)

text \<open>A mutex that is free belongs to a key that nobody holds.\<close>

lemma free_key:
  assumes "locks_inv (t, g)" "stage_lock (g i) = Some (k, l)"
  shows "lt_held t l \<longleftrightarrow> k \<in> ran (held_keys (t, g))"
proof -
  note I = assms(1) [unfolded locks_inv_def, simplified]
  have key: "lt_locks t k = Some l" using I assms(2) by blast
  have "l' = l" if "g j = Holding k l'" for j l' using I that key by (metis option.inject stage_lock.simps(3))
  moreover have "k' = k" if "g j = Holding k' l" for j k' using I that key by (metis stage_lock.simps(3))
  moreover have "lt_held t l \<longleftrightarrow> (\<exists>j k'. g j = Holding k' l)" using I by (auto simp: holders_def)
  moreover have "k \<in> ran (held_keys (t, g)) \<longleftrightarrow> (\<exists>j l'. g j = Holding k l')" by (auto simp: ran_def held_keys_def stage_key_Some)
  ultimately show ?thesis by metis
qed

lemma lock_step_held:
  assumes "locks_inv s" "lock_step s s'"
  shows "held_keys s' = held_keys s \<or> atomic_lock_step (held_keys s) (held_keys s')"
  using assms(2)
proof cases
  case (take g i key l t t')
  then have "\<not> lt_held t l" "held_keys s i = None" by (auto simp: lock_take_def held_keys_def split: if_splits)
  then have "key \<notin> ran (held_keys s)" using assms(1) take free_key [of t g i key l] by simp
  with \<open>held_keys s i = None\<close> show ?thesis
    using take held_upd [of t' g i "Holding key l" t] atomic_lock_step.lock [of "held_keys s" i key] by simp
next
  case (release g i key l t)
  then have "held_keys s i = Some key" by (simp add: held_keys_def)
  then show ?thesis
    using release held_upd [of "unlock_release l t" g i "Leaving key l" t] atomic_lock_step.unlock [of "held_keys s" i key] by simp
qed (auto simp: held_keys_def fun_eq_iff)

lemma locks_inv_start: "locks_inv lock_start"
  by (auto simp: locks_inv_def lock_start_def no_locks_def engaged_def holders_def)

lemma held_keys_start: "held_keys lock_start = (\<lambda>_. None)"
  by (simp add: held_keys_def lock_start_def fun_eq_iff)

interpretation service_lock: keyed_lock lock_start lock_step held_keys locks_inv
  by unfold_locales (auto simp: locks_inv_start held_keys_start intro: locks_inv_step dest: lock_step_held)

lemma table_in_use:
  assumes "locks_inv (t, g)"
  shows "lt_locks t k = Some l \<longleftrightarrow> (\<exists>i. stage_lock (g i) = Some (k, l))"
proof -
  note I = assms [unfolded locks_inv_def, simplified]
  have "\<exists>i. stage_lock (g i) = Some (k, l)" if "lt_locks t k = Some l"
  proof -
    have "engaged g l \<noteq> {}" using I that by (metis card.empty less_irrefl)
    then obtain i k' where i: "stage_lock (g i) = Some (k', l)" by (auto simp: engaged_def)
    then have "k' = k" using I that by metis
    with i show ?thesis by blast
  qed
  then show ?thesis using I by blast
qed

text \<open>
  C14: The table of reference-counted mutexes implements one lock per key. Under any interleaving of
  goroutines, each step of the code leaves the held keys as they are or is one atomic locking of a free
  key or unlocking of a held one; no key is held twice; a goroutine that waits for its mutex can take it
  exactly when nobody holds its key, so an entry that was dropped and made again never lets two in or
  keeps one out; and the table holds exactly the keys in use, so nothing is left when all are done.\<close>

theorem lock_table_refines:
  assumes "lock_step\<^sup>*\<^sup>* lock_start (t, g)"
  shows "atomic_lock_step\<^sup>*\<^sup>* (\<lambda>_. None) (held_keys (t, g)) \<and>
    (\<forall>s'. lock_step (t, g) s' \<longrightarrow> held_keys s' = held_keys (t, g) \<or> atomic_lock_step (held_keys (t, g)) (held_keys s')) \<and>
    (\<forall>i j k. held_keys (t, g) i = Some k \<and> held_keys (t, g) j = Some k \<longrightarrow> i = j) \<and>
    (\<forall>i k l. g i = Entered k l \<longrightarrow> (lock_take l t \<noteq> None \<longleftrightarrow> k \<notin> ran (held_keys (t, g)))) \<and>
    (\<forall>k. lt_locks t k \<noteq> None \<longleftrightarrow> (\<exists>i l. stage_lock (g i) = Some (k, l)))"
proof -
  have inv: "locks_inv (t, g)" by (rule service_lock.reachable_ok [OF assms])
  have "lock_take l t \<noteq> None \<longleftrightarrow> k \<notin> ran (held_keys (t, g))" if "g i = Entered k l" for i k l
    using free_key [OF inv, of i k l] that by (simp add: lock_take_def)
  moreover have "lt_locks t k \<noteq> None \<longleftrightarrow> (\<exists>i l. stage_lock (g i) = Some (k, l))" for k
    using table_in_use [OF inv] by auto
  moreover have "\<forall>i j k. held_keys (t, g) i = Some k \<and> held_keys (t, g) j = Some k \<longrightarrow> i = j"
    using service_lock.exclusive [OF assms] by blast
  moreover have "\<forall>s'. lock_step (t, g) s' \<longrightarrow> held_keys s' = held_keys (t, g) \<or> atomic_lock_step (held_keys (t, g)) (held_keys s')"
    using lock_step_held [OF inv] by blast
  ultimately show ?thesis using service_lock.refines [OF assms] by simp
qed

theorem lock_table_refines_witness:
  "\<exists>t g. lock_step\<^sup>*\<^sup>* lock_start (t, g) \<and> held_keys (t, g) 0 = Some ''1:c'' \<and> (\<exists>l. g 1 = Entered ''1:c'' l \<and> lock_take l t = None)"
proof -
  obtain t1 l where 1: "lock_enter ''1:c'' no_locks = (t1, l)" by fastforce
  obtain t2 l2 where 2: "lock_enter ''1:c'' t1 = (t2, l2)" by fastforce
  have free: "\<not> lt_held t2 l" using 1 2 by (auto simp: lock_enter_def no_locks_def Let_def)
  then obtain t3 where 3: "lock_take l t2 = Some t3" by (simp add: lock_take_def)
  let ?g1 = "(\<lambda>_::nat. Outside)(0 := Entered ''1:c'' l)"
  let ?g2 = "?g1(1 := Entered ''1:c'' l2)"
  let ?g3 = "?g2(0 := Holding ''1:c'' l)"
  have "lock_step lock_start (t1, ?g1)" unfolding lock_start_def by (rule lock_step.enter [OF _ 1]) simp
  moreover have "lock_step (t1, ?g1) (t2, ?g2)" by (rule lock_step.enter [OF _ 2]) simp
  moreover have "lock_step (t2, ?g2) (t3, ?g3)" by (rule lock_step.take [OF _ 3]) simp
  ultimately have run: "lock_step\<^sup>*\<^sup>* lock_start (t3, ?g3)" by (blast intro: converse_rtranclp_into_rtranclp)
  have held: "held_keys (t3, ?g3) 0 = Some ''1:c''" by (simp add: held_keys_def)
  then have "''1:c'' \<in> ran (held_keys (t3, ?g3))" by (auto simp: ran_def)
  moreover have "?g3 1 = Entered ''1:c'' l2" by simp
  ultimately have "lock_take l2 t3 = None"
    using lock_table_refines [OF run, THEN conjunct2, THEN conjunct2, THEN conjunct2, THEN conjunct1] by blast
  then show ?thesis using run held by (intro exI [of _ t3] exI [of _ ?g3]) simp
qed

end
