(* ===== verification/Daemon.thy ===== *)
theory Daemon
  imports Ledger Slurm_Source Command Ipc
begin

text \<open>
  The start of the daemon (\<^verbatim>\<open>cmd/cockpit-slurm/main.go\<close>): the parts are built in order, each from the ones
  before, and the first error ends the process before anything listens.

  What the start depends on is an input: the database and its failures, the programs of Slurm, the
  user database, the bus and the socket path. How a command's calls are run is the argument
  \<open>handle\<close>, which turns a service into the handler of authenticated messages; \<open>cache_of\<close> reads the
  node cache from the state that handlers share.
\<close>

definition DefaultNodeSyncInterval :: int where
  "DefaultNodeSyncInterval = 5 * 10 ^ 9"

definition DefaultNodeStreamQueueSize :: int where
  "DefaultNodeStreamQueueSize = 32"

record main_env =
  me_open :: open_env
  me_abs :: "string \<Rightarrow> string"
  me_exec :: exec_fn
  me_nows :: "nat \<Rightarrow> string" \<comment> \<open>the clock when a node is mapped\<close>
  me_now :: string \<comment> \<open>the clock when a batch is published\<close>
  me_signal :: bool \<comment> \<open>interrupted or terminated before the first snapshot is committed\<close>
  me_account :: "string \<Rightarrow> (string \<times> string) option" \<comment> \<open>\<^verbatim>\<open>user.Lookup\<close>: identifier and name\<close>
  me_bus :: bool
  me_euid :: uint32
  me_user :: "string \<Rightarrow> string option" \<comment> \<open>\<^verbatim>\<open>user.LookupId\<close>\<close>
  me_sha256 :: "bytes \<Rightarrow> bytes"
  me_printable :: "rune \<Rightarrow> bool"
  me_socket :: string \<comment> \<open>the environment variable that names the socket\<close>
  me_path :: path_env

datatype main_error = MainLedger ledger_error | MainStreams registry_error | MainSynchronizer sync_error
  | MainRefresh sync_error | MainRegistry access_error | MainExecutor executor_error | MainService
  | MainRegister | MainListen ipc_error

record 's bridge =
  dm_ledger :: ledger
  dm_cache :: node_cache
  dm_streams :: stream_registry
  dm_synchronizer :: synchronizer
  dm_service :: service
  dm_dispatcher :: "'s dispatcher"
  dm_server :: server

text \<open>
  The resolver over \<^verbatim>\<open>sacctmgr\<close>. The authorizer of the command service is \<^const>\<open>Authorize\<close> on it and
  the registry, which is how the calls of \<^const>\<open>Handle\<close> are answered.
\<close>

definition main_resolver :: "main_env \<Rightarrow> capability_resolver" where
  "main_resolver e = Resolve (Some (LookupUser (Some (me_exec e))))"

text \<open>The first refresh: no stream is registered yet, so publishing its batch reaches nobody.\<close>

definition first_refresh :: "main_env \<Rightarrow> synchronizer \<Rightarrow> stream_registry \<Rightarrow> (node_cache \<times> stream_registry) \<times> sync_error option" where
  "first_refresh e synchronizer nodeStreams =
     Refresh (Some synchronizer) (Some (\<lambda>b r. the (Publish (\<lambda>_. False) (me_now e) b (Some r))))
       (case ListNodes (me_exec e) (me_nows e) of Inl _ \<Rightarrow> Inl () | Inr ns \<Rightarrow> Inr ns) (me_signal e) (NewNodeCache, nodeStreams)"

definition main_serve ::
  "(service \<Rightarrow> 's authenticated_handler) \<Rightarrow> ('s \<Rightarrow> node_cache) \<Rightarrow> main_env \<Rightarrow> ledger \<Rightarrow> node_cache \<Rightarrow> stream_registry \<Rightarrow>
   synchronizer \<Rightarrow> registry \<Rightarrow> execution_identity \<Rightarrow> main_error + 's bridge" where
  "main_serve handle cache_of e commandLedger cache nodeStreams synchronizer registry executor =
     (case NewService True registry (executor_Identity (Some executor)) (me_sha256 e) (me_euid e) (me_user e) of
        None \<Rightarrow> Inl MainService
      | Some new \<Rightarrow>
        (let commandService = SetNodeRefresh new;
             d = NewDispatcherWithCacheAndCapabilities (me_printable e) (Some cache_of) (Some (main_resolver e))
         in
         case RegisterAuthenticated MessageCommand (Some (handle commandService)) d of
           (_, False) \<Rightarrow> Inl MainRegister
         | (messageDispatcher, True) \<Rightarrow>
           (let (server, dispatcher) = NewServerWithDispatcher (me_socket e) [] (Some messageDispatcher) d in
            case Listen (me_path e) server of
              (_, Some err) \<Rightarrow> Inl (MainListen err)
            | (listening_server, None) \<Rightarrow>
              Inr \<lparr>dm_ledger = commandLedger, dm_cache = cache, dm_streams = nodeStreams, dm_synchronizer = synchronizer,
                 dm_service = commandService, dm_dispatcher = dispatcher, dm_server = listening_server\<rparr>)))"

definition main ::
  "(service \<Rightarrow> 's authenticated_handler) \<Rightarrow> ('s \<Rightarrow> node_cache) \<Rightarrow> main_env \<Rightarrow> db \<Rightarrow> db \<times> (main_error + 's bridge)" where
  "main handle cache_of e d =
     (case Open (me_open e) (me_abs e) DefaultPath d of
        (d', Inl err) \<Rightarrow> (d', Inl (MainLedger err))
      | (d', Inr commandLedger) \<Rightarrow>
        (d',
         case NewNodeStreamRegistry True DefaultNodeStreamQueueSize of
           Inl err \<Rightarrow> Inl (MainStreams err)
         | Inr nodeStreams \<Rightarrow>
           (case NewNodeSynchronizer True True DefaultNodeSyncInterval of
              Inl err \<Rightarrow> Inl (MainSynchronizer err)
            | Inr synchronizer \<Rightarrow>
              (case first_refresh e synchronizer nodeStreams of
                 (_, Some err) \<Rightarrow> Inl (MainRefresh err)
               | ((cache, nodeStreams1), None) \<Rightarrow>
                 (case NewNodeRegistry of
                    Inl err \<Rightarrow> Inl (MainRegistry err)
                  | Inr registry \<Rightarrow>
                    (case NewDBusExecutor (me_account e) (me_bus e) of
                       Inl err \<Rightarrow> Inl (MainExecutor err)
                     | Inr executor \<Rightarrow>
                       main_serve handle cache_of e commandLedger cache nodeStreams1 synchronizer registry executor))))))"

end
