(* ===== verification/Daemon_Props.thy ===== *)
theory Daemon_Props
  imports Daemon Dispatch_Props Command_Theorems Node_Stream_Props Slurm_User_Props
begin

text \<open>
  When the daemon starts, what then holds, and that the guarantee of the command service holds from
  there on: the parts fit together.
\<close>

section \<open>The first refresh\<close>

definition lists_valid_nodes :: "main_env \<Rightarrow> node list \<Rightarrow> bool" where
  "lists_valid_nodes e ns \<longleftrightarrow>
     ListNodes (me_exec e) (me_nows e) = Inr ns \<and> [] \<notin> Identity ` set ns \<and> tab_unique Identity ns \<and> \<not> me_signal e"

lemma Publish_no_streams: "streams r = [] \<Longrightarrow> streams (the (Publish p now b (Some r))) = []"
  by (simp add: Publish_def eventEnvelope_def nextMessageID_def Let_def case_prod_beta)

lemma first_refresh_error:
  "snd (first_refresh e y r) = None \<longleftrightarrow> (\<exists>ns. lists_valid_nodes e ns)"
  by (auto simp: first_refresh_def Refresh_def lists_valid_nodes_def validate_None [symmetric] split: sum.splits option.splits)

lemma first_refresh_nodes:
  assumes "first_refresh e y r = ((c, r'), None)" "streams r = []"
  obtains ns where "lists_valid_nodes e ns" "keyed (cached c)" "streams r' = []"
    "\<And>i. rel_option sameNodeState (map_of (cached c) i) (tab_find Identity i ns)"
proof -
  obtain ns where ns: "lists_valid_nodes e ns" using assms(1) first_refresh_error [of e y r] by auto
  then have v: "validateNodeSnapshot ns = None" by (simp add: lists_valid_nodes_def validate_None)
  obtain res where c: "replaceSnapshot ns NewNodeCache = (c, res)"
      "r' = (case res of None \<Rightarrow> r | Some b \<Rightarrow> the (Publish (\<lambda>_. False) (me_now e) b (Some r)))"
    using assms(1) ns v
    by (auto simp: first_refresh_def Refresh_def lists_valid_nodes_def ReplaceSnapshotAndPublish_def split: prod.splits option.splits)
  have k: "keyed (cached NewNodeCache)" by (simp add: NewNodeCache_def)
  have "streams r' = []" using c(2) assms(2) Publish_no_streams by (auto split: option.splits)
  then show thesis
    using that [OF ns replaceSnapshot_state(2) [OF k c(1)]] replaceSnapshot_state(1) [OF k c(1)] incoming_validated [OF v] by simp
qed

section \<open>The start\<close>

text \<open>Everything that the start needs.\<close>

definition can_start :: "main_env \<Rightarrow> db \<Rightarrow> bool" where
  "can_start e d \<longleftrightarrow>
     (\<exists>l. snd (Open (me_open e) (me_abs e) DefaultPath d) = Inr l) \<and>
     (\<exists>ns. lists_valid_nodes e ns) \<and>
     (\<exists>uid name n. me_account e SlurmAccount = Some (uid, name) \<and> ParseUint32 uid = Some n) \<and> me_bus e \<and>
     (\<exists>name. me_user e (dec (unat (me_euid e))) = Some name \<and> name \<noteq> []) \<and>
     mkdir_ok (me_path e) \<and> fst (removeStaleSocket (me_path e)) = None \<and> listen_ok (me_path e) \<and> chmod_ok (me_path e)"

lemma NewDBusExecutor_iff:
  "NewDBusExecutor account bus = Inr x \<longleftrightarrow>
     (\<exists>uid name n. account SlurmAccount = Some (uid, name) \<and> ParseUint32 uid = Some n \<and> bus \<and>
        x = \<lparr>xUID = word_of_nat n, xUsername = name, xBoundary = ''dbus:'' @ HelperInterface\<rparr>)"
  by (auto simp: NewDBusExecutor_def split: option.splits)

lemma NewService_iff:
  "NewService True reg x h u names = Some s \<longleftrightarrow>
     (\<exists>name. names (dec (unat u)) = Some name \<and> name \<noteq> [] \<and>
        s = \<lparr>svc_registry = reg, svc_identity = x, has_refresh = False, svc_uid = u, svc_user = name, hash = h\<rparr>)"
  "NewService True reg x h u names = None \<longleftrightarrow> \<not> (\<exists>name. names (dec (unat u)) = Some name \<and> name \<noteq> [])"
  by (auto simp: NewService_def split: option.splits)

text \<open>The parts of a started daemon.\<close>

definition daemon_ready :: "(service \<Rightarrow> 's authenticated_handler) \<Rightarrow> ('s \<Rightarrow> node_cache) \<Rightarrow> main_env \<Rightarrow> 's bridge \<Rightarrow> bool" where
  "daemon_ready handle cache_of e p \<longleftrightarrow>
     service_ledger_ok (dm_ledger p) \<and> \<not> blocked (dm_ledger p) \<and>
     (\<forall>r \<in> set (ledger_rows (dm_ledger p)). \<not> interrupted (status r)) \<and>
     (\<exists>ns. lists_valid_nodes e ns \<and> (\<forall>i. rel_option sameNodeState (map_of (cached (dm_cache p)) i) (tab_find Identity i ns))) \<and>
     streams (dm_streams p) = [] \<and> QueueSize (Some (dm_streams p)) = 32 \<and> sync_interval (dm_synchronizer p) > 0 \<and>
     NewNodeRegistry = Inr (svc_registry (dm_service p)) \<and> svc_user (dm_service p) \<noteq> [] \<and> has_refresh (dm_service p) \<and>
     dm_dispatcher p = daemon_dispatcher (me_printable e) cache_of (main_resolver e) (handle (dm_service p)) \<and>
     listening (dm_server p) \<and> \<not> closed (dm_server p) \<and> active (dm_server p) = {}"

lemma Open_ready:
  assumes "Open oe ab path d = (d', Inr l)" "rows_ok (rows d)"
  shows "service_ledger_ok l" "\<not> blocked l" "\<forall>r \<in> set (ledger_rows l). \<not> interrupted (status r)"
  using assms Open_ledger_ok [OF assms]
  by (auto elim!: Open_outcome dest!: migrate_version simp: unresolved_0_iff service_ledger_ok_def
      recoverInterrupted_def purgeExpired_def sql_delete_expired_def sql_update_def split: if_splits)

definition node_sync :: synchronizer where
  "node_sync = \<lparr>sync_interval = DefaultNodeSyncInterval\<rparr>"

definition node_streams :: stream_registry where
  "node_streams = \<lparr>queueSize = DefaultNodeStreamQueueSize, messageSeq = 0, objs = (\<lambda>_. None), streams = []\<rparr>"

definition fresh_server :: "string \<Rightarrow> server" where
  "fresh_server sock = \<lparr>socketPath = socketPathFromEnv sock, listening = False, listener_open = False, closed = False, active = {}, waiting = {},
     open_conns = {}, socket_file = False\<rparr>"

lemma Listen_fresh:
  "(\<exists>s. Listen env (fresh_server sock) = (s, None)) \<longleftrightarrow>
     mkdir_ok env \<and> fst (removeStaleSocket env) = None \<and> listen_ok env \<and> chmod_ok env"
  "Listen env (fresh_server sock) = (s, None) \<Longrightarrow> listening s \<and> \<not> closed s \<and> active s = {}"
  by (auto simp: fresh_server_def Listen_def split: if_splits option.splits prod.splits)

lemma main_serve_cases:
  "main_serve handle cache_of e l c r y reg x =
    (case NewService True reg x (me_sha256 e) (me_euid e) (me_user e) of None \<Rightarrow> Inl MainService
     | Some s \<Rightarrow>
       (case Listen (me_path e) (fresh_server (me_socket e)) of (_, Some err) \<Rightarrow> Inl (MainListen err)
        | (srv, None) \<Rightarrow> Inr \<lparr>dm_ledger = l, dm_cache = c, dm_streams = r, dm_synchronizer = y, dm_service = SetNodeRefresh s,
            dm_dispatcher = daemon_dispatcher (me_printable e) cache_of (main_resolver e) (handle (SetNodeRefresh s)), dm_server = srv\<rparr>))"
  by (simp add: main_serve_def fresh_server_def executor_Identity_def RegisterAuthenticated_def daemon_dispatcher_def NewServerWithDispatcher_def
      Let_def split: option.split prod.split)

text \<open>After the ledger, the start comes down to three answers.\<close>

lemma main_cases:
  assumes "Open (me_open e) (me_abs e) DefaultPath d = (d1, Inr l)"
  shows "main handle cache_of e d = (d1,
    case first_refresh e node_sync node_streams of (_, Some err) \<Rightarrow> Inl (MainRefresh err)
    | ((c, r'), None) \<Rightarrow>
      (case NewDBusExecutor (me_account e) (me_bus e) of Inl err \<Rightarrow> Inl (MainExecutor err)
       | Inr x \<Rightarrow> main_serve handle cache_of e l c r' node_sync
           [(OperationNodeDrain, drain_entry), (OperationNodeResume, resume_entry)] x))"
proof -
  have "NewNodeStreamRegistry True DefaultNodeStreamQueueSize = Inr node_streams" "NewNodeSynchronizer True True DefaultNodeSyncInterval = Inr node_sync"
    by (simp_all add: NewNodeStreamRegistry_def NewNodeSynchronizer_def node_sync_def node_streams_def DefaultNodeStreamQueueSize_def DefaultNodeSyncInterval_def)
  then show ?thesis unfolding main_def assms NewNodeRegistry_ok by (simp split: option.split prod.split)
qed

lemma main_serve_Inr:
  "main_serve handle cache_of e l c r y reg x = Inr p \<longleftrightarrow>
    (\<exists>name s srv. me_user e (dec (unat (me_euid e))) = Some name \<and> name \<noteq> [] \<and>
       s = \<lparr>svc_registry = reg, svc_identity = x, has_refresh = True, svc_uid = me_euid e, svc_user = name, hash = me_sha256 e\<rparr> \<and>
       Listen (me_path e) (fresh_server (me_socket e)) = (srv, None) \<and>
       p = \<lparr>dm_ledger = l, dm_cache = c, dm_streams = r, dm_synchronizer = y, dm_service = s,
            dm_dispatcher = daemon_dispatcher (me_printable e) cache_of (main_resolver e) (handle s), dm_server = srv\<rparr>)"
  by (auto simp: main_serve_cases NewService_iff SetNodeRefresh_def split: option.splits prod.splits)

lemma main_Inr:
  assumes "Open (me_open e) (me_abs e) DefaultPath d = (d1, Inr l)"
  shows "snd (main handle cache_of e d) = Inr p \<longleftrightarrow>
    (\<exists>c r' x. first_refresh e node_sync node_streams = ((c, r'), None) \<and>
       NewDBusExecutor (me_account e) (me_bus e) = Inr x \<and>
       main_serve handle cache_of e l c r' node_sync
         [(OperationNodeDrain, drain_entry), (OperationNodeResume, resume_entry)] x = Inr p)"
  unfolding main_cases [OF assms] by (auto split: prod.splits option.splits sum.splits)

lemma main_starts: "(\<exists>p. snd (main handle cache_of e d) = Inr p) \<longleftrightarrow> can_start e d"
proof (cases "snd (Open (me_open e) (me_abs e) DefaultPath d)")
  case (Inl err)
  then show ?thesis by (auto simp: main_def can_start_def split: prod.splits)
next
  case (Inr l)
  then obtain d1 where o: "Open (me_open e) (me_abs e) DefaultPath d = (d1, Inr l)" by (metis prod.collapse)
  have r: "(\<exists>c r'. first_refresh e y q = ((c, r'), None)) \<longleftrightarrow> (\<exists>ns. lists_valid_nodes e ns)" for y q
    using first_refresh_error [of e y q] by (metis prod.collapse snd_conv)
  show ?thesis
    unfolding main_Inr [OF o] main_serve_Inr can_start_def Listen_fresh(1) [of "me_path e" "me_socket e", symmetric] NewDBusExecutor_iff
    using o r [of "node_sync" "node_streams"]
    by simp blast
qed

lemma main_ready:
  assumes "rows_ok (rows d)" "main handle cache_of e d = (d', Inr p)"
  shows "daemon_ready handle cache_of e p \<and> d' = ldb (dm_ledger p)"
proof -
  obtain l where o: "Open (me_open e) (me_abs e) DefaultPath d = (d', Inr l)"
    using assms(2) by (auto simp: main_def split: prod.splits sum.splits)
  have "snd (main handle cache_of e d) = Inr p" using assms(2) by simp
  from this [unfolded main_Inr [OF o]] obtain c r' x where *:
    "first_refresh e node_sync node_streams = ((c, r'), None)"
    "main_serve handle cache_of e l c r' node_sync [(OperationNodeDrain, drain_entry), (OperationNodeResume, resume_entry)] x = Inr p"
    by blast
  obtain ns where ns: "lists_valid_nodes e ns" "streams r' = []" "\<And>i. rel_option sameNodeState (map_of (cached c) i) (tab_find Identity i ns)"
    by (rule first_refresh_nodes [OF *(1)]) (auto simp: node_streams_def)
  have "queueSize r' = 32"
    using *(1) by (auto simp: node_streams_def DefaultNodeStreamQueueSize_def first_refresh_def Refresh_def ReplaceSnapshotAndPublish_def Publish_def eventEnvelope_def nextMessageID_def
        Let_def case_prod_beta split: sum.splits if_splits option.splits)
  then show ?thesis
    using *(2) ns Open_ready [OF o assms(1)] Open_db [OF o] Listen_fresh(2) [of "me_path e" "me_socket e"]
    by (auto simp: main_serve_Inr daemon_ready_def QueueSize_def NewNodeRegistry_ok node_sync_def DefaultNodeSyncInterval_def)
qed

text \<open>
  C11: The daemon starts exactly when it can, and then all its parts are in the state that the others
  rely on. It starts if and only if the ledger opens, Slurm lists valid nodes, the helper's account and
  the bus are there, the daemon's own user has a name, and the socket path is free or stale. Then the
  ledger is valid, unblocked and without interrupted commands, the cache holds exactly the listed
  nodes, no stream is registered, the command service has the registry of node operations, the
  dispatcher is the one with the four handlers and the command service, and the server listens. From
  there, in every run within one retention period, restarts included, no command is executed twice.\<close>

theorem daemon_starts_ready:
  assumes "rows_ok (rows d)" "main handle cache_of e d = (d', res)"
  shows "(isl res \<longleftrightarrow> \<not> can_start e d) \<and>
    (\<forall>p. res = Inr p \<longrightarrow> daemon_ready handle cache_of e p \<and> d' = ldb (dm_ledger p) \<and>
       (\<forall>T s k. sys_run sqlite_ops (call_env T) (start_ok T) (dm_service p) (initial (dm_ledger p)) s \<longrightarrow>
          executions k (sys_log s) \<le> 1))"
proof (intro conjI allI impI)
  show "isl res \<longleftrightarrow> \<not> can_start e d"
    using main_starts [of handle cache_of e d] assms(2) by (cases res) auto
next
  fix p
  assume p: "res = Inr p"
  with assms show r: "daemon_ready handle cache_of e p" "d' = ldb (dm_ledger p)" using main_ready by blast+
  fix T s k
  assume "sys_run sqlite_ops (call_env T) (start_ok T) (dm_service p) (initial (dm_ledger p)) s"
  with r(1) show "executions k (sys_log s) \<le> 1" unfolding daemon_ready_def using sqlite.at_most_once by blast
qed

definition sample_main_env :: main_env where
  "sample_main_env = \<lparr>me_open = quiet_open 9, me_abs = id,
     me_exec = (\<lambda>_ _. Some (json_text (nodes_document [sample_slurm_node]))), me_nows = (\<lambda>_. ''t''), me_now = ''t'', me_signal = False,
     me_account = (\<lambda>_. Some (''7'', ''slurm'')), me_bus = True, me_euid = 201, me_user = (\<lambda>_. Some ''cockpit-slurm''),
     me_sha256 = id, me_printable = (\<lambda>_. True), me_socket = [],
     me_path = \<lparr>mkdir_ok = True, lstat_of = NotExist, dial_of = DialRefused, remove_ok = True, listen_ok = True, chmod_ok = True\<rparr>\<rparr>"

lemma sample_can_start: "can_start sample_main_env (ldb (sample_ledger []))"
proof -
  have "ListNodes (\<lambda>_ _. Some (json_text (nodes_document [sample_slurm_node]))) (\<lambda>_. ''t'') = Inr [MapSlurmNode ''t'' sample_slurm_node]"
    using ListNodes_document [OF sample_slurm_node_ok, of "\<lambda>_ _. Some (json_text (nodes_document [sample_slurm_node]))" "\<lambda>_. ''t''"]
    by (simp add: enumerate_eq_zip)
  moreover have "Identity (MapSlurmNode ''t'' sample_slurm_node) \<noteq> []" by (simp add: sample_slurm_node_def) code_simp
  moreover have "\<exists>l. snd (Open (quiet_open 9) id DefaultPath (ldb (sample_ledger []))) = Inr l"
    by (simp add: Open_def quiet_open_def configure_def migrate_def migrate_loop.simps SchemaVersion_def
        integrityCheck_def recoverInterrupted_def purgeExpired_def sql_update_def sql_delete_expired_def Let_def)
  moreover have "undec ''7'' = 7" "list_all (\<lambda>c. is_digit (byte_of c)) ''7''" by code_simp+
  then have "ParseUint32 ''7'' \<noteq> None" by (simp add: ParseUint32_def)
  ultimately show ?thesis
    by (auto simp: can_start_def lists_valid_nodes_def sample_main_env_def removeStaleSocket_def)
qed

theorem daemon_starts_ready_witness:
  "(\<exists>d' p. main (\<lambda>_. rejecting_handler) (\<lambda>_. NewNodeCache) sample_main_env (ldb (sample_ledger [])) = (d', Inr p) \<and>
      listening (dm_server p) \<and> \<not> blocked (dm_ledger p)) \<and>
   (\<exists>d' err. main (\<lambda>_. rejecting_handler) (\<lambda>_. NewNodeCache) (sample_main_env\<lparr>me_bus := False\<rparr>) (ldb (sample_ledger [])) = (d', Inl err))"
proof -
  have rows: "rows_ok (rows (ldb (sample_ledger [])))" by (simp add: sample_ledger_def rows_ok_def)
  note can = sample_can_start
  have cannot: "\<not> can_start (sample_main_env\<lparr>me_bus := False\<rparr>) (ldb (sample_ledger []))" by (simp add: can_start_def)
  obtain d1 r1 d2 r2 where m: "main (\<lambda>_. rejecting_handler) (\<lambda>_. NewNodeCache) sample_main_env (ldb (sample_ledger [])) = (d1, r1)"
    "main (\<lambda>_. rejecting_handler) (\<lambda>_. NewNodeCache) (sample_main_env\<lparr>me_bus := False\<rparr>) (ldb (sample_ledger [])) = (d2, r2)"
    by (metis surj_pair)
  from daemon_starts_ready [OF rows m(1)] can daemon_starts_ready [OF rows m(2)] cannot m show ?thesis
    by (cases r1; cases r2) (auto simp: daemon_ready_def)
qed

end
