(* ===== verification/Daemon_Requests.thy ===== *)
theory Daemon_Requests
  imports Daemon_Props Ipc_Server_Props
begin

text \<open>
  The started daemon and one of its connections together: from the credentials of the peer and the
  bytes on the socket to the handler that changes the daemon's state.
\<close>

section \<open>The handlers are fixed\<close>

definition same_handlers :: "'s dispatcher \<Rightarrow> 's dispatcher \<Rightarrow> bool" where
  "same_handlers d d' \<longleftrightarrow> handlers d' = handlers d \<and> authenticatedHandlers d' = authenticatedHandlers d"

lemma same_handlers_trans: "same_handlers d d1 \<Longrightarrow> same_handlers d1 d2 \<Longrightarrow> same_handlers d d2"
  by (simp add: same_handlers_def)

lemma dispatch_same_handlers: "same_handlers d (fst (fst (dispatch now u m (d, st))))"
  by (auto simp: dispatch_def same_handlers_def dispatcher_errorEnvelope_def dispatcher_nextMessageID_def Let_def
      split: option.splits prod.splits)

text \<open>What one dispatch through the replay cache does.\<close>

lemma loop_dispatch_cases:
  assumes "loop_dispatch sha256 now m (c, d, st) = (c', d', st')"
  obtains (kept) "d' = d" "st' = st"
  | (ran) e where "map_of (cn_replay c) (MessageID m) = None" "dispatch now (Some (cn_user c)) m (d, st) = ((d', st'), e)"
      "produced c' = [e]"
  using assms
  by (auto simp: loop_dispatch_def replay_Dispatch_def DispatchWithUser_def produced_def Let_def
      split: option.splits if_splits prod.splits)

lemma conn_step_handlers: "conn_step sha256 y y' \<Longrightarrow> same_handlers (fst (daemon y)) (fst (daemon y'))"
proof (induction rule: conn_step.induct)
  case (dispatch y m now c' w')
  then have "loop_dispatch sha256 now m (run y, fst (daemon y), snd (daemon y)) = (c', fst w', snd w')" by simp
  then show ?case
  proof (cases rule: loop_dispatch_cases)
    case kept
    then show ?thesis by (simp add: same_handlers_def)
  next
    case (ran e)
    then show ?thesis using dispatch_same_handlers [of "fst (daemon y)" now "Some (cn_user (run y))" m "snd (daemon y)"] by simp
  qed
qed (auto simp: same_handlers_def enters_def)

lemma conn_reachable_handlers:
  "(conn_step sha256)\<^sup>*\<^sup>* y0 y \<Longrightarrow> same_handlers (fst (daemon y0)) (fst (daemon y))"
proof (induction rule: rtranclp_induct)
  case (step y1 y2)
  then show ?case using conn_step_handlers same_handlers_trans by blast
qed (simp add: same_handlers_def)

text \<open>Of the daemon's handlers only that of commands changes the state.\<close>

lemma daemon_dispatch_state:
  assumes "same_handlers (daemon_dispatcher printable cache resolver h) d" "dispatch now (Some u) m (d, st) = ((d', st'), e)" "st' \<noteq> st"
  shows "MsgType m = MessageCommand \<and> Username u \<noteq> [] \<and> h now u m st = (st', e)"
proof -
  have "handlers d = handlers (daemon_dispatcher printable cache resolver h)"
    "authenticatedHandlers d = authenticatedHandlers (daemon_dispatcher printable cache resolver h)"
    using assms(1) by (simp_all add: same_handlers_def)
  with assms(2,3) show ?thesis
    using QueryHandler_answers(2) [where msg = m and now = now and st = st] CapabilitiesHandler_answers(2) [where msg = m and now = now and st = st]
    by (auto simp: dispatch_def daemon_handlers helloHandler_Handle_def pingHandler_Handle_def Let_def case_prod_beta
        split: if_splits option.splits)
qed

text \<open>
  C4: The only thing that a connection ever does to the state of a started daemon is to run the command
  handler as the peer that the kernel named. Take a daemon that has started and a connection whose
  serving began, and let the loop, the writer, the node streams and all other connections run in any
  order: when the loop dispatches a message that changes the daemon's state, the message is a command whose identifier
  the connection has not used before, the command service of the daemon handled it with the
  credentials and the user name of the peer of this very socket, and the answer is the command service's.\<close>

theorem connection_acts_as_peer:
  assumes "rows_ok (rows d)" "main handle cache_of e d = (d', Inr p)"
    "serve_start pick now a i (Some env) rand1 rand2 input bad cache r m = Some (r', m', Some c)" "manager_ok m" "objects m a = None"
    "run y0 = c" "fst (daemon y0) = dm_dispatcher p" "(conn_step sha256)\<^sup>*\<^sup>* y0 y"
    "cn_phase (run y) = Dispatching msg" "loop_dispatch sha256 now' msg (run y, daemon y) = (c', w')" "snd w' \<noteq> snd (daemon y)"
  shows "\<exists>cc answer. objects m' a = Some cc \<and> from_kernel env cc \<and> Username (User cc) \<noteq> [] \<and>
    MsgType msg = MessageCommand \<and> map_of (cn_replay (run y)) (MessageID msg) = None \<and>
    handle (dm_service p) now' (User cc) msg (snd (daemon y)) = (snd w', answer) \<and> produced c' = [answer]"
proof -
  obtain cc where cc: "objects m' a = Some cc" "from_kernel env cc" "cn_user c = User cc"
    using assms(3)
  proof (cases rule: serve_start_cases)
    case (served cc c1)
    then have "objects m' a = Some cc" using objects_of(1) [of a "alloc a cc m"] by (simp add: alloc_def)
    with served that show thesis using NewConnection_from_kernel by simp
  qed simp_all
  have user: "cn_user (run y) = User cc" using user_reachable [OF assms(8)] assms(6) cc(3) by simp
  have "dm_dispatcher p = daemon_dispatcher (me_printable e) cache_of (main_resolver e) (handle (dm_service p))"
    using main_ready [OF assms(1,2)] by (simp add: daemon_ready_def)
  then have same: "same_handlers (daemon_dispatcher (me_printable e) cache_of (main_resolver e) (handle (dm_service p))) (fst (daemon y))"
    using conn_reachable_handlers [OF assms(8)] assms(7) by simp
  have "loop_dispatch sha256 now' msg (run y, fst (daemon y), snd (daemon y)) = (c', fst w', snd w')" using assms(10) by simp
  then show ?thesis
  proof (cases rule: loop_dispatch_cases)
    case (ran answer)
    then show ?thesis using daemon_dispatch_state [OF same ran(2) assms(11)] cc user by auto
  qed (use assms(11) in simp)
qed

text \<open>A daemon whose command handler counts the commands, and a peer that sends one.\<close>

definition counting_handler :: "nat authenticated_handler" where
  "counting_handler now u msg st = (Suc st, NewErrorEnvelope now (MessageID msg)
     (errorPayload CodeInvalidPayload CatValidation ''Invalid Node command payload'' False []))"

definition command_envelope :: envelope where
  "command_envelope = NewEnvelope ''2026-01-01T00:00:00Z'' ''m2'' MessageCommand (Some (json_text (JObj [])))"

definition command_frame :: bytes where
  "command_frame = PutUint32 (length (json_text (envelope_json command_envelope (JObj [])))) @
     json_text (envelope_json command_envelope (JObj []))"

lemmas command_eval = command_envelope_def NewEnvelope_def ValidateEnvelope_def ProtocolName_def ProtocolVersion_def
  IsKnown_def envelope_utf8_def max_depth_def MaxPayloadSize_def text_eval

lemma command_frame_decodes: "Decode \<lparr>incoming = command_frame, broken = b\<rparr> = (\<lparr>incoming = [], broken = b\<rparr>, command_envelope, Inr ())"
proof -
  have "decode_payload (json_text (envelope_json command_envelope (JObj []))) = (command_envelope, ValidateEnvelope command_envelope)"
    by (rule decode_payload_text) (simp_all add: command_eval)
  then show ?thesis
    by (subst Decode_frame [where p = "json_text (envelope_json command_envelope (JObj []))" and rest = "[]"])
       (simp_all add: command_frame_def command_eval)
qed

lemma command_print: "\<exists>f. requestFingerprint sha256 command_envelope = Some f"
proof -
  have "read_value (json_text (JObj [])) = Some (JObj [], [])" using read_value_json_text [of "JObj []" "[]"] by simp
  then show ?thesis by (simp add: requestFingerprint_def command_envelope_def NewEnvelope_def max_depth_def del: json_text.simps)
qed

theorem connection_acts_as_peer_witness:
  "\<exists>p (y :: nat conn_sys) cc. snd (main (\<lambda>_. counting_handler) (\<lambda>_. NewNodeCache) sample_main_env (ldb (sample_ledger []))) = Inr p \<and>
     cn_phase (run y) = Dispatching command_envelope \<and> fst (daemon y) = dm_dispatcher p \<and> from_kernel sample_socket cc \<and>
     cn_user (run y) = User cc \<and> snd (snd (loop_dispatch id ''t'' command_envelope (run y, daemon y))) = 1"
proof -
  obtain p where p: "snd (main (\<lambda>_. counting_handler) (\<lambda>_. NewNodeCache) sample_main_env (ldb (sample_ledger []))) = Inr p"
    using main_starts [of "\<lambda>_. counting_handler" "\<lambda>_. NewNodeCache"] sample_can_start by blast
  then obtain d' where m: "main (\<lambda>_. counting_handler) (\<lambda>_. NewNodeCache) sample_main_env (ldb (sample_ledger [])) = (d', Inr p)"
    by (metis prod.collapse)
  have rows: "rows_ok (rows (ldb (sample_ledger [])))" by (simp add: sample_ledger_def rows_ok_def)
  obtain cc where cc: "NewConnection (Some sample_socket) (Some []) (Some []) = Some (Inr cc)" "Username (User cc) \<noteq> []"
    by (auto simp: NewConnection_def sample_socket_def newID_def mustNewID_def peerIdentity_def peerIdentityForCredentials_def
        peer_user_def Let_def)
  obtain m' where "Register (Some 7) (alloc 7 cc NewConnectionManager) = (m', Inr ())"
    by (auto simp: Register_def alloc_def NewConnectionManager_def Get_def)
  with cc obtain c where s: "serve_start True ''t'' 7 0 (Some sample_socket) (Some []) (Some []) command_frame False NewNodeCache None NewConnectionManager =
      Some (None, m', Some c)" and c: "cn_user c = User cc" "cn_phase c = Reading" "\<not> ob_cancelled (cn_out c)" "cn_replay c = []"
      "cn_in c = \<lparr>incoming = command_frame, broken = False\<rparr>" by (simp add: serve_start_def)
  define y0 where "y0 = \<lparr>run = c, daemon = (dm_dispatcher p, 0), history = [], answers = []\<rparr>"
  define y where "y = y0\<lparr>run := with_message command_envelope \<lparr>incoming = [], broken = False\<rparr> c\<rparr>"
  have y: "run y0 = c" "daemon y0 = (dm_dispatcher p, 0)" "daemon y = (dm_dispatcher p, 0)"
    "run y = with_message command_envelope \<lparr>incoming = [], broken = False\<rparr> c" by (simp_all add: y0_def y_def)
  have reach: "(conn_step id)\<^sup>*\<^sup>* y0 y"
    using loop_reads_frame [of y0 "\<lparr>incoming = [], broken = False\<rparr>" command_envelope id] c by (simp add: y y_def command_frame_decodes)
  have "dm_dispatcher p = daemon_dispatcher (me_printable sample_main_env) (\<lambda>_. NewNodeCache) (main_resolver sample_main_env) counting_handler"
    using main_ready [OF rows m] by (simp add: daemon_ready_def)
  moreover obtain f where "requestFingerprint id command_envelope = Some f" using command_print by blast
  ultimately have ran: "snd (snd (loop_dispatch id ''t'' command_envelope (run y, daemon y))) = 1"
    using c cc by (simp add: y loop_dispatch_def replay_Dispatch_def with_message_def maxCachedRequestsPerConnection_def DispatchWithUser_def
        dispatch_def daemon_handlers counting_handler_def command_envelope_def NewEnvelope_def ProtocolName_def ProtocolVersion_def blen_0_iff Let_def)
  obtain c1 w1 where D: "loop_dispatch id ''t'' command_envelope (run y, daemon y) = (c1, w1)" by (rule prod.exhaust)
  with ran have "snd w1 \<noteq> snd (daemon y)" by (simp add: y)
  moreover have "manager_ok NewConnectionManager" "objects NewConnectionManager 7 = None"
    by (simp_all add: manager_ok_def NewConnectionManager_def)
  ultimately obtain cc' where "objects m' 7 = Some cc'" "from_kernel sample_socket cc'"
    using connection_acts_as_peer [OF rows m s _ _ _ _ reach _ D] by (auto simp: y with_message_def)
  moreover have "cn_phase (run y) = Dispatching command_envelope" "fst (daemon y) = dm_dispatcher p" "cn_user (run y) = User cc"
    by (simp_all add: y with_message_def c)
  ultimately show ?thesis using p D ran NewConnection_from_kernel [OF cc(1)] by blast
qed

end
