(* ===== verification/Daemon_Site.thy ===== *)
theory Daemon_Site
  imports Daemon_Requests
begin

text \<open>
  The whole daemon at work: any number of connections with their loops and writers, the command requests
  that they bring, each handled call by call over the one ledger, and restarts, all interleaved. What
  is executed on a node is followed back to the process at the other end of a socket.
\<close>

section \<open>A dispatch in two halves\<close>

lemma replay_Dispatch_halves:
  "replay_Dispatch sha256 now message run_dispatch (entries, w) =
     (case replay_begin sha256 now message entries of
        Inl (response, close) \<Rightarrow> ((entries, w), response, close)
      | Inr fingerprint \<Rightarrow>
        (let (w', response) = run_dispatch w in ((replay_end fingerprint message response entries, w'), response, False)))"
  by (auto simp: replay_Dispatch_def replay_begin_def replay_end_def split: option.splits)

text \<open>
  The fingerprint under which a message of a connection is handled by the command service; \<open>None\<close> when
  it is answered without it.
\<close>

definition to_service :: "(bytes \<Rightarrow> bytes) \<Rightarrow> envelope \<Rightarrow> conn_run \<Rightarrow> bytes option" where
  "to_service sha256 m c =
     (if MsgType m = MessageCommand \<and> Protocol m = ProtocolName \<and> Version m = ProtocolVersion \<and> MessageID m \<noteq> [] \<and>
         blen (Payload m) \<noteq> 0 \<and> Username (cn_user c) \<noteq> []
      then (case replay_begin sha256 [] m (cn_replay c) of Inl _ \<Rightarrow> None | Inr fingerprint \<Rightarrow> Some fingerprint)
      else None)"

lemma replay_begin_Inr: "replay_begin sha256 now m entries = Inr f \<longleftrightarrow> replay_begin sha256 now' m entries = Inr f"
  by (auto simp: replay_begin_def split: option.splits if_splits)

definition answered_run :: "bytes \<Rightarrow> envelope \<Rightarrow> envelope \<Rightarrow> conn_run \<Rightarrow> conn_run" where
  "answered_run fingerprint m e c = c\<lparr>cn_replay := replay_end fingerprint m e (cn_replay c), cn_phase := Answering e False\<rparr>"

text \<open>The dispatch of such a message is the call of the handler between the two halves.\<close>

lemma to_service_dispatch:
  assumes "to_service sha256 m c = Some f" "authenticatedHandlers d MessageCommand = Some h"
  shows "loop_dispatch sha256 now m (c, d, st) =
    (let (st', e) = h now (cn_user c) m st in (answered_run f m e c, d, st'))"
proof -
  have r: "replay_begin sha256 now m (cn_replay c) = Inr f"
    using assms(1) replay_begin_Inr [of sha256 "[]" m "cn_replay c" f now] by (auto simp: to_service_def split: if_splits sum.splits)
  have "DispatchWithUser now (cn_user c) m (d, st) = (let (st', e) = h now (cn_user c) m st in ((d, st'), e))"
    using assms by (auto simp: to_service_def DispatchWithUser_def dispatch_def Let_def split: if_splits)
  with r show ?thesis by (simp add: loop_dispatch_def replay_Dispatch_halves answered_run_def Let_def case_prod_beta)
qed

text \<open>A message that is not for the command service does not change what the dispatcher works on.\<close>

lemma not_to_service_dispatch:
  assumes "to_service sha256 m c = None" "same_handlers (daemon_dispatcher printable cache resolver h) d"
    "loop_dispatch sha256 now m (c, d, st) = (c', d', st')"
  shows "st' = st"
proof (rule ccontr)
  assume n: "st' \<noteq> st"
  from assms(3) show False
  proof (cases rule: loop_dispatch_cases)
    case (ran e)
    have "MsgType m = MessageCommand" "Username (cn_user c) \<noteq> []" "h now (cn_user c) m st = (st', e)"
      using daemon_dispatch_state [OF assms(2) ran(2) n] by simp_all
    moreover have "Protocol m = ProtocolName \<and> Version m = ProtocolVersion \<and> MessageID m \<noteq> [] \<and> blen (Payload m) \<noteq> 0"
      using ran(2) n by (auto simp: dispatch_def Let_def case_prod_beta split: if_splits)
    ultimately obtain x where x: "replay_begin sha256 [] m (cn_replay c) = Inl x"
      using assms(1) by (auto simp: to_service_def split: if_splits sum.splits)
    obtain x' where "replay_begin sha256 now m (cn_replay c) = Inl x'"
      using replay_begin_Inr [of sha256 "[]" m "cn_replay c" _ now] x by (cases "replay_begin sha256 now m (cn_replay c)") auto
    with assms(3) n show False by (auto simp: loop_dispatch_def replay_Dispatch_halves Let_def split: prod.splits)
  qed (use n in simp)
qed

section \<open>The site\<close>

text \<open>
  \<open>si_conns\<close> are the connections by number, each with its socket; a request runs as the task of the
  same number, while the loop of its connection waits for it. \<open>si_asked\<close> remembers every request: the
  socket, the user and the message. \<open>D\<close> is the dispatcher of the daemon, which here reads the node cache.
\<close>

record site =
  si_sys :: "ledger system"
  si_conns :: "nat \<Rightarrow> (socket_env \<times> node_cache conn_sys) option"
  si_asked :: "(socket_env \<times> user_context \<times> envelope) set"

definition opened :: "conn_run \<Rightarrow> node_cache dispatcher \<Rightarrow> node_cache \<Rightarrow> node_cache conn_sys" where
  "opened c D cache = \<lparr>run = c, daemon = (D, cache), history = map (Pair False) (ob_queue (cn_out c)), answers = []\<rparr>"

inductive site_step ::
  "(bytes \<Rightarrow> bytes) \<Rightarrow> node_cache dispatcher \<Rightarrow> int \<Rightarrow> service \<Rightarrow> site \<Rightarrow> site \<Rightarrow> bool" for sha256 D T svc where
  open_conn: "si_conns x i = None \<Longrightarrow> sys_tasks (si_sys x) i = None \<Longrightarrow>
    serve_start pick now a j (Some env) rand1 rand2 input bad cache r m = Some (r', m', Some c) \<Longrightarrow>
    site_step sha256 D T svc x (x\<lparr>si_conns := (si_conns x)(i \<mapsto> (env, opened c D cache))\<rparr>)"
| inner: "si_conns x i = Some (env, y) \<Longrightarrow> conn_step sha256 y y' \<Longrightarrow>
    (\<And>m. cn_phase (run y) = Dispatching m \<Longrightarrow> cn_phase (run y') \<noteq> Dispatching m \<Longrightarrow>
      sys_tasks (si_sys x) i = None \<and> to_service sha256 m (run y) = None) \<Longrightarrow>
    site_step sha256 D T svc x (x\<lparr>si_conns := (si_conns x)(i \<mapsto> (env, y'))\<rparr>)"
| ask: "si_conns x i = Some (env, y) \<Longrightarrow> cn_phase (run y) = Dispatching m \<Longrightarrow> to_service sha256 m (run y) = Some f \<Longrightarrow>
    sys_up (si_sys x) \<Longrightarrow> sys_tasks (si_sys x) i = None \<Longrightarrow>
    t = \<lparr>t_requester = cn_user (run y), t_message = m, t_prog = Handle n svc (cn_user (run y)) m\<rparr> \<Longrightarrow>
    site_step sha256 D T svc x (x\<lparr>si_sys := (si_sys x)\<lparr>sys_tasks := (sys_tasks (si_sys x))(i \<mapsto> t)\<rparr>,
      si_asked := insert (env, cn_user (run y), m) (si_asked x)\<rparr>)"
| work: "tick sqlite_ops (call_env T) svc i (si_sys x) s' \<Longrightarrow> site_step sha256 D T svc x (x\<lparr>si_sys := s'\<rparr>)"
| reply: "sys_tasks (si_sys x) i = Some t \<Longrightarrow> t_prog t = Return e \<Longrightarrow> si_conns x i = Some (env, y) \<Longrightarrow>
    to_service sha256 (t_message t) (run y) = Some f \<Longrightarrow>
    site_step sha256 D T svc x (x\<lparr>si_sys := (si_sys x)\<lparr>sys_tasks := (sys_tasks (si_sys x))(i := None),
        sys_log := sys_log (si_sys x) @ [EvRespond (t_message t) e]\<rparr>,
      si_conns := (si_conns x)(i \<mapsto> (env, y\<lparr>run := answered_run f (t_message t) e (run y), answers := answers y @ [e]\<rparr>))\<rparr>)"
| gone: "si_conns x i = Some (env, y) \<Longrightarrow> cn_phase (run y) = Ended \<Longrightarrow> cn_writer (run y) = Stopped \<Longrightarrow>
    site_step sha256 D T svc x (x\<lparr>si_conns := (si_conns x)(i := None)\<rparr>)"
| restart_daemon: "start_ok T o' \<Longrightarrow> op_start sqlite_ops o' (sys_ledger (si_sys x)) = (l', ok) \<Longrightarrow>
    site_step sha256 D T svc x (x\<lparr>si_sys := (si_sys x)\<lparr>sys_ledger := l', sys_up := ok, sys_locks := {}, sys_tasks := (\<lambda>_. None),
        sys_log := sys_log (si_sys x) @ [EvStart]\<rparr>, si_conns := (\<lambda>_. None)\<rparr>)"

definition site_start :: "ledger \<Rightarrow> site" where
  "site_start l = \<lparr>si_sys = initial l, si_conns = (\<lambda>_. None), si_asked = {}\<rparr>"

section \<open>From an execution back to a socket\<close>

definition origin :: "site \<Rightarrow> ckey \<Rightarrow> operation_id \<Rightarrow> string \<Rightarrow> string \<Rightarrow> bool" where
  "origin x k opn node reason \<longleftrightarrow> (\<exists>env r m dn. (env, r, m) \<in> si_asked x \<and> task_key r m = k \<and> requested m opn node reason \<and>
     EvAuthorize r opn (Inr dn) \<in> set (sys_log (si_sys x)) \<and> granted r (Inr dn))"

definition task_waits :: "site \<Rightarrow> nat \<Rightarrow> task \<Rightarrow> bool" where
  "task_waits x i t \<longleftrightarrow> (\<exists>env y. si_conns x i = Some (env, y) \<and> cn_user (run y) = t_requester t \<and>
     cn_phase (run y) = Dispatching (t_message t) \<and> (env, t_requester t, t_message t) \<in> si_asked x)"

definition peers_ok :: "site \<Rightarrow> bool" where
  "peers_ok x \<longleftrightarrow> (\<forall>i env y. si_conns x i = Some (env, y) \<longrightarrow> kernel_peer env (cn_user (run y))) \<and>
     (\<forall>(env, r, m) \<in> si_asked x. kernel_peer env r)"

definition site_inv :: "ledger \<Rightarrow> int \<Rightarrow> service \<Rightarrow> site \<Rightarrow> bool" where
  "site_inv l T svc x \<longleftrightarrow> sys_run sqlite_ops (call_env T) (start_ok T) svc (initial l) (si_sys x) \<and>
     (\<forall>i t. sys_tasks (si_sys x) i = Some t \<longrightarrow> task_waits x i t) \<and> peers_ok x \<and>
     (\<forall>k opn node reason. EvExecute k opn node reason \<in> set (sys_log (si_sys x)) \<longrightarrow> origin x k opn node reason)"

lemma site_invD:
  assumes "site_inv l T svc x"
  shows "sys_run sqlite_ops (call_env T) (start_ok T) svc (initial l) (si_sys x)"
    "\<And>i t. sys_tasks (si_sys x) i = Some t \<Longrightarrow> task_waits x i t" "peers_ok x"
    "\<And>k opn node reason. EvExecute k opn node reason \<in> set (sys_log (si_sys x)) \<Longrightarrow> origin x k opn node reason"
  using assms by (auto simp: site_inv_def)

lemma origin_mono:
  "origin x k opn node reason \<Longrightarrow> si_asked x \<subseteq> si_asked x' \<Longrightarrow> set (sys_log (si_sys x)) \<subseteq> set (sys_log (si_sys x')) \<Longrightarrow>
   origin x' k opn node reason"
  unfolding origin_def by blast

text \<open>Steps that execute nothing.\<close>

lemma site_inv_quiet:
  assumes "site_inv l T svc x" "sys_run sqlite_ops (call_env T) (start_ok T) svc (si_sys x) (si_sys x')"
    "\<And>i t. sys_tasks (si_sys x') i = Some t \<Longrightarrow> task_waits x' i t" "peers_ok x'" "si_asked x \<subseteq> si_asked x'"
    "set (sys_log (si_sys x)) \<subseteq> set (sys_log (si_sys x'))"
    "\<And>k opn node reason. EvExecute k opn node reason \<in> set (sys_log (si_sys x')) \<Longrightarrow> EvExecute k opn node reason \<in> set (sys_log (si_sys x))"
  shows "site_inv l T svc x'"
  unfolding site_inv_def
proof (intro conjI allI impI)
  show "sys_run sqlite_ops (call_env T) (start_ok T) svc (initial l) (si_sys x')"
    using sys_run_trans [OF assms(2) site_invD(1) [OF assms(1)]] .
  fix k opn node reason assume "EvExecute k opn node reason \<in> set (sys_log (si_sys x'))"
  from origin_mono [OF site_invD(4) [OF assms(1) assms(7) [OF this]] assms(5,6)] show "origin x' k opn node reason" .
qed (use assms(3,4) in blast)+

lemma task_waits_other:
  assumes "task_waits x j t" "si_asked x' = si_asked x \<or> (\<exists>a. si_asked x' = insert a (si_asked x))" "si_conns x' j = si_conns x j"
  shows "task_waits x' j t"
  using assms unfolding task_waits_def by (metis insertCI)

lemma serve_start_peer:
  assumes "serve_start pick now a j (Some env) rand1 rand2 input bad cache r m = Some (r', m', Some c)"
  shows "kernel_peer env (cn_user c)"
  using assms
proof (cases rule: serve_start_cases)
  case (served cc c1)
  then show ?thesis using NewConnection_from_kernel by (simp add: from_kernel_def)
qed simp_all

lemma site_inv_open:
  assumes "site_inv l T svc x" "sys_tasks (si_sys x) i = None"
    "serve_start pick now a j (Some env) rand1 rand2 input bad cache r m = Some (r', m', Some c)"
  shows "site_inv l T svc (x\<lparr>si_conns := (si_conns x)(i \<mapsto> (env, opened c D cache))\<rparr>)"
proof (rule site_inv_quiet [OF assms(1)])
  fix j t assume j: "sys_tasks (si_sys (x\<lparr>si_conns := (si_conns x)(i \<mapsto> (env, opened c D cache))\<rparr>)) j = Some t"
  with assms(2) have "j \<noteq> i" by auto
  with task_waits_other [OF site_invD(2) [OF assms(1), of j t]] j
  show "task_waits (x\<lparr>si_conns := (si_conns x)(i \<mapsto> (env, opened c D cache))\<rparr>) j t" by simp
qed (use serve_start_peer [OF assms(3)] site_invD(3) [OF assms(1)] in \<open>auto simp: peers_ok_def opened_def intro: sys_run.none\<close>)

lemma site_inv_inner:
  assumes "site_inv l T svc x" "si_conns x i = Some (env, y)" "conn_step sha256 y y'"
    "\<And>m. cn_phase (run y) = Dispatching m \<Longrightarrow> cn_phase (run y') \<noteq> Dispatching m \<Longrightarrow> sys_tasks (si_sys x) i = None"
  shows "site_inv l T svc (x\<lparr>si_conns := (si_conns x)(i \<mapsto> (env, y'))\<rparr>)" (is "site_inv l T svc ?x")
proof (rule site_inv_quiet [OF assms(1)])
  fix j t assume "sys_tasks (si_sys ?x) j = Some t"
  then have t: "sys_tasks (si_sys x) j = Some t" by simp
  note w = site_invD(2) [OF assms(1) t]
  show "task_waits ?x j t"
  proof (cases "j = i")
    case True
    with w assms(2,4) t user_step [OF assms(3)] show ?thesis by (fastforce simp: task_waits_def)
  next
    case False
    with task_waits_other [OF w] show ?thesis by simp
  qed
next
  show "peers_ok ?x"
    using site_invD(3) [OF assms(1)] assms(2) user_step [OF assms(3)] by (fastforce simp: peers_ok_def)
qed (auto intro: sys_run.none)

lemma site_inv_ask:
  assumes "site_inv l T svc x" "si_conns x i = Some (env, y)" "cn_phase (run y) = Dispatching m" "sys_up (si_sys x)"
    "sys_tasks (si_sys x) i = None" "t = \<lparr>t_requester = cn_user (run y), t_message = m, t_prog = Handle n svc (cn_user (run y)) m\<rparr>"
  shows "site_inv l T svc (x\<lparr>si_sys := (si_sys x)\<lparr>sys_tasks := (sys_tasks (si_sys x))(i \<mapsto> t)\<rparr>,
      si_asked := insert (env, cn_user (run y), m) (si_asked x)\<rparr>)" (is "site_inv l T svc ?x")
proof (rule site_inv_quiet [OF assms(1)])
  fix j u assume u: "sys_tasks (si_sys ?x) j = Some u"
  show "task_waits ?x j u"
  proof (cases "j = i")
    case True
    with u assms(2,3,6) show ?thesis by (auto simp: task_waits_def)
  next
    case False
    with u have "sys_tasks (si_sys x) j = Some u" by simp
    from site_invD(2) [OF assms(1) this] show ?thesis by (rule task_waits_other) auto
  qed
next
  show "sys_run sqlite_ops (call_env T) (start_ok T) svc (si_sys x) (si_sys ?x)"
    using sys_run.more [OF sys_run.none sys_step.arrive [of "si_sys x" i]] assms(4-6) by simp
qed (use site_invD(3) [OF assms(1)] assms(2) in \<open>auto simp: peers_ok_def\<close>)

text \<open>A call of a request, which may be the execution.\<close>

lemma site_inv_work:
  assumes "service_ledger_ok l" "site_inv l T svc x" "tick sqlite_ops (call_env T) svc i (si_sys x) s'"
  shows "site_inv l T svc (x\<lparr>si_sys := s'\<rparr>)" (is "site_inv l T svc ?x")
  using assms(3)
proof (cases rule: tick.cases)
  case (1 t l1 L1 p1 evs)
  note run = site_invD(1) [OF assms(2)]
  have log: "sys_log s' = sys_log (si_sys x) @ evs" using 1(1) by (simp add: advance_def)
  have waits: "task_waits ?x j u" if "sys_tasks s' j = Some u" for j u
  proof (cases "j = i")
    case True
    with that 1(1) have "u = t\<lparr>t_prog := p1\<rparr>" by simp
    with True site_invD(2) [OF assms(2) 1(2)] show ?thesis by (auto simp: task_waits_def)
  next
    case False
    with that 1(1) have "sys_tasks (si_sys x) j = Some u" by (simp add: advance_def)
    from site_invD(2) [OF assms(2) this] show ?thesis by (rule task_waits_other) auto
  qed
  have orig: "origin ?x k opn node reason" if "EvExecute k opn node reason \<in> set (sys_log s')" for k opn node reason
  proof (cases "EvExecute k opn node reason \<in> set (sys_log (si_sys x))")
    case True
    from site_invD(4) [OF assms(2) this] log show ?thesis by (elim origin_mono) simp_all
  next
    case False
    then have "EvExecute k opn node reason \<in> set evs" using that log by simp
    with call_log [OF 1(3)] have "k = task_key (t_requester t) (t_message t) \<and> (\<exists>f. t_prog t = CallExecute opn node reason f)"
      by (metis empty_iff empty_set set_ConsD)
    then obtain f where f: "k = task_key (t_requester t) (t_message t)" "t_prog t = CallExecute opn node reason f" by blast
    from sqlite.execute_recorded [OF assms(1) run 1(2) f(2)] obtain dn where
      "requested (t_message t) opn node reason" "EvAuthorize (t_requester t) opn (Inr dn) \<in> set (sys_log (si_sys x))"
      "granted (t_requester t) (Inr dn)" by blast
    moreover obtain env where "(env, t_requester t, t_message t) \<in> si_asked x"
      using site_invD(2) [OF assms(2) 1(2)] by (auto simp: task_waits_def)
    ultimately show ?thesis using f(1) log unfolding origin_def by auto
  qed
  have "peers_ok ?x" using site_invD(3) [OF assms(2)] by (simp add: peers_ok_def)
  with waits orig sys_run.more [OF run tick_step [OF assms(3)]] show ?thesis
    by (simp add: site_inv_def)
qed

lemma site_inv_step:
  assumes "service_ledger_ok l" "site_step sha256 D T svc x x'" "site_inv l T svc x"
  shows "site_inv l T svc x'"
  using assms(2)
proof (cases rule: site_step.cases)
  case (open_conn i pick now a j env rand1 rand2 input bad cache r m r' m' c)
  then show ?thesis using site_inv_open [OF assms(3)] by blast
next
  case (inner i env y y')
  then show ?thesis using site_inv_inner [OF assms(3)] by blast
next
  case (ask i env y m f t n)
  then show ?thesis using site_inv_ask [OF assms(3)] by blast
next
  case (work i s')
  then show ?thesis using site_inv_work [OF assms(1,3)] by blast
next
  case (reply i t e env y f)
  show ?thesis
  proof (rule site_inv_quiet [OF assms(3)])
    fix j u assume u: "sys_tasks (si_sys x') j = Some u"
    with reply(1) have "j \<noteq> i" by auto
    moreover from this u reply(1) have "sys_tasks (si_sys x) j = Some u" by simp
    ultimately show "task_waits x' j u"
      using task_waits_other [OF site_invD(2) [OF assms(3), of j u], of x'] reply(1) by simp
  next
    show "sys_run sqlite_ops (call_env T) (start_ok T) svc (si_sys x) (si_sys x')"
      using sys_run.more [OF sys_run.none sys_step.answer [OF reply(2,3)]] reply(1) by simp
    show "peers_ok x'" using site_invD(3) [OF assms(3)] reply(1,4) by (fastforce simp: peers_ok_def answered_run_def)
  qed (use reply(1) in auto)
next
  case (gone i env y)
  show ?thesis
  proof (rule site_inv_quiet [OF assms(3)])
    fix j u assume "sys_tasks (si_sys x') j = Some u"
    then have w: "task_waits x j u" using site_invD(2) [OF assms(3)] gone(1) by simp
    with gone(2,3) have "j \<noteq> i" by (auto simp: task_waits_def)
    with task_waits_other [OF w, of x'] gone(1) show "task_waits x' j u" by simp
  qed (use gone(1) site_invD(3) [OF assms(3)] in \<open>auto simp: peers_ok_def intro: sys_run.none\<close>)
next
  case (restart_daemon o' l' ok)
  show ?thesis
  proof (rule site_inv_quiet [OF assms(3)])
    show "sys_run sqlite_ops (call_env T) (start_ok T) svc (si_sys x) (si_sys x')"
      using sys_run.more [OF sys_run.none sys_step.restart [where W = "start_ok T", OF restart_daemon(2,3)]] restart_daemon(1) by simp
  qed (use restart_daemon(1) site_invD(3) [OF assms(3)] in \<open>auto simp: peers_ok_def\<close>)
qed

lemma site_inv_reachable:
  assumes "service_ledger_ok l" "(site_step sha256 D T svc)\<^sup>*\<^sup>* (site_start l) x"
  shows "site_inv l T svc x"
  using assms(2)
proof (induction rule: rtranclp_induct)
  case base
  show ?case by (auto simp: site_inv_def site_start_def peers_ok_def initial_def intro: sys_run.none)
next
  case (step x1 x2)
  then show ?case using site_inv_step [OF assms(1)] by blast
qed

lemma executed_once: "EvExecute k opn node reason \<in> set evs \<Longrightarrow> executions k evs \<le> 1 \<Longrightarrow> executions k evs = 1"
proof -
  assume e: "EvExecute k opn node reason \<in> set evs" and le: "executions k evs \<le> 1"
  then have "filter (\<lambda>ev. case ev of EvExecute j _ _ _ \<Rightarrow> j = k | _ \<Rightarrow> False) evs \<noteq> []" by (force simp: filter_empty_conv)
  with le show ?thesis by (cases "filter (\<lambda>ev. case ev of EvExecute j _ _ _ \<Rightarrow> j = k | _ \<Rightarrow> False) evs") (auto simp: executions_def)
qed

text \<open>
  C1: Nothing is executed on a node unless an administrator asked for it on a socket. Let any number of
  connections open, send, hang up and end, their command requests run call by call over the one ledger,
  the database fail, and the daemon stop and start again, in any interleaving within one retention period.
  For every execution there was a connection whose peer, by the kernel's credentials and the user database,
  is the user under whose identifier the command is recorded; this connection sent a message that asks for exactly this
  operation on this node and passed every check; the authorizer granted it to this user because Slurm
  called the user of this name an administrator; and the command was executed once.\<close>

theorem execution_from_socket:
  assumes "service_ledger_ok l" "NewGlobalRegistry es H V = Inr (svc_registry svc)"
    "(site_step sha256 D T svc)\<^sup>*\<^sup>* (site_start l) x" "EvExecute k opn node reason \<in> set (sys_log (si_sys x))"
  shows "\<exists>env r m dn users u. (env, r, m) \<in> si_asked x \<and> kernel_peer env r \<and> task_key r m = k \<and> requested m opn node reason \<and>
    EvAuthorize r opn (Inr dn) \<in> set (sys_log (si_sys x)) \<and> granted r (Inr dn) \<and>
    Inr dn = Authorize (Some (svc_registry svc)) (Some (Resolve (Some users))) r opn \<and>
    users (Username r) = Inr (Some u) \<and> su_Username u = Username r \<and> normalizeAdminLevel (su_AdminLevel u) = Inr ''admin'' \<and>
    executions k (sys_log (si_sys x)) = 1"
proof -
  note inv = site_inv_reachable [OF assms(1,3)]
  from site_invD(4) [OF inv assms(4)] obtain env r m dn where o: "(env, r, m) \<in> si_asked x" "task_key r m = k" "requested m opn node reason"
    "EvAuthorize r opn (Inr dn) \<in> set (sys_log (si_sys x))" "granted r (Inr dn)" unfolding origin_def by blast
  have peer: "kernel_peer env r" using site_invD(3) [OF inv] o(1) by (auto simp: peers_ok_def)
  obtain users where users: "Inr dn = Authorize (Some (svc_registry svc)) (Some (Resolve (Some users))) r opn"
    using run_authorize_log [OF site_invD(1) [OF inv] _ o(4)] by (auto simp: initial_def)
  have "Allowed dn" using o(5) by (simp add: granted_def)
  from Authorize_allowed [OF assms(2) users [symmetric] this] obtain u where
    "users (Username r) = Inr (Some u)" "su_Username u = Username r" "normalizeAdminLevel (su_AdminLevel u) = Inr ''admin''" by auto
  moreover have "executions k (sys_log (si_sys x)) = 1"
    using executed_once [OF assms(4)] sqlite.at_most_once [OF assms(1) site_invD(1) [OF inv]] by blast
  ultimately show ?thesis using o peer users by blast
qed

section \<open>An example\<close>

lemma site_ticks:
  assumes "(tick sqlite_ops (call_env T) svc i)\<^sup>*\<^sup>* (si_sys x) s'"
  shows "(site_step sha256 D T svc)\<^sup>*\<^sup>* x (x\<lparr>si_sys := s'\<rparr>)"
  using assms
proof (induction rule: rtranclp_induct)
  case (step s1 s2)
  have "site_step sha256 D T svc (x\<lparr>si_sys := s1\<rparr>) (x\<lparr>si_sys := s2\<rparr>)"
    using site_step.work [of T svc i "x\<lparr>si_sys := s1\<rparr>" s2] step(2) by simp
  with step(3) show ?case by (rule rtranclp.rtrancl_into_rtrancl)
qed simp

lemma site_reads_frame:
  assumes "si_conns x i = Some (env, y)" "cn_phase (run y) = Reading" "\<not> ob_cancelled (cn_out (run y))"
    "Decode (cn_in (run y)) = (r, m, Inr ())"
  shows "(site_step sha256 D T svc)\<^sup>*\<^sup>* x (x\<lparr>si_conns := (si_conns x)(i \<mapsto> (env, y\<lparr>run := with_message m r (run y)\<rparr>))\<rparr>)"
proof -
  define y1 where "y1 = y\<lparr>run := run y\<lparr>cn_phase := Receiving\<rparr>\<rparr>"
  define x1 where "x1 = x\<lparr>si_conns := (si_conns x)(i \<mapsto> (env, y1))\<rparr>"
  have y1: "cn_phase (run y1) = Receiving" "cn_in (run y1) = cn_in (run y)" "run y1 = run y\<lparr>cn_phase := Receiving\<rparr>"
    by (simp_all add: y1_def)
  have "conn_step sha256 y y1" using conn_step.look [OF assms(2)] assms(3) by (simp add: loop_look_def y1_def)
  then have "site_step sha256 D T svc x x1" unfolding x1_def by (rule site_step.inner [OF assms(1)]) (simp add: assms(2))
  moreover have "conn_step sha256 y1 (y\<lparr>run := with_message m r (run y)\<rparr>)"
    using conn_step.receive [of y1 "loop_receive undefined (run y1)" undefined] assms(4) y1
    by (simp add: loop_receive_def with_message_def produced_def y1_def)
  then have "site_step sha256 D T svc x1 (x1\<lparr>si_conns := (si_conns x1)(i \<mapsto> (env, y\<lparr>run := with_message m r (run y)\<rparr>))\<rparr>)"
    by (rule site_step.inner [rotated]) (simp_all add: x1_def y1)
  ultimately show ?thesis by (simp add: x1_def)
qed

definition drain_frame :: bytes where
  "drain_frame = PutUint32 (length (json_text (envelope_json (sample_message ''MSG1'') (request_json sample_request)))) @
     json_text (envelope_json (sample_message ''MSG1'') (request_json sample_request))"

lemmas drain_eval = sample_message_def NewEnvelope_def ValidateEnvelope_def ProtocolName_def ProtocolVersion_def
  IsKnown_def envelope_utf8_def max_depth_def MaxPayloadSize_def text_eval request_json_def target_json_def parameters_json_def sample_request_def

lemma drain_frame_decodes:
  "Decode \<lparr>incoming = drain_frame, broken = b\<rparr> = (\<lparr>incoming = [], broken = b\<rparr>, sample_message ''MSG1'', Inr ())"
proof -
  have "decode_payload (json_text (envelope_json (sample_message ''MSG1'') (request_json sample_request))) =
      (sample_message ''MSG1'', ValidateEnvelope (sample_message ''MSG1''))"
    by (rule decode_payload_text) (simp_all add: drain_eval)
  then show ?thesis
    by (subst Decode_frame [where p = "json_text (envelope_json (sample_message ''MSG1'') (request_json sample_request))" and rest = "[]"])
       (simp_all add: drain_frame_def drain_eval)
qed

lemma drain_print: "\<exists>f. requestFingerprint sha256 (sample_message ''MSG1'') = Some f"
proof -
  have "json_ok (request_json sample_request)" by (simp add: drain_eval)
  then have "read_value (json_text (request_json sample_request)) = Some (request_json sample_request, [])"
    using read_value_json_text [of "request_json sample_request" "[]"] by simp
  moreover have "jdepth (request_json sample_request) \<le> max_depth" by (simp add: drain_eval)
  ultimately show ?thesis by (simp add: requestFingerprint_def sample_message_def NewEnvelope_def del: json_text.simps)
qed

text \<open>The calls of the sample request, in a system where it has arrived.\<close>

lemma sample_ticks:
  assumes "sys_tasks s i = Some \<lparr>t_requester = Command_Theorems.sample_user, t_message = sample_message ''MSG1'',
      t_prog = Handle 0 sample_service Command_Theorems.sample_user (sample_message ''MSG1'')\<rparr>"
    "sys_ledger s = sample_ledger []" "sys_locks s = {}"
  obtains s' where "(tick sqlite_ops (call_env 0) sample_service i)\<^sup>*\<^sup>* s s'"
    "EvExecute (1008, ''cmd-1'') OperationNodeDrain ''n1'' ''bad disk'' \<in> set (sys_log s')"
proof -
  let ?w = "sample_world 5 ''administrator'' (Inr ())"
  have k: "task_key Command_Theorems.sample_user (sample_message ''MSG1'') = (1008, ''cmd-1'')"
    using asks_request(7) [OF sample_asks [of "''MSG1''"]] by (simp add: sample_key)
  obtain l' evs rsp where r: "run_prog (Handle 0 sample_service Command_Theorems.sample_user (sample_message ''MSG1'')) sqlite_ops ?w
      sample_service (1008, ''cmd-1'') (sample_ledger []) {} = (l', {}, evs, Some rsp)"
      "EvExecute (1008, ''cmd-1'') OperationNodeDrain ''n1'' ''bad disk'' \<in> set evs"
    by (rule sample_run [of 5]) auto
  have "call_env 0 (w_env ?w)" by (simp add: call_env_def in_window_def Retention_def)
  from run_prog_finishes [of "call_env 0" ?w sqlite_ops sample_service, OF this] r(1) assms k
  have "(tick sqlite_ops (call_env 0) sample_service i)\<^sup>*\<^sup>* s (advance i \<lparr>t_requester = Command_Theorems.sample_user,
      t_message = sample_message ''MSG1'', t_prog = Handle 0 sample_service Command_Theorems.sample_user (sample_message ''MSG1'')\<rparr> l' {} (Return rsp) evs s)"
    unfolding finishes_def by fastforce
  then show thesis by (rule that) (use r(2) in \<open>simp add: advance_def\<close>)
qed

text \<open>A peer that Slurm calls an administrator sends the request, and it is executed.\<close>

theorem execution_from_socket_witness:
  "\<exists>x r m. (site_step (\<lambda>b. b) (NewDispatcher (\<lambda>_. False)) 0 sample_service)\<^sup>*\<^sup>* (site_start (sample_ledger [])) x \<and>
     EvExecute (1008, ''cmd-1'') OperationNodeDrain ''n1'' ''bad disk'' \<in> set (sys_log (si_sys x)) \<and>
     si_asked x = {(sample_socket, r, m)} \<and> kernel_peer sample_socket r \<and> task_key r m = (1008, ''cmd-1'') \<and>
     requested m OperationNodeDrain ''n1'' ''bad disk''"
proof -
  let ?D = "NewDispatcher (\<lambda>_. False) :: node_cache dispatcher" and ?m = "sample_message ''MSG1''" and ?u = "Command_Theorems.sample_user"
  let ?step = "site_step (\<lambda>b. b) ?D 0 sample_service"
  let ?empty = "\<lparr>incoming = [], broken = False\<rparr>"
  obtain cc where cc: "NewConnection (Some sample_socket) (Some []) (Some []) = Some (Inr cc)" "User cc = ?u"
    by (auto simp: NewConnection_def sample_socket_def newID_def mustNewID_def peerIdentity_def peerIdentityForCredentials_def
        peer_user_def Command_Theorems.sample_user_def Let_def)
  obtain m' where "Register (Some 7) (alloc 7 cc NewConnectionManager) = (m', Inr ())"
    by (auto simp: Register_def alloc_def NewConnectionManager_def Get_def)
  with cc obtain c where s: "serve_start True ''t'' 7 0 (Some sample_socket) (Some []) (Some []) drain_frame False NewNodeCache None NewConnectionManager =
      Some (None, m', Some c)" and c: "cn_user c = ?u" "cn_phase c = Reading" "\<not> ob_cancelled (cn_out c)" "cn_replay c = []"
      "cn_in c = \<lparr>incoming = drain_frame, broken = False\<rparr>" by (simp add: serve_start_def)
  define y0 where "y0 = opened c ?D NewNodeCache"
  define y1 where "y1 = y0\<lparr>run := with_message ?m ?empty c\<rparr>"
  define x0 where "x0 = (site_start (sample_ledger []))\<lparr>si_conns := [0 \<mapsto> (sample_socket, y0)]\<rparr>"
  define x1 where "x1 = x0\<lparr>si_conns := [0 \<mapsto> (sample_socket, y1)]\<rparr>"
  define t where "t = \<lparr>t_requester = ?u, t_message = ?m, t_prog = Handle 0 sample_service ?u ?m\<rparr>"
  define s1 where "s1 = (initial (sample_ledger []))\<lparr>sys_tasks := [0 \<mapsto> t]\<rparr>"
  define x2 where "x2 = x1\<lparr>si_sys := s1, si_asked := {(sample_socket, ?u, ?m)}\<rparr>"
  have y0: "run y0 = c" by (simp add: y0_def opened_def)
  have "?step (site_start (sample_ledger [])) x0"
    using site_step.open_conn [OF _ _ s, of "site_start (sample_ledger [])" 0] by (simp add: site_start_def initial_def x0_def y0_def)
  moreover have "?step\<^sup>*\<^sup>* x0 x1"
    using site_reads_frame [of x0 0 sample_socket y0 ?empty ?m "\<lambda>b. b" ?D 0 sample_service] y0 c drain_frame_decodes
    by (simp add: x0_def x1_def y1_def)
  moreover obtain f where "requestFingerprint (\<lambda>b. b) ?m = Some f" using drain_print by blast
  then have "to_service (\<lambda>b. b) ?m (run y1) = Some f"
    by (simp add: y1_def with_message_def to_service_def replay_begin_def c sample_message_def NewEnvelope_def ProtocolName_def
        ProtocolVersion_def blen_0_iff Command_Theorems.sample_user_def maxCachedRequestsPerConnection_def request_json_def)
  then have "?step x1 x2"
    using site_step.ask [of x1 0 sample_socket y1 ?m "\<lambda>b. b" f t 0 sample_service ?D 0] c
    by (simp add: x2_def x1_def x0_def y1_def with_message_def site_start_def initial_def t_def s1_def)
  moreover obtain s2 where "(tick sqlite_ops (call_env 0) sample_service 0)\<^sup>*\<^sup>* s1 s2"
    "EvExecute (1008, ''cmd-1'') OperationNodeDrain ''n1'' ''bad disk'' \<in> set (sys_log s2)"
    by (rule sample_ticks [of s1 0]) (simp_all add: s1_def t_def initial_def)
  note s2 = this
  then have "?step\<^sup>*\<^sup>* x2 (x2\<lparr>si_sys := s2\<rparr>)" by (intro site_ticks) (simp add: x2_def)
  ultimately have reach: "?step\<^sup>*\<^sup>* (site_start (sample_ledger [])) (x2\<lparr>si_sys := s2\<rparr>)"
    by (meson converse_rtranclp_into_rtranclp rtranclp_trans)
  have reg: "NewGlobalRegistry es H V = Inr (svc_registry sample_service)" if "NewNodeRegistry = NewGlobalRegistry es H V" for es H V
    using sample_service_ok that by (simp add: service_ok_def)
  have e: "EvExecute (1008, ''cmd-1'') OperationNodeDrain ''n1'' ''bad disk'' \<in> set (sys_log (si_sys (x2\<lparr>si_sys := s2\<rparr>)))"
    using s2(2) by simp
  from execution_from_socket [OF sample_healthy(2) reg [OF NewNodeRegistry_def] reach e] reach e show ?thesis
    by (intro exI [of _ "x2\<lparr>si_sys := s2\<rparr>"] exI [of _ ?u] exI [of _ ?m]) (auto simp: x2_def)
qed

end
