(* ===== verification/Channel.thy ===== *)
theory Channel
  imports Prelude
begin

text \<open>
  The forwarder between two transports (\<^verbatim>\<open>internal/channel/channel.go\<close>): two goroutines copy bytes, one
  per direction, and \<open>Run\<close> ends both when one has ended.

  What a read or a write answers is an input of the step; \<open>buffer\<close> is the size of the buffer. A
  goroutine is split where others may run in between: after it has looked whether the channel is
  closed, and after it has read.
\<close>

definition buffer :: nat where
  "buffer = 32 * 1024"

datatype io_error = IoEOF | IoNetClosed | IoClosedPipe | IoChannelClosed | IoOther string

text \<open>What \<open>copy\<close> returns: nothing, \<^verbatim>\<open>ErrClosed\<close>, a wrapped write error or a read error.\<close>

datatype copy_result = CopyDone | CopyClosed | CopyWrite io_error | CopyRead io_error

section \<open>The channel\<close>

record channel =
  ch_closed :: bool
  ch_conn :: bool \<comment> \<open>a connection is set\<close>
  ch_cancelled :: bool
  ch_conn_closed :: bool

definition New_channel :: channel where
  "New_channel = \<lparr>ch_closed = False, ch_conn = False, ch_cancelled = False, ch_conn_closed = False\<rparr>"

definition channel_Close :: "channel \<Rightarrow> channel" where
  "channel_Close c =
     (if ch_closed c then c
      else c\<lparr>ch_closed := True, ch_cancelled := True, ch_conn_closed := ch_conn_closed c \<or> ch_conn c\<rparr>)"

definition SetConn :: "channel \<Rightarrow> channel" where
  "SetConn c = c\<lparr>ch_conn := True\<rparr>"

section \<open>Copying\<close>

text \<open>
  A copier before its look at the channel, before its read, and with bytes to write together with the
  error that the read returned; or it has returned.
\<close>

datatype copy_phase = Looking | Reading | Writing bytes "io_error option" | Finished copy_result

record copier =
  cp_read :: bytes \<comment> \<open>all bytes read so far\<close>
  cp_written :: bytes \<comment> \<open>all bytes that the destination took\<close>
  cp_phase :: copy_phase

definition new_copier :: copier where
  "new_copier = \<lparr>cp_read = [], cp_written = [], cp_phase = Looking\<rparr>"

definition closed_error :: "io_error \<Rightarrow> bool" where
  "closed_error e \<longleftrightarrow> e \<in> {IoNetClosed, IoChannelClosed, IoClosedPipe}"

definition after_read :: "io_error option \<Rightarrow> copy_phase" where
  "after_read err =
     (case err of None \<Rightarrow> Looking
      | Some e \<Rightarrow> Finished (if e = IoEOF then CopyDone else if closed_error e then CopyClosed else CopyRead e))"

definition copy_look :: "bool \<Rightarrow> copier \<Rightarrow> copier" where
  "copy_look closed c = c\<lparr>cp_phase := (if closed then Finished CopyClosed else Reading)\<rparr>"

definition copy_receive :: "bytes \<Rightarrow> io_error option \<Rightarrow> copier \<Rightarrow> copier" where
  "copy_receive data err c =
     c\<lparr>cp_read := cp_read c @ data, cp_phase := (if data \<noteq> [] then Writing data err else after_read err)\<rparr>"

text \<open>\<open>n\<close> bytes were taken; an \<^verbatim>\<open>io.Writer\<close> that takes fewer than all returns an error.\<close>

definition copy_send :: "bytes \<Rightarrow> io_error option \<Rightarrow> nat \<Rightarrow> io_error option \<Rightarrow> copier \<Rightarrow> copier" where
  "copy_send data err n werr c =
     c\<lparr>cp_written := cp_written c @ take n data,
       cp_phase := (case werr of None \<Rightarrow> after_read err
         | Some e \<Rightarrow> Finished (if closed_error e then CopyClosed else CopyWrite e))\<rparr>"

section \<open>Run\<close>

text \<open>
  Which errors end \<open>Run\<close> without an error. A write error is wrapped, and \<^verbatim>\<open>errors.Is\<close> looks inside.
\<close>

definition benign :: "copy_result \<Rightarrow> bool" where
  "benign r \<longleftrightarrow>
     (case r of CopyDone \<Rightarrow> True | CopyClosed \<Rightarrow> True | CopyWrite e \<Rightarrow> e = IoEOF \<or> closed_error e
      | CopyRead e \<Rightarrow> e = IoEOF \<or> closed_error e)"

datatype run_phase = Awaiting nat | RunReturned "copy_result option"

record forwarder =
  fw_channel :: channel
  fw_cockpit_open :: bool
  fw_bridge_open :: bool
  fw_up :: copier \<comment> \<open>from the page to the daemon\<close>
  fw_down :: copier
  fw_results :: "copy_result list" \<comment> \<open>the channel of capacity two\<close>
  fw_phase :: run_phase

text \<open>\<open>None\<close> is the error for a missing transport; \<open>is_conn\<close> says that the bridge is a \<^verbatim>\<open>net.Conn\<close>.\<close>

definition Run_begin :: "bool \<Rightarrow> bool \<Rightarrow> bool \<Rightarrow> channel \<Rightarrow> forwarder option" where
  "Run_begin cockpit bridge is_conn c =
     (if \<not> cockpit \<or> \<not> bridge then None
      else Some \<lparr>fw_channel = (if is_conn then SetConn c else c), fw_cockpit_open = True, fw_bridge_open = True,
        fw_up = new_copier, fw_down = new_copier, fw_results = [], fw_phase = Awaiting 0\<rparr>)"

definition close_all :: "forwarder \<Rightarrow> forwarder" where
  "close_all f = f\<lparr>fw_channel := channel_Close (fw_channel f), fw_cockpit_open := False, fw_bridge_open := False\<rparr>"

text \<open>One turn of the loop over the two results, with the deferred closing when \<open>Run\<close> returns.\<close>

definition Run_receive :: "copy_result \<Rightarrow> nat \<Rightarrow> forwarder \<Rightarrow> forwarder" where
  "Run_receive r i f =
     (if \<not> benign r then (close_all f)\<lparr>fw_phase := RunReturned (Some r)\<rparr>
      else if i = 0 then (close_all f)\<lparr>fw_phase := Awaiting 1\<rparr>
      else (close_all f)\<lparr>fw_phase := RunReturned None\<rparr>)"

text \<open>A copier that has returned puts its result into the channel of results, once.\<close>

definition results_of :: "copier \<Rightarrow> copy_result list" where
  "results_of c = (case cp_phase c of Finished r \<Rightarrow> [r] | _ \<Rightarrow> [])"

definition set_up :: "copier \<Rightarrow> forwarder \<Rightarrow> forwarder" where
  "set_up c f = f\<lparr>fw_up := c, fw_results := fw_results f @ results_of c\<rparr>"

definition set_down :: "copier \<Rightarrow> forwarder \<Rightarrow> forwarder" where
  "set_down c f = f\<lparr>fw_down := c, fw_results := fw_results f @ results_of c\<rparr>"

end
