(* ===== verification/Channel_Props.thy ===== *)
theory Channel_Props
  imports Channel "HOL-Library.Sublist"
begin

text \<open>
  The forwarder passes bytes on in order, ends both directions when one has ended, and then leaves
  nothing open.
\<close>

text \<open>
  The steps of the two copiers, of \<open>Run\<close> and of whoever closes the channel from outside. A transport
  that is closed gives no bytes and takes none, with an error; a write without an error takes all.
\<close>

inductive chan_step :: "forwarder \<Rightarrow> forwarder \<Rightarrow> bool" where
  up_look: "cp_phase (fw_up f) = Looking \<Longrightarrow> chan_step f (set_up (copy_look (ch_closed (fw_channel f)) (fw_up f)) f)"
| up_receive: "cp_phase (fw_up f) = Reading \<Longrightarrow> length data \<le> buffer \<Longrightarrow> (\<not> fw_cockpit_open f \<longrightarrow> data = [] \<and> err \<noteq> None) \<Longrightarrow>
    chan_step f (set_up (copy_receive data err (fw_up f)) f)"
| up_send: "cp_phase (fw_up f) = Writing data err \<Longrightarrow> (werr = None \<longrightarrow> n = length data) \<Longrightarrow>
    (\<not> fw_bridge_open f \<longrightarrow> n = 0 \<and> werr \<noteq> None) \<Longrightarrow> chan_step f (set_up (copy_send data err n werr (fw_up f)) f)"
| down_look: "cp_phase (fw_down f) = Looking \<Longrightarrow> chan_step f (set_down (copy_look (ch_closed (fw_channel f)) (fw_down f)) f)"
| down_receive: "cp_phase (fw_down f) = Reading \<Longrightarrow> length data \<le> buffer \<Longrightarrow> (\<not> fw_bridge_open f \<longrightarrow> data = [] \<and> err \<noteq> None) \<Longrightarrow>
    chan_step f (set_down (copy_receive data err (fw_down f)) f)"
| down_send: "cp_phase (fw_down f) = Writing data err \<Longrightarrow> (werr = None \<longrightarrow> n = length data) \<Longrightarrow>
    (\<not> fw_cockpit_open f \<longrightarrow> n = 0 \<and> werr \<noteq> None) \<Longrightarrow> chan_step f (set_down (copy_send data err n werr (fw_down f)) f)"
| receive: "fw_results f = r # rs \<Longrightarrow> fw_phase f = Awaiting i \<Longrightarrow> chan_step f (Run_receive r i (f\<lparr>fw_results := rs\<rparr>))"
| close_outside: "chan_step f (f\<lparr>fw_channel := channel_Close (fw_channel f),
    fw_bridge_open := fw_bridge_open f \<and> (ch_closed (fw_channel f) \<or> \<not> ch_conn (fw_channel f))\<rparr>)"

definition copier_ok :: "copier \<Rightarrow> bool" where
  "copier_ok c \<longleftrightarrow>
     (case cp_phase c of
        Writing data err \<Rightarrow> data \<noteq> [] \<and> cp_read c = cp_written c @ data
      | Finished CopyClosed \<Rightarrow> prefix (cp_written c) (cp_read c)
      | Finished (CopyWrite e) \<Rightarrow> prefix (cp_written c) (cp_read c)
      | _ \<Rightarrow> cp_written c = cp_read c)"

lemma copier_ok_look: "copier_ok c \<Longrightarrow> cp_phase c = Looking \<Longrightarrow> copier_ok (copy_look b c)"
  by (auto simp: copier_ok_def copy_look_def)

lemma copier_ok_receive: "copier_ok c \<Longrightarrow> cp_phase c = Reading \<Longrightarrow> copier_ok (copy_receive data err c)"
  by (auto simp: copier_ok_def copy_receive_def after_read_def split: option.splits)

lemma copier_ok_send:
  "copier_ok c \<Longrightarrow> cp_phase c = Writing data err \<Longrightarrow> (werr = None \<longrightarrow> n = length data) \<Longrightarrow> copier_ok (copy_send data err n werr c)"
  by (auto simp: copier_ok_def copy_send_def after_read_def take_is_prefix split: option.splits)

definition finished :: "copier \<Rightarrow> nat" where
  "finished c = length (results_of c)"

lemma finished_cases: "finished c = 0 \<or> finished c = 1" "finished c = 1 \<longleftrightarrow> (\<exists>r. cp_phase c = Finished r)"
  by (auto simp: finished_def results_of_def split: copy_phase.splits)

definition chan_inv :: "forwarder \<Rightarrow> bool" where
  "chan_inv f \<longleftrightarrow> copier_ok (fw_up f) \<and> copier_ok (fw_down f) \<and>
     (fw_phase f \<noteq> Awaiting 0 \<longrightarrow> ch_closed (fw_channel f) \<and> \<not> fw_cockpit_open f \<and> \<not> fw_bridge_open f) \<and>
     (case fw_phase f of
        Awaiting i \<Rightarrow> i \<le> 1 \<and> i + length (fw_results f) = finished (fw_up f) + finished (fw_down f)
      | RunReturned None \<Rightarrow> finished (fw_up f) + finished (fw_down f) = 2
      | RunReturned (Some r) \<Rightarrow> \<not> benign r)"

lemma chan_inv_copiers: "chan_inv f \<Longrightarrow> copier_ok (fw_up f)" "chan_inv f \<Longrightarrow> copier_ok (fw_down f)"
  by (simp_all add: chan_inv_def)

lemma unfinished:
  "cp_phase c = Looking \<Longrightarrow> finished c = 0" "cp_phase c = Reading \<Longrightarrow> finished c = 0" "cp_phase c = Writing data err \<Longrightarrow> finished c = 0"
  by (simp_all add: finished_def results_of_def)

lemma inv_set_up:
  assumes "chan_inv f" "copier_ok c" "finished (fw_up f) = 0"
  shows "chan_inv (set_up c f)"
  using assms finished_cases(1) [of "fw_down f"] by (auto simp: chan_inv_def set_up_def finished_def split: run_phase.splits option.splits)

lemma inv_set_down:
  assumes "chan_inv f" "copier_ok c" "finished (fw_down f) = 0"
  shows "chan_inv (set_down c f)"
  using assms finished_cases(1) [of "fw_up f"] by (auto simp: chan_inv_def set_down_def finished_def split: run_phase.splits option.splits)

lemma inv_chan_step: "chan_step f f' \<Longrightarrow> chan_inv f \<Longrightarrow> chan_inv f'"
proof (induction rule: chan_step.induct)
  case (receive f r rs i)
  then show ?case using finished_cases(1) [of "fw_up f"] finished_cases(1) [of "fw_down f"]
    by (auto simp: chan_inv_def Run_receive_def close_all_def channel_Close_def)
next
  case (close_outside f)
  then show ?case by (auto simp: chan_inv_def channel_Close_def split: run_phase.splits option.splits)
qed (auto intro!: inv_set_up inv_set_down copier_ok_look copier_ok_receive copier_ok_send simp: unfinished chan_inv_copiers)

section \<open>Coming to an end\<close>

definition work :: "forwarder \<Rightarrow> nat" where
  "work f = 2 * (2 - finished (fw_up f) - finished (fw_down f)) + length (fw_results f)"

lemma set_up_work:
  "finished (fw_up f) = 0 \<Longrightarrow> finished c = 1 \<Longrightarrow> work (set_up c f) < work f"
  using finished_cases(1) [of "fw_down f"] by (auto simp: work_def set_up_def finished_def [of c for c])

lemma set_down_work:
  "finished (fw_down f) = 0 \<Longrightarrow> finished c = 1 \<Longrightarrow> work (set_down c f) < work f"
  using finished_cases(1) [of "fw_up f"] by (auto simp: work_def set_down_def finished_def [of c for c])

text \<open>Once everything is closed, each step ends something, or changes nothing.\<close>

lemma closed_step_work:
  assumes "chan_step f f'" "chan_inv f" "ch_closed (fw_channel f)" "\<not> fw_cockpit_open f" "\<not> fw_bridge_open f"
  shows "f' = f \<or> work f' < work f"
  using assms
proof (induction rule: chan_step.induct)
  case (receive f r rs i)
  then show ?case by (auto simp: work_def Run_receive_def close_all_def)
next
  case (close_outside f)
  then show ?case by (auto simp: channel_Close_def)
qed (auto intro!: set_up_work set_down_work simp: finished_def results_of_def copy_look_def copy_receive_def copy_send_def after_read_def)

lemma set_selects: "fw_up (set_up c f) = c" "fw_down (set_down c f) = c"
  by (simp_all add: set_up_def set_down_def)

lemma awaiting_step:
  assumes "chan_inv f" "fw_phase f = Awaiting i"
  shows "\<exists>f'. chan_step f f' \<and> f' \<noteq> f"
proof (cases "fw_results f")
  case (Cons r rs)
  have "length (fw_results (Run_receive r i (f\<lparr>fw_results := rs\<rparr>))) \<noteq> length (fw_results f)"
    using Cons by (simp add: Run_receive_def close_all_def)
  then show ?thesis using chan_step.receive [OF Cons assms(2)] by metis
next
  case Nil
  then have "finished (fw_up f) = 0 \<or> finished (fw_down f) = 0"
    using assms finished_cases(1) [of "fw_up f"] finished_cases(1) [of "fw_down f"] by (auto simp: chan_inv_def)
  moreover have "\<exists>c. chan_step f (set_up c f) \<and> cp_phase c \<noteq> cp_phase (fw_up f)" if "finished (fw_up f) = 0"
  proof (cases "cp_phase (fw_up f)")
    case Looking
    then show ?thesis by (intro exI conjI, rule chan_step.up_look) (auto simp: copy_look_def)
  next
    case Reading
    then show ?thesis by (intro exI conjI, rule chan_step.up_receive [of f "[]" "Some IoEOF"]) (auto simp: copy_receive_def after_read_def)
  next
    case (Writing data err)
    then show ?thesis
      by (intro exI conjI, rule chan_step.up_send [of f data err "Some IoEOF" 0]) (auto simp: copy_send_def)
  qed (use that in \<open>auto simp: finished_def results_of_def\<close>)
  moreover have "\<exists>c. chan_step f (set_down c f) \<and> cp_phase c \<noteq> cp_phase (fw_down f)" if "finished (fw_down f) = 0"
  proof (cases "cp_phase (fw_down f)")
    case Looking
    then show ?thesis by (intro exI conjI, rule chan_step.down_look) (auto simp: copy_look_def)
  next
    case Reading
    then show ?thesis by (intro exI conjI, rule chan_step.down_receive [of f "[]" "Some IoEOF"]) (auto simp: copy_receive_def after_read_def)
  next
    case (Writing data err)
    then show ?thesis
      by (intro exI conjI, rule chan_step.down_send [of f data err "Some IoEOF" 0]) (auto simp: copy_send_def)
  qed (use that in \<open>auto simp: finished_def results_of_def\<close>)
  moreover have "set_up c f \<noteq> f" if "cp_phase c \<noteq> cp_phase (fw_up f)" for c
    using that set_selects(1) [of c f] by metis
  moreover have "set_down c f \<noteq> f" if "cp_phase c \<noteq> cp_phase (fw_down f)" for c
    using that set_selects(2) [of c f] by metis
  ultimately show ?thesis by blast
qed

lemma Run_begin_inv: "Run_begin cockpit bridge is_conn c = Some f \<Longrightarrow> chan_inv f"
  by (auto simp: Run_begin_def chan_inv_def copier_ok_def new_copier_def finished_def results_of_def split: if_splits)

lemma chan_reachable_inv: "chan_step\<^sup>*\<^sup>* f f' \<Longrightarrow> chan_inv f \<Longrightarrow> chan_inv f'"
  by (induction rule: rtranclp_induct) (auto intro: inv_chan_step)

lemma copier_ok_prefix: "copier_ok c \<Longrightarrow> prefix (cp_written c) (cp_read c)"
  by (auto simp: copier_ok_def split: copy_phase.splits copy_result.splits)

lemma copier_ok_done: "copier_ok c \<Longrightarrow> cp_phase c = Finished CopyDone \<Longrightarrow> cp_written c = cp_read c"
  by (simp add: copier_ok_def)

text \<open>
  C40: The forwarder passes bytes on unchanged and in order, and ends cleanly. Under any interleaving, in
  each direction what the destination took is an initial part of what the source gave; all of it, when
  the direction ended at the end of its source. While \<open>Run\<close> waits some step is possible (a read of an open
  transport happens when its peer sends or ends); once it has taken the first result, both transports and the channel are closed, and every further step ends something, so it
  returns after at most two more. It returns without an error only after both directions have ended.\<close>

theorem Run_forwards_and_ends:
  assumes "Run_begin cockpit bridge is_conn c = Some f0" "chan_step\<^sup>*\<^sup>* f0 f"
  shows "prefix (cp_written (fw_up f)) (cp_read (fw_up f)) \<and> prefix (cp_written (fw_down f)) (cp_read (fw_down f)) \<and>
    (cp_phase (fw_up f) = Finished CopyDone \<longrightarrow> cp_written (fw_up f) = cp_read (fw_up f)) \<and>
    (cp_phase (fw_down f) = Finished CopyDone \<longrightarrow> cp_written (fw_down f) = cp_read (fw_down f)) \<and>
    (\<forall>i. fw_phase f = Awaiting i \<longrightarrow> (\<exists>f'. chan_step f f' \<and> f' \<noteq> f)) \<and>
    (fw_phase f \<noteq> Awaiting 0 \<longrightarrow> ch_closed (fw_channel f) \<and> \<not> fw_cockpit_open f \<and> \<not> fw_bridge_open f \<and>
       (\<forall>f'. chan_step f f' \<longrightarrow> f' = f \<or> work f' < work f)) \<and>
    (fw_phase f = Awaiting 1 \<longrightarrow> work f \<le> 2) \<and>
    (fw_phase f = RunReturned None \<longrightarrow> (\<exists>r s. cp_phase (fw_up f) = Finished r \<and> cp_phase (fw_down f) = Finished s)) \<and>
    (\<forall>r. fw_phase f = RunReturned (Some r) \<longrightarrow> \<not> benign r)"
proof -
  have inv: "chan_inv f" by (rule chan_reachable_inv [OF assms(2) Run_begin_inv [OF assms(1)]])
  note I = inv [unfolded chan_inv_def]
  have fin: "finished (fw_up f) = 1 \<and> finished (fw_down f) = 1" if "fw_phase f = RunReturned None"
    using I that finished_cases(1) [of "fw_up f"] finished_cases(1) [of "fw_down f"] by auto
  have ends: "\<exists>r s. cp_phase (fw_up f) = Finished r \<and> cp_phase (fw_down f) = Finished s" if "fw_phase f = RunReturned None"
    using fin [OF that] finished_cases(2) by blast
  have two: "work f \<le> 2" if "fw_phase f = Awaiting 1"
    using I that finished_cases(1) [of "fw_up f"] finished_cases(1) [of "fw_down f"] by (auto simp: work_def)
  have closed: "ch_closed (fw_channel f) \<and> \<not> fw_cockpit_open f \<and> \<not> fw_bridge_open f \<and>
      (\<forall>f'. chan_step f f' \<longrightarrow> f' = f \<or> work f' < work f)" if "fw_phase f \<noteq> Awaiting 0"
    using I that closed_step_work [OF _ inv] by blast
  have err: "\<not> benign r" if "fw_phase f = RunReturned (Some r)" for r using I that by simp
  have ok: "copier_ok (fw_up f)" "copier_ok (fw_down f)" using I by blast+
  show ?thesis
    using copier_ok_prefix [OF ok(1)] copier_ok_prefix [OF ok(2)] copier_ok_done [OF ok(1)] copier_ok_done [OF ok(2)]
      awaiting_step [OF inv] closed two ends err by simp
qed

text \<open>A page that sends two bytes and ends: the daemon gets them, and everything is closed.\<close>

theorem Run_forwards_and_ends_witness:
  "\<exists>f0 f. Run_begin True True True New_channel = Some f0 \<and> chan_step\<^sup>*\<^sup>* f0 f \<and>
     cp_written (fw_up f) = ''hi'' \<and> fw_phase f = Awaiting 1 \<and> \<not> fw_bridge_open f"
proof -
  obtain f0 where f0: "Run_begin True True True New_channel = Some f0" by (simp add: Run_begin_def)
  let ?f1 = "set_up (copy_look False (fw_up f0)) f0"
  let ?f2 = "set_up (copy_receive ''hi'' (Some IoEOF) (fw_up ?f1)) ?f1"
  let ?f3 = "set_up (copy_send ''hi'' (Some IoEOF) 2 None (fw_up ?f2)) ?f2"
  let ?f4 = "Run_receive CopyDone 0 (?f3\<lparr>fw_results := []\<rparr>)"
  note defs = Run_begin_def New_channel_def SetConn_def new_copier_def set_up_def copy_look_def copy_receive_def copy_send_def after_read_def
    results_of_def Run_receive_def close_all_def benign_def
  have start: "\<not> ch_closed (fw_channel f0)" "cp_phase (fw_up f0) = Looking" "fw_cockpit_open f0" "fw_bridge_open f0" using f0 by (auto simp: defs)
  have 1: "chan_step f0 ?f1" using chan_step.up_look [OF start(2)] start(1) by simp
  have 2: "chan_step ?f1 ?f2"
    by (rule chan_step.up_receive) (use start in \<open>auto simp: defs buffer_def\<close>)
  have 3: "chan_step ?f2 ?f3" by (rule chan_step.up_send) (use start in \<open>auto simp: defs\<close>)
  have 4: "chan_step ?f3 ?f4" by (rule chan_step.receive) (use f0 in \<open>auto simp: defs\<close>)
  have run: "chan_step\<^sup>*\<^sup>* f0 ?f4" using 1 2 3 4 by (meson converse_rtranclp_into_rtranclp r_into_rtranclp)
  have "cp_written (fw_up ?f4) = ''hi''" "fw_phase ?f4 = Awaiting 1" using f0 by (auto simp: defs)
  then show ?thesis using f0 run Run_forwards_and_ends [OF f0 run] by auto
qed

end
