(* ===== verification/Spec2Isabelle.thy ===== *)
theory Spec2Isabelle
  imports Ledger_Props Protocol_Props Connection_Props Access Nodehelper Command_Liveness Node_Stream_Props Ipc_Server_Props Slurm_User_Props Nodehelper_Props Execution_Props Command_Locks Daemon_Site Channel_Props
begin

text \<open>
  A verification development of cockpit-slurm, the daemon behind a Cockpit page for Slurm clusters
  (Go, under \<^verbatim>\<open>src/\<close>).

  \<^bold>\<open>The program.\<close> The unprivileged daemon \<^verbatim>\<open>cmd/cockpit-slurm\<close> listens on a Unix socket. A connection
  (\<^verbatim>\<open>internal/ipc\<close>, \<^verbatim>\<open>internal/connection\<close>) carries length-prefixed JSON messages (\<^verbatim>\<open>internal/protocol\<close>),
  which the dispatcher (\<^verbatim>\<open>internal/dispatcher\<close>) gives to handlers: greetings, queries of the node cache and
  of the caller's capabilities (\<^verbatim>\<open>internal/service\<close>), and commands that drain or resume a node
  (\<^verbatim>\<open>internal/command\<close>). A synchronizer (\<^verbatim>\<open>internal/resource\<close>) reads the nodes from \<^verbatim>\<open>scontrol\<close> and commits
  them to the cache; each commit is published to the streams of the connections (\<^verbatim>\<open>internal/stream\<close>). A
  command is claimed in a ledger (\<^verbatim>\<open>internal/ledger\<close>, SQLite), authorized against the caller's Slurm account
  (\<^verbatim>\<open>internal/identity\<close>, \<^verbatim>\<open>internal/authorization\<close>) and executed over D-Bus by the privileged helper
  (\<^verbatim>\<open>internal/nodehelper\<close>, \<^verbatim>\<open>cmd/cockpit-slurm-node-helper\<close>), which runs \<^verbatim>\<open>scontrol update\<close>.

  \<^bold>\<open>The theories.\<close> Definitions stand in the theory of their component, in the order of the code; what is
  proved of them is at its end or in the theory of the same name with \<open>_Props\<close>.

  \<^item> \<open>Prelude\<close>: bytes, words, tables of rows with a key.
  \<^item> \<open>Go_Text\<close>, \<open>Go_Json\<close>, \<open>Slurm_Json\<close>: the parts of Go's library that the program calls: UTF-8, trimming,
    case, decimal numbers; reading and writing JSON, raw members, struct fields; decoding into a type
    described by a \<open>gotype\<close>. \<open>Go_Json_Facts\<close> and \<open>Go_Json_Valid\<close> show that a written value reads back
    as itself and that a read value is well formed.
  \<^item> \<open>Ledger\<close> (\<^verbatim>\<open>internal/ledger/ledger.go\<close>): the rows of the table \<^verbatim>\<open>commands\<close>, the SQL statements as functions
    on them, the claim, the transitions, start-up with migration and recovery, and the admission gate.
    Failures of the database, the outcome of a commit and the clock are a \<open>db_env\<close> of each call.
  \<^item> \<open>Protocol\<close> (\<^verbatim>\<open>internal/protocol\<close>): envelope, framing codec, the check for repeated keys, payloads.
  \<^item> \<open>Connection\<close> (\<^verbatim>\<open>internal/connection\<close>): peer identity, connection identifiers, the connection table.
    \<open>Connection_Props\<close> has its interface \<^verbatim>\<open>ConnectionManager\<close> as the locale \<open>connection_table\<close>, interpreted
    by the manager, and the goroutines that create, register and close connections (\<open>table_step\<close>).
  \<^item> \<open>Access\<close> (\<^verbatim>\<open>internal/identity/capabilities.go\<close>, \<^verbatim>\<open>internal/authorization\<close>): capabilities, registry of
    operations, authorizer. \<open>Access_Contract\<close> is the interface \<^verbatim>\<open>SlurmUserLookup\<close> as the locale
    \<open>slurm_users\<close>, with what follows from it for the resolver and the authorizer.
  \<^item> \<open>Slurm_Models\<close> (\<^verbatim>\<open>hack/openapi/slurm_openapi.gen.go\<close>), \<open>Slurm_Source\<close> (\<^verbatim>\<open>node_adapter.go\<close>, \<^verbatim>\<open>sacctmgr.go\<close>):
    the generated types that the program decodes, and reading nodes and users from Slurm's programs.
    \<open>Slurm_Source_Props\<close> and \<open>Slurm_User_Props\<close> show that printed documents are read as they were meant;
    the latter interprets \<open>slurm_users\<close> by the lookup in \<^verbatim>\<open>sacctmgr\<close>.
  \<^item> \<open>Nodehelper\<close> (\<^verbatim>\<open>internal/nodehelper\<close>, \<^verbatim>\<open>internal/command/dbus_executor.go\<close>): validation of a mutation, the
    helper's D-Bus method and start, the daemon's client and its classification of errors.
    \<open>Execution_Props\<close> follows the end of \<^verbatim>\<open>scontrol\<close> back to the record of the command.
  \<^item> \<open>Command\<close> (\<^verbatim>\<open>internal/command/service.go\<close>): one request as a tree of the calls it makes (\<open>prog\<close>).
    \<open>Command_System\<close> runs any number of such goroutines interleaved over one ledger, with restarts, and
    states what it needs of the ledger as the locale \<open>command_ledger\<close>; \<open>Command_Props\<close> interprets it by
    the SQLite ledger. \<open>Command_Outcomes\<close>, \<open>Command_Theorems\<close> and \<open>Command_Liveness\<close> hold what is proved.
    \<open>Command_Locks\<close> shows, as an interpretation of the locale \<open>keyed_lock\<close>, that the table of counted
    mutexes implements the atomic locks that the system uses.
  \<^item> \<open>Node\<close> (\<^verbatim>\<open>internal/resource\<close>): canonical nodes, cache, change batches, synchronizer. \<open>Node_Stream\<close>
    (\<^verbatim>\<open>internal/stream\<close>): the registry of streams and their queues.
  \<^item> \<open>Dispatch\<close> (\<^verbatim>\<open>internal/dispatcher\<close>, \<^verbatim>\<open>internal/service\<close>): handlers and routing.
  \<^item> \<open>Ipc\<close> (\<^verbatim>\<open>internal/ipc/server.go\<close>): the replay cache and its fingerprints, the loop and the writer of a
    connection, \<^verbatim>\<open>Listen\<close>, \<^verbatim>\<open>Serve\<close>, \<^verbatim>\<open>Close\<close>, split at the points where other goroutines may run: each
    \<^verbatim>\<open>select\<close>, \<^verbatim>\<open>Decode\<close>, dispatch, \<^verbatim>\<open>Encode\<close> and critical section is a step of its own.
  \<^item> \<open>Channel\<close> (\<^verbatim>\<open>internal/channel\<close>): the two-way forwarder between two transports.
  \<^item> \<open>Daemon\<close> (\<^verbatim>\<open>cmd/cockpit-slurm/main.go\<close>): the start of the daemon from all its parts. \<open>Daemon_Requests\<close>
    follows the requests of one connection of a started daemon to the command handler, there one function of
    the daemon's state. \<open>Daemon_Site\<close> is the daemon as a whole: the steps of all connections and every call of
    their command requests, interleaved (\<open>site_step\<close>), down to what is executed on a node.

  \<^bold>\<open>State, errors, concurrency.\<close> A struct is a record, a Go map an association list or a function to options,
  errors are values of a datatype (\<open>Inl\<close>), and code that changes state returns it. The operating system,
  the database, D-Bus, Slurm's programs, clocks, random bytes and SHA-256 are arguments. Goroutines are
  step relations over shared state: \<open>sys_step\<close> for requests, \<open>feed_step\<close> for refreshes and streams,
  \<open>table_step\<close> for the connection table, \<open>conn_step\<close> for the loop and writer of a connection, \<open>server_step\<close> for accepting and closing,
  \<open>lock_step\<close> for the lock table, \<open>chan_step\<close> for the forwarder; invariants are proved by induction on
  reachability.

  \<^bold>\<open>What is shown.\<close>

  \<^item> The whole: whatever is executed on a node was asked for by a message on a socket whose peer, by the kernel's
    credentials, is the recorded caller and by Slurm's word an administrator, and it was executed once.
  \<^item> Commands: under any interleaving, database failure and restart no command is executed twice within
    a retention period, and none without an administrator's authorization and a durable record; on a
    working database a command is settled as specified and a repetition gets the recorded answer; locks
    never block each other, and finitely many requests come to rest. The ledger keeps its table invariant
    and its records move only along allowed transitions.
  \<^item> Privilege: capabilities and authorizations rest on \<^verbatim>\<open>sacctmgr\<close> naming exactly this user an administrator;
    the helper runs nothing but one plain \<^verbatim>\<open>scontrol update\<close>, only for the service account. A success is
    reported exactly when that program exited with zero; a program killed at the time limit is reported
    as definitely failed.
  \<^item> Connections: the identity of a connection is what the kernel and the user database say of its socket,
    and whatever a connection changes in the daemon it changes through the command handler under this
    identity. Closing cancels and closes every connection that was taken to close; a closed server leaves
    none open. \<open>Serve_returns_with_work_in_progress\<close> shows that the end of the daemon waits for none of them.
  \<^item> Messages: framing and payloads round-trip, what is accepted obeys the protocol's rules, every message
    gets one answer of the right type, repetitions on a connection are dispatched once, and answers
    reach the socket in order, all of them while the connection lives and the socket takes them.
  \<^item> Nodes: what \<^verbatim>\<open>scontrol\<close> prints is decoded to the same nodes; a commit reports exactly the difference;
    every stream that is open has been given a snapshot and all later batches, which yield the cache.
  \<^item> Start: the daemon starts exactly when its parts can be built, and then each part is in the state that
    the theorems about the others assume.

  \<^bold>\<open>Bounds.\<close> The JSON reader has fuel for the length of its input plus one, which \<open>parse_fuel\<close> shows is
  enough. \<^const>\<open>Handle\<close> takes the number of polls of the waiting loop that are looked at; theorems hold for
  every number. Counters are 64-bit words; theorems about them are for fewer than \<open>2 ^ 64\<close> steps and say so.
  \<^verbatim>\<open>time.Time\<close> appears as Unix seconds or as its text. At-most-once holds within one retention period
  because the ledger forgets records afterwards.

  \<^bold>\<open>Not modelled.\<close> The TypeScript frontend, packaging, systemd and D-Bus policy files, and tests: they are
  not Go code of the daemon. Of the generated file only the types that the program decodes; its other types
  and its HTTP client are never used. Log lines, contexts' deadlines beyond their being done or not, and
  the stop of the process on signals. A slice that \<^verbatim>\<open>encoding/json\<close> shortens and grows again while decoding
  one key three times keeps no old elements here.
\<close>

end
